(* ===== verification/Go_Prelude.thy ===== *)
theory Go_Prelude
  imports
    Main
    "HOL-Library.Word"
    "HOL-Library.Char_ord"
    "HOL-Library.List_Lexorder"
    "HOL-Library.Sublist"
    "HOL-Library.Signed_Division"
begin

text \<open>
  The part of Go and of its standard library that the certdx packages share: byte strings and
  the functions of package \<open>strings\<close> they call, \<open>time.Time\<close> and \<open>time.Duration\<close>, and a
  locale for invariants of step relations that the concurrent components interpret.

  A Go string is a sequence of bytes, here \<^typ>\<open>string\<close> (a \<^typ>\<open>char\<close> is one byte).
  \<open>strings.ToLower\<close> maps the ASCII letters of an ASCII string; on a string with a byte outside
  ASCII it applies the Unicode tables, which are the parameter \<open>lw\<close> of the definitions below.
\<close>

named_theorems go_string_simps \<open>rewrite rules for the functions of package strings\<close>
named_theorems go_time_simps \<open>the units of time.Duration as numbers of nanoseconds\<close>

type_synonym bytes = string
type_synonym duration = int
type_synonym time = int

text \<open>
  The result of a Go function that may return a value, return an error, or panic (a nil pointer
  dereference, an index out of range, a send on a closed channel).
\<close>

datatype ('e, 'a) outcome = Return 'a | Fail 'e | Panic

section \<open>Package strings\<close>

definition HasPrefix :: "string \<Rightarrow> string \<Rightarrow> bool" where
  "HasPrefix s p \<longleftrightarrow> prefix p s"

definition HasSuffix :: "string \<Rightarrow> string \<Rightarrow> bool" where
  "HasSuffix s x \<longleftrightarrow> suffix x s"

definition TrimPrefix :: "string \<Rightarrow> string \<Rightarrow> string" where
  "TrimPrefix s p = (if HasPrefix s p then drop (length p) s else s)"

definition TrimSuffix :: "string \<Rightarrow> string \<Rightarrow> string" where
  "TrimSuffix s x = (if HasSuffix s x then take (length s - length x) s else s)"

fun Join :: "string list \<Rightarrow> string \<Rightarrow> string" where
  "Join [] sep = []"
| "Join [x] sep = x"
| "Join (x # y # xs) sep = x @ sep @ Join (y # xs) sep"

text \<open>\<open>strings.Split\<close> with a separator of one byte: one field more than there are separators.\<close>

fun Split1 :: "string \<Rightarrow> char \<Rightarrow> string list" where
  "Split1 [] sep = [[]]"
| "Split1 (c # cs) sep =
     (if c = sep then [] # Split1 cs sep
      else (case Split1 cs sep of [] \<Rightarrow> [[c]] | f # fs \<Rightarrow> (c # f) # fs))"

definition is_ascii :: "string \<Rightarrow> bool" where
  "is_ascii s \<longleftrightarrow> list_all (\<lambda>c. (of_char c :: nat) < 128) s"

definition lower_ascii :: "char \<Rightarrow> char" where
  "lower_ascii c =
     (let n = (of_char c :: nat) in if 65 \<le> n \<and> n \<le> 90 then char_of (n + 32) else c)"

definition ToLower :: "(string \<Rightarrow> string) \<Rightarrow> string \<Rightarrow> string" where
  "ToLower lw s = (if is_ascii s then map lower_ascii s else lw s)"

text \<open>\<open>strings.Fields\<close>: the maximal runs of bytes that are not white space; on a string with a
  byte outside ASCII the Unicode spaces count too, which is the parameter \<open>fw\<close>.\<close>

definition is_space :: "char \<Rightarrow> bool" where
  "is_space c \<longleftrightarrow> (let n = (of_char c :: nat) in (9 \<le> n \<and> n \<le> 13) \<or> n = 32)"

fun fields_loop :: "string \<Rightarrow> string \<Rightarrow> string list" where
  "fields_loop cur [] = (if cur = [] then [] else [cur])"
| "fields_loop cur (c # cs) =
     (if is_space c then (if cur = [] then fields_loop [] cs else cur # fields_loop [] cs)
      else fields_loop (cur @ [c]) cs)"

definition Fields :: "(string \<Rightarrow> string list) \<Rightarrow> string \<Rightarrow> string list" where
  "Fields fw s = (if is_ascii s then fields_loop [] s else fw s)"

text \<open>\<open>strings.TrimSpace\<close>, with the parameter \<open>tw\<close> for a string with a byte outside ASCII, and
  \<open>strings.EqualFold\<close> with a string of ASCII letters that have no other case variants.\<close>

definition TrimSpace :: "(string \<Rightarrow> string) \<Rightarrow> string \<Rightarrow> string" where
  "TrimSpace tw s =
     (if is_ascii s then rev (dropWhile is_space (rev (dropWhile is_space s))) else tw s)"

definition EqualFold_ascii :: "string \<Rightarrow> string \<Rightarrow> bool" where
  "EqualFold_ascii s t \<longleftrightarrow> map lower_ascii s = map lower_ascii t"

section \<open>Package time\<close>

text \<open>
  A \<^typ>\<open>time\<close> is the number of nanoseconds since Go's zero time (January 1, year 1, UTC), so the
  zero value of \<open>time.Time\<close> is \<open>0\<close>. A \<^typ>\<open>duration\<close> is a number of nanoseconds. Division of
  durations truncates towards zero (\<open>sdiv\<close>).
\<close>

definition Nanosecond :: duration where [go_time_simps]: "Nanosecond = 1"
definition Second :: duration where [go_time_simps]: "Second = 1000000000"
definition Minute :: duration where [go_time_simps]: "Minute = 60 * 1000000000"
definition Hour :: duration where [go_time_simps]: "Hour = 3600 * 1000000000"

text \<open>\<open>t.Truncate(d)\<close>: \<open>t\<close> rounded down to a multiple of \<open>d\<close> since the zero time, \<open>t\<close> itself
  when \<open>d\<close> is not positive.\<close>

definition Truncate :: "time \<Rightarrow> duration \<Rightarrow> time" where
  "Truncate t d = (if d \<le> 0 then t else t - t mod d)"

section \<open>Lemmas on strings\<close>

lemma Split1_not_Nil [simp]: "Split1 s sep \<noteq> []"
  by (induction s) (auto split: list.splits)

lemma Join_Cons: "xs \<noteq> [] \<Longrightarrow> Join (x # xs) sep = x @ sep @ Join xs sep"
  by (cases xs) auto

lemma Join_Split1 [simp, go_string_simps]: "Join (Split1 s sep) [sep] = s"
proof (induction s)
  case Nil
  show ?case by simp
next
  case (Cons c cs)
  obtain f fs where split: "Split1 cs sep = f # fs"
    by (cases "Split1 cs sep") auto
  show ?case
  proof (cases "c = sep")
    case True
    then show ?thesis using Cons by (simp add: Join_Cons)
  next
    case False
    then show ?thesis using Cons split by (cases fs) auto
  qed
qed

lemma Split1_append [go_string_simps]:
  "Split1 (x @ sep # y) sep = Split1 x sep @ Split1 y sep"
  by (induction x) (auto split: list.splits)

lemma Join_append:
  "xs \<noteq> [] \<Longrightarrow> ys \<noteq> [] \<Longrightarrow> Join (xs @ ys) sep = Join xs sep @ sep @ Join ys sep"
  by (induction xs sep rule: Join.induct) (auto simp: Join_Cons)

lemma Split1_id: "sep \<notin> set s \<Longrightarrow> Split1 s sep = [s]"
  by (induction s) auto

lemma Split1_Join:
  "xs \<noteq> [] \<Longrightarrow> (\<And>x. x \<in> set xs \<Longrightarrow> sep \<notin> set x) \<Longrightarrow> Split1 (Join xs [sep]) sep = xs"
proof (induction xs)
  case Nil
  then show ?case by simp
next
  case (Cons x xs)
  then show ?case
    by (cases "xs = []") (auto simp: Join_Cons Split1_append Split1_id)
qed

lemma Join_inj:
  assumes "xs \<noteq> []" "ys \<noteq> []"
    and "\<And>x. x \<in> set xs \<union> set ys \<Longrightarrow> sep \<notin> set x"
    and "Join xs [sep] = Join ys [sep]"
  shows "xs = ys"
proof -
  have "xs = Split1 (Join xs [sep]) sep"
    by (rule Split1_Join [symmetric]) (use assms in auto)
  also have "\<dots> = Split1 (Join ys [sep]) sep"
    using assms(4) by simp
  also have "\<dots> = ys"
    by (rule Split1_Join) (use assms in auto)
  finally show ?thesis .
qed

lemma HasPrefix_append [simp]: "HasPrefix (p @ s) p"
  by (simp add: HasPrefix_def)

lemma TrimPrefix_append [simp]: "TrimPrefix (p @ s) p = s"
  by (simp add: TrimPrefix_def)

lemma HasPrefix_TrimPrefix: "HasPrefix s p \<Longrightarrow> p @ TrimPrefix s p = s"
  by (auto simp: HasPrefix_def TrimPrefix_def prefix_def)

lemma TrimSuffix_append [simp]: "TrimSuffix (s @ x) x = s"
  by (simp add: TrimSuffix_def HasSuffix_def suffix_def)

lemma lower_ascii_idem [simp]: "lower_ascii (lower_ascii c) = lower_ascii c"
  by (auto simp: lower_ascii_def Let_def)

lemma fields_loop_nonempty: "f \<in> set (fields_loop cur cs) \<Longrightarrow> f \<noteq> []"
  by (induction cur cs rule: fields_loop.induct) (auto split: if_splits)

lemma fields_loop_blank: "list_all is_space cs \<Longrightarrow> fields_loop [] cs = []"
  by (induction cs) auto

section \<open>Lemmas on times\<close>

lemma Truncate_le: "Truncate t d \<le> t"
  by (simp add: Truncate_def)

lemma Truncate_gt: "0 < d \<Longrightarrow> t < Truncate t d + d"
  using pos_mod_bound [of d t] by (simp add: Truncate_def)

lemma Truncate_mono: "t \<le> u \<Longrightarrow> Truncate t d \<le> Truncate u d"
proof (cases "0 < d")
  case True
  assume "t \<le> u"
  then have "t div d * d \<le> u div d * d"
    using True by (simp add: zdiv_mono1)
  moreover have "Truncate t d = t div d * d" "Truncate u d = u div d * d"
    using True by (simp_all add: Truncate_def minus_mod_eq_div_mult)
  ultimately show ?thesis by simp
qed (simp add: Truncate_def)

lemma Hour_pos [simp]: "0 < Hour"
  by (simp add: go_time_simps)

section \<open>Invariants of step relations\<close>

text \<open>
  The concurrent components are step relations on a record of their shared state and of the
  program counters of their goroutines. An invariant of such a relation is an instance of this
  locale, and holds in every state reachable from an initial one.
\<close>

locale step_invariant =
  fixes init :: "'s \<Rightarrow> bool"
    and step :: "'s \<Rightarrow> 's \<Rightarrow> bool"
    and inv :: "'s \<Rightarrow> bool"
  assumes inv_init: "init s \<Longrightarrow> inv s"
    and inv_step: "inv s \<Longrightarrow> step s t \<Longrightarrow> inv t"
begin

lemma inv_steps: "step\<^sup>*\<^sup>* s t \<Longrightarrow> inv s \<Longrightarrow> inv t"
  by (induction rule: rtranclp_induct) (auto intro: inv_step)

lemma inv_reachable: "init s \<Longrightarrow> step\<^sup>*\<^sup>* s t \<Longrightarrow> inv t"
  by (blast intro: inv_init inv_steps)

end

text \<open>
  The end of a group of goroutines: once the group is closing, every step goes down in a
  well-founded order, and there is a step as long as the group has not ended. Then the group ends
  however the goroutines are scheduled.
\<close>

locale teardown =
  fixes step :: "'s \<Rightarrow> 's \<Rightarrow> bool"
    and closing :: "'s \<Rightarrow> bool"
    and ended :: "'s \<Rightarrow> bool"
    and order :: "('s \<times> 's) set"
  assumes wf_order: "wf order"
    and closing_step: "closing s \<Longrightarrow> step s t \<Longrightarrow> closing t"
    and goes_down: "closing s \<Longrightarrow> step s t \<Longrightarrow> (t, s) \<in> order"
    and progress: "closing s \<Longrightarrow> \<not> ended s \<Longrightarrow> \<exists>t. step s t"

text \<open>Closing is an invariant of its own.\<close>

sublocale teardown \<subseteq> stays: step_invariant closing step closing
  by unfold_locales (auto intro: closing_step)

context teardown begin

lemma no_endless_run:
  assumes "closing (f 0)"
  shows "\<not> (\<forall>i. step (f i) (f (Suc i)))"
proof
  assume run: "\<forall>i. step (f i) (f (Suc i))"
  then have "step\<^sup>*\<^sup>* (f 0) (f i)" for i
    by (induction i) (auto intro: rtranclp.rtrancl_into_rtrancl)
  then have "(f (Suc i), f i) \<in> order" for i
    using assms run stays.inv_steps goes_down by blast
  then show False
    using wf_order by (auto simp: wf_iff_no_infinite_down_chain)
qed

lemma comes_to_end:
  assumes "closing s"
  shows "\<exists>t. step\<^sup>*\<^sup>* s t \<and> ended t"
  using wf_order assms
proof (induction s rule: wf_induct_rule)
  case (less s)
  then show ?case
    by (cases "ended s") (blast intro: converse_rtranclp_into_rtranclp closing_step goes_down dest: progress)+
qed

lemma stuck_ended: "closing s \<Longrightarrow> step\<^sup>*\<^sup>* s t \<Longrightarrow> \<not> (\<exists>u. step t u) \<Longrightarrow> ended t"
  using stays.inv_steps progress by blast

end

end
