(* ===== verification/Domain.thy ===== *)
theory Domain
  imports Go_Prelude
begin

text \<open>
  Package \<open>pkg/domain\<close>: normalisation of domain names, the 64-bit key of a bundle of names, and
  the allow-list test. \<open>Key\<close> is Go's \<open>uint64\<close>; the hash is FNV-1a over the sorted canonical
  names joined by a zero byte, as \<open>hash/fnv\<close> computes it.
\<close>

unbundle bit_operations_syntax

type_synonym Key = "64 word"

section \<open>Definitions\<close>

definition normalizeName :: "(string \<Rightarrow> string) \<Rightarrow> string \<Rightarrow> string" where
  "normalizeName lw name = ToLower lw (TrimSuffix name ''.'')"

definition fnv_offset64 :: Key where
  "fnv_offset64 = 14695981039346656037"

definition fnv_prime64 :: Key where
  "fnv_prime64 = 1099511628211"

fun fnv1a_Write :: "Key \<Rightarrow> bytes \<Rightarrow> Key" where
  "fnv1a_Write h [] = h"
| "fnv1a_Write h (c # cs) = fnv1a_Write ((h XOR of_char c) * fnv_prime64) cs"

text \<open>The loop of \<open>AsKey\<close>: \<open>seen\<close> is the set of names met so far, \<open>canon\<close> the slice built.\<close>

fun AsKey_loop ::
    "(string \<Rightarrow> string) \<Rightarrow> string list \<Rightarrow> string set \<Rightarrow> string list \<Rightarrow> string list" where
  "AsKey_loop lw [] seen canon = canon"
| "AsKey_loop lw (d0 # ds) seen canon =
     (let d = normalizeName lw d0 in
      if d = [] then AsKey_loop lw ds seen canon
      else if d \<in> seen then AsKey_loop lw ds seen canon
      else AsKey_loop lw ds (insert d seen) (canon @ [d]))"

definition AsKey_input :: "(string \<Rightarrow> string) \<Rightarrow> string list \<Rightarrow> bytes" where
  "AsKey_input lw domains = Join (sort (AsKey_loop lw domains {} [])) [CHR 0x00]"

definition AsKey :: "(string \<Rightarrow> string) \<Rightarrow> string list \<Rightarrow> Key" where
  "AsKey lw domains = fnv1a_Write fnv_offset64 (AsKey_input lw domains)"

fun IsSubdomain_loop :: "(string \<Rightarrow> string) \<Rightarrow> string \<Rightarrow> string list \<Rightarrow> bool" where
  "IsSubdomain_loop lw d [] = False"
| "IsSubdomain_loop lw d (allowedDomain # rest) =
     (let parent = normalizeName lw allowedDomain in
      if d = parent then True
      else if HasSuffix d (''.'' @ parent) then True
      else IsSubdomain_loop lw d rest)"

definition IsSubdomain :: "(string \<Rightarrow> string) \<Rightarrow> string \<Rightarrow> string list \<Rightarrow> bool" where
  "IsSubdomain lw domain allowedDomains =
     IsSubdomain_loop lw (normalizeName lw domain) allowedDomains"

fun AllAllowed :: "(string \<Rightarrow> string) \<Rightarrow> string list \<Rightarrow> string list \<Rightarrow> bool" where
  "AllAllowed lw allowedList [] = True"
| "AllAllowed lw allowedList (i # toCheck) =
     (if \<not> IsSubdomain lw i allowedList then False else AllAllowed lw allowedList toCheck)"

definition Allowed :: "(string \<Rightarrow> string) \<Rightarrow> string list \<Rightarrow> string \<Rightarrow> bool" where
  "Allowed lw allowedList toCheck = IsSubdomain lw toCheck allowedList"

section \<open>Specification\<close>

text \<open>The canonical form of a bundle: the set of its non-empty normalised names.\<close>

definition norm_set :: "(string \<Rightarrow> string) \<Rightarrow> string list \<Rightarrow> string set" where
  "norm_set lw ds = normalizeName lw ` set ds - {[]}"

text \<open>The DNS labels of a name, and the label-wise subdomain relation.\<close>

definition labels :: "string \<Rightarrow> string list" where
  "labels s = Split1 s (CHR ''.'')"

definition label_subdomain :: "string \<Rightarrow> string \<Rightarrow> bool" where
  "label_subdomain d p \<longleftrightarrow> suffix (labels p) (labels d)"

section \<open>The key of a bundle\<close>

lemma norm_set_Nil [simp]: "norm_set lw [] = {}"
  by (simp add: norm_set_def)

lemma norm_set_Cons:
  "norm_set lw (d # ds) =
     (if normalizeName lw d = [] then norm_set lw ds
      else insert (normalizeName lw d) (norm_set lw ds))"
  by (auto simp: norm_set_def)

lemma AsKey_loop_set:
  "set canon = seen \<Longrightarrow> set (AsKey_loop lw ds seen canon) = seen \<union> norm_set lw ds"
  by (induction lw ds seen canon rule: AsKey_loop.induct) (auto simp: norm_set_Cons Let_def)

lemma AsKey_loop_distinct:
  "set canon = seen \<Longrightarrow> distinct canon \<Longrightarrow> distinct (AsKey_loop lw ds seen canon)"
  by (induction lw ds seen canon rule: AsKey_loop.induct) (auto simp: Let_def)

lemma norm_set_finite [simp]: "finite (norm_set lw ds)"
  by (simp add: norm_set_def)

lemma AsKey_input_norm_set:
  "AsKey_input lw ds = Join (sorted_list_of_set (norm_set lw ds)) [CHR 0x00]"
proof -
  have "distinct (AsKey_loop lw ds {} [])"
    by (simp add: AsKey_loop_distinct)
  moreover have "set (AsKey_loop lw ds {} []) = norm_set lw ds"
    by (simp add: AsKey_loop_set)
  ultimately have "sorted_list_of_set (norm_set lw ds) = sort (AsKey_loop lw ds {} [])"
    by (metis sorted_list_of_set_sort_remdups distinct_remdups_id)
  then show ?thesis by (simp add: AsKey_input_def)
qed

lemma AsKey_cong: "norm_set lw xs = norm_set lw ys \<Longrightarrow> AsKey lw xs = AsKey lw ys"
  by (simp add: AsKey_def AsKey_input_norm_set)

subsection \<open>FNV-1a\<close>

text \<open>The prime is odd, so multiplying by it is invertible modulo \<open>2 ^ 64\<close>.\<close>

lemma fnv_prime64_inverse: "fnv_prime64 * 14886173955864302971 = 1"
  by (simp add: fnv_prime64_def)

lemma fnv_prime64_cancel: "x * fnv_prime64 = y * fnv_prime64 \<longleftrightarrow> x = y"
proof
  assume "x * fnv_prime64 = y * fnv_prime64"
  then have "x * fnv_prime64 * 14886173955864302971 = y * fnv_prime64 * 14886173955864302971"
    by (rule arg_cong)
  then show "x = y" by (simp only: mult.assoc fnv_prime64_inverse mult_1_right)
qed simp

lemma word_xor_cancel: "(x XOR z = y XOR z) \<longleftrightarrow> x = (y :: Key)"
proof
  assume "x XOR z = y XOR z"
  then have "(x XOR z) XOR z = (y XOR z) XOR z" by (rule arg_cong)
  then show "x = y" by (simp only: xor.assoc xor_self_eq xor.right_neutral)
qed simp

lemma of_char_word_inject: "(of_char c :: Key) = of_char d \<longleftrightarrow> c = d"
proof
  have unat: "unat (of_char e :: Key) = of_char e" for e :: char
  proof -
    have "(of_char e :: Key) = of_nat (of_char e)" by (rule of_nat_of_char [symmetric])
    moreover have "(of_char e :: nat) < 256"
      using mod_less_divisor [of 256 "of_char e :: nat"] by (simp only: of_char_mod_256)
    then have "(of_char e :: nat) < 2 ^ 64" by (rule order.strict_trans2) simp
    ultimately show ?thesis by (simp only: unat_of_nat) simp
  qed
  assume eq: "(of_char c :: Key) = of_char d"
  have "(of_char c :: nat) = unat (of_char c :: Key)" by (rule unat [symmetric])
  also have "\<dots> = unat (of_char d :: Key)" by (simp only: eq)
  also have "\<dots> = of_char d" by (rule unat)
  finally show "c = d" by (rule of_char_eqI)
qed (simp only:)

lemma fnv1a_Write_inj: "fnv1a_Write h cs = fnv1a_Write h' cs \<longleftrightarrow> h = h'"
  by (induction cs arbitrary: h h') (simp_all add: fnv_prime64_cancel word_xor_cancel)

lemma fnv1a_Write_append: "fnv1a_Write h (xs @ ys) = fnv1a_Write (fnv1a_Write h xs) ys"
  by (induction xs arbitrary: h) auto

lemma fnv1a_Write_one_byte:
  "fnv1a_Write h (u @ c # v) = fnv1a_Write h (u @ d # v) \<longleftrightarrow> c = d"
proof -
  have "(x XOR of_char c = x XOR of_char d) \<longleftrightarrow> c = d" for x :: Key
    by (metis word_xor_cancel xor.commute of_char_word_inject)
  then show ?thesis
    by (simp add: fnv1a_Write_append fnv1a_Write_inj fnv_prime64_cancel)
qed

subsection \<open>Subdomains\<close>

lemma labels_append: "labels (x @ CHR ''.'' # y) = labels x @ labels y"
  by (simp add: labels_def Split1_append)

lemma Join_labels [simp]: "Join (labels s) ''.'' = s"
  by (simp add: labels_def)

lemma labels_not_Nil [simp]: "labels s \<noteq> []"
  by (simp add: labels_def)

lemma label_subdomain_iff: "label_subdomain d p \<longleftrightarrow> d = p \<or> HasSuffix d (''.'' @ p)"
proof
  assume "label_subdomain d p"
  then obtain zs where zs: "labels d = zs @ labels p"
    by (auto simp: label_subdomain_def suffix_def)
  show "d = p \<or> HasSuffix d (''.'' @ p)"
  proof (cases "zs = []")
    case True
    with zs have "Join (labels d) ''.'' = Join (labels p) ''.''" by simp
    then show ?thesis by simp
  next
    case False
    then have "Join (zs @ labels p) ''.'' = Join zs ''.'' @ ''.'' @ p"
      by (simp add: Join_append)
    with zs have "d = Join zs ''.'' @ ''.'' @ p"
      by (metis Join_labels)
    then show ?thesis by (auto simp: HasSuffix_def suffix_def)
  qed
next
  assume "d = p \<or> HasSuffix d (''.'' @ p)"
  then show "label_subdomain d p"
    by (auto simp: label_subdomain_def HasSuffix_def suffix_def labels_append)
qed

lemma IsSubdomain_loop_iff:
  "IsSubdomain_loop lw d ps \<longleftrightarrow> (\<exists>p \<in> set ps. label_subdomain d (normalizeName lw p))"
  by (induction ps) (auto simp: Let_def label_subdomain_iff)

lemma IsSubdomain_iff:
  "IsSubdomain lw d ps \<longleftrightarrow>
     (\<exists>p \<in> set ps. label_subdomain (normalizeName lw d) (normalizeName lw p))"
  by (simp add: IsSubdomain_def IsSubdomain_loop_iff)

lemma AllAllowed_iff: "AllAllowed lw ps ds \<longleftrightarrow> (\<forall>d \<in> set ds. IsSubdomain lw d ps)"
  by (induction ds) auto

lemma label_subdomain_trans:
  "label_subdomain a b \<Longrightarrow> label_subdomain b c \<Longrightarrow> label_subdomain a c"
  unfolding label_subdomain_def by (rule suffix_order.trans)

lemma AllAllowed_norm_set:
  assumes "AllAllowed lw ps xs" and "norm_set lw ys \<subseteq> norm_set lw xs" and "[] \<notin> normalizeName lw ` set ys"
  shows "AllAllowed lw ps ys"
proof -
  have "IsSubdomain lw y ps" if y: "y \<in> set ys" for y
  proof -
    have "normalizeName lw y \<in> norm_set lw ys"
      using y assms(3) by (auto simp: norm_set_def)
    then obtain x where x: "x \<in> set xs" "normalizeName lw x = normalizeName lw y"
      using assms(2) unfolding norm_set_def by force
    then have "IsSubdomain lw x ps"
      using assms(1) by (simp add: AllAllowed_iff)
    then show ?thesis using x(2) by (simp add: IsSubdomain_def)
  qed
  then show ?thesis by (simp add: AllAllowed_iff)
qed

section \<open>Properties\<close>

lemma AsKey_input_inj:
  assumes no_nul: "\<And>s. s \<in> norm_set lw xs \<union> norm_set lw ys \<Longrightarrow> CHR 0x00 \<notin> set s"
    and eq: "AsKey_input lw xs = AsKey_input lw ys"
  shows "norm_set lw xs = norm_set lw ys"
proof -
  let ?l = "\<lambda>ds. sorted_list_of_set (norm_set lw ds)"
  have empty: "norm_set lw zs = {}" if "Join (?l zs) [CHR 0x00] = []" for zs
  proof (cases "?l zs")
    case (Cons a as)
    have "a \<in> norm_set lw zs"
      using Cons set_sorted_list_of_set [of "norm_set lw zs"] by auto
    then have "a \<noteq> []" by (auto simp: norm_set_def)
    with that Cons show ?thesis by (cases as) auto
  qed simp
  have "?l xs = ?l ys"
  proof (cases "norm_set lw xs = {} \<or> norm_set lw ys = {}")
    case True
    then have "norm_set lw xs = norm_set lw ys"
      using eq empty [of xs] empty [of ys] by (auto simp: AsKey_input_norm_set)
    then show ?thesis by simp
  next
    case False
    then show ?thesis
      using eq no_nul by (intro Join_inj [of _ _ "CHR 0x00"]) (auto simp: AsKey_input_norm_set)
  qed
  then show ?thesis
    using sorted_list_of_set_inject norm_set_finite by blast
qed

subsection \<open>Normalisation\<close>

text \<open>A name of ASCII bytes is normalised to its lower case without one root dot.\<close>

lemma TrimSuffix_dot: "TrimSuffix s ''.'' = (if s \<noteq> [] \<and> last s = CHR ''.'' then butlast s else s)"
  by (cases s rule: rev_cases) (auto simp: TrimSuffix_def HasSuffix_def suffix_def)

lemma lower_ascii_dot: "lower_ascii c = CHR ''.'' \<longleftrightarrow> c = CHR ''.''"
proof
  assume l: "lower_ascii c = CHR ''.''"
  have "\<not> (65 \<le> (of_char c :: nat) \<and> (of_char c :: nat) \<le> 90)"
  proof
    assume r: "65 \<le> (of_char c :: nat) \<and> (of_char c :: nat) \<le> 90"
    then have "of_char (lower_ascii c) = (of_char c + 32 :: nat)"
      by (simp add: lower_ascii_def Let_def)
    moreover have "(of_char (CHR ''.'') :: nat) = 46" by simp
    ultimately show False using l r by simp
  qed
  then show "c = CHR ''.''" using l by (simp add: lower_ascii_def Let_def split: if_splits)
qed (simp add: lower_ascii_def)

lemma map_lower_TrimSuffix: "map lower_ascii (TrimSuffix s ''.'') = TrimSuffix (map lower_ascii s) ''.''"
  by (cases s rule: rev_cases) (auto simp: TrimSuffix_dot lower_ascii_dot)

lemma is_ascii_TrimSuffix: "is_ascii s \<Longrightarrow> is_ascii (TrimSuffix s x)"
  by (auto simp: is_ascii_def list_all_iff TrimSuffix_def dest: in_set_takeD)

lemma normalizeName_ascii:
  "is_ascii s \<Longrightarrow> normalizeName lw s = TrimSuffix (map lower_ascii s) ''.''"
  by (simp add: normalizeName_def ToLower_def is_ascii_TrimSuffix map_lower_TrimSuffix)

lemma normalizeName_fold:
  "is_ascii a \<Longrightarrow> is_ascii b \<Longrightarrow> EqualFold_ascii a b \<Longrightarrow> normalizeName lw a = normalizeName lw b"
  by (simp add: normalizeName_ascii EqualFold_ascii_def)

lemma normalizeName_dot:
  "\<not> HasSuffix a ''.'' \<Longrightarrow> normalizeName lw (a @ ''.'') = normalizeName lw a"
  using TrimSuffix_append [of a "''.''"] by (simp add: normalizeName_def) (simp add: TrimSuffix_def)

lemma norm_set_swap:
  "normalizeName lw a = normalizeName lw b \<Longrightarrow> norm_set lw (xs @ a # ys) = norm_set lw (xs @ b # ys)"
  by (simp add: norm_set_def)

lemma norm_set_ascii:
  assumes "\<forall>d \<in> set ds. is_ascii d"
  shows "norm_set lw ds =
    {map lower_ascii n | n. n \<noteq> [] \<and> (n \<in> set ds \<and> \<not> HasSuffix n ''.'' \<or> n @ ''.'' \<in> set ds)}" (is "_ = ?R")
proof
  have norm: "normalizeName lw d = map lower_ascii (TrimSuffix d ''.'')" if "d \<in> set ds" for d
    using assms that by (simp add: normalizeName_ascii map_lower_TrimSuffix)
  show "norm_set lw ds \<subseteq> ?R"
  proof
    fix x assume "x \<in> norm_set lw ds"
    then obtain d where d: "d \<in> set ds" "x = map lower_ascii (TrimSuffix d ''.'')" "x \<noteq> []"
      by (auto simp: norm_set_def norm)
    then show "x \<in> ?R"
      by (cases "HasSuffix d ''.''") (auto simp: HasSuffix_def suffix_def TrimSuffix_def)
  qed
  show "?R \<subseteq> norm_set lw ds"
  proof
    fix x assume "x \<in> ?R"
    then obtain n d where "x = map lower_ascii n" "n \<noteq> []" "d \<in> set ds" "TrimSuffix d ''.'' = n"
      using TrimSuffix_append [of _ "''.''"] by (auto simp: TrimSuffix_def)
    then show "x \<in> norm_set lw ds" by (auto simp: norm_set_def norm intro!: rev_image_eqI)
  qed
qed

text \<open>
  C18: \<open>AsKey\<close> is a function of the canonical bundle alone: it hashes the sorted enumeration of the
  set of non-empty normalised names, and for ASCII names these are the names in lower case without
  one root dot. So the case of letters and a trailing root dot of any name of the bundle, and
  duplicates and the order of the input, do not affect the key.
\<close>

theorem AsKey_canonical:
  "AsKey lw ds =
     fnv1a_Write fnv_offset64 (Join (sorted_list_of_set (norm_set lw ds)) [CHR 0x00]) \<and>
   ((\<forall>d \<in> set ds. is_ascii d) \<longrightarrow> norm_set lw ds =
     {map lower_ascii n | n. n \<noteq> [] \<and> (n \<in> set ds \<and> \<not> HasSuffix n ''.'' \<or> n @ ''.'' \<in> set ds)}) \<and>
   (is_ascii a \<and> is_ascii b \<and> EqualFold_ascii a b \<longrightarrow> AsKey lw (xs @ a # ys) = AsKey lw (xs @ b # ys)) \<and>
   (\<not> HasSuffix a ''.'' \<longrightarrow> AsKey lw (xs @ (a @ ''.'') # ys) = AsKey lw (xs @ a # ys)) \<and>
   (set xs = set ys \<longrightarrow> AsKey lw xs = AsKey lw ys)"
proof (intro conjI impI; (elim conjE)?)
  show "AsKey lw ds = fnv1a_Write fnv_offset64 (Join (sorted_list_of_set (norm_set lw ds)) [CHR 0x00])"
    by (simp add: AsKey_def AsKey_input_norm_set)
  show "AsKey lw xs = AsKey lw ys" if "set xs = set ys"
    by (rule AsKey_cong) (simp add: norm_set_def that)
  show "AsKey lw (xs @ a # ys) = AsKey lw (xs @ b # ys)" if "is_ascii a" "is_ascii b" "EqualFold_ascii a b"
    by (rule AsKey_cong, rule norm_set_swap, rule normalizeName_fold [OF that])
  show "AsKey lw (xs @ (a @ ''.'') # ys) = AsKey lw (xs @ a # ys)" if "\<not> HasSuffix a ''.''"
    by (rule AsKey_cong, rule norm_set_swap, rule normalizeName_dot [OF that])
qed (rule norm_set_ascii)

theorem AsKey_canonical_witness:
  "AsKey id [''x.io'', ''API.b''] = AsKey id [''x.io'', ''api.B''] \<and>
   AsKey id [''x.io'', ''api.b.''] = AsKey id [''x.io'', ''api.b''] \<and>
   AsKey id [''a'', ''b'', ''a''] = AsKey id [''b'', ''a'']"
proof -
  have "is_ascii ''API.b''" "is_ascii ''api.B''" "EqualFold_ascii ''API.b'' ''api.B''" "\<not> HasSuffix ''api.b'' ''.''"
    by code_simp+
  then show ?thesis
    using AsKey_canonical [of id "[]" "''API.b''" "''api.B''" "[''x.io'']" "[]"]
      AsKey_canonical [of id "[]" "''api.b''" "[]" "[''x.io'']" "[]"]
      AsKey_canonical [of id "[]" "[]" "[]" "[''a'', ''b'', ''a'']" "[''b'', ''a'']"]
    by auto
qed

text \<open>
  For names without a zero byte, the bytes that \<open>AsKey\<close> hashes determine the canonical
  bundle: two bundles share the hashed bytes exactly when they have the same normalised names,
  so two bundles share a cache key only by equality or by a collision of FNV-1a.
\<close>

theorem AsKey_input_determines_bundle:
  assumes "\<And>s. s \<in> norm_set lw xs \<union> norm_set lw ys \<Longrightarrow> CHR 0x00 \<notin> set s"
  shows "AsKey_input lw xs = AsKey_input lw ys \<longleftrightarrow> norm_set lw xs = norm_set lw ys"
  using AsKey_input_inj [OF assms] by (auto simp: AsKey_input_norm_set)

theorem AsKey_input_determines_bundle_witness:
  "AsKey_input id [''API.Example.COM.'', ''b.io''] = AsKey_input id [''B.io'', ''api.example.com''] \<and>
   AsKey_input id [''a.b'', ''c''] \<noteq> AsKey_input id [''a'', ''b.c'']"
proof -
  have names: "normalizeName id ''API.Example.COM.'' = ''api.example.com''"
    "normalizeName id ''api.example.com'' = ''api.example.com''"
    "normalizeName id ''b.io'' = ''b.io''" "normalizeName id ''B.io'' = ''b.io''"
    "normalizeName id ''a.b'' = ''a.b''" "normalizeName id ''c'' = ''c''"
    "normalizeName id ''a'' = ''a''" "normalizeName id ''b.c'' = ''b.c''"
    by code_simp+
  have n: "norm_set id [''API.Example.COM.'', ''b.io''] = {''api.example.com'', ''b.io''}"
    "norm_set id [''B.io'', ''api.example.com''] = {''b.io'', ''api.example.com''}"
    "norm_set id [''a.b'', ''c''] = {''a.b'', ''c''}"
    "norm_set id [''a'', ''b.c''] = {''a'', ''b.c''}"
    by (simp_all add: norm_set_Cons names)
  have "AsKey_input id [''API.Example.COM.'', ''b.io''] = AsKey_input id [''B.io'', ''api.example.com'']
     \<longleftrightarrow> norm_set id [''API.Example.COM.'', ''b.io''] = norm_set id [''B.io'', ''api.example.com'']"
    by (rule AsKey_input_determines_bundle) (simp add: n; elim disjE; simp)
  moreover have "AsKey_input id [''a.b'', ''c''] = AsKey_input id [''a'', ''b.c'']
     \<longleftrightarrow> norm_set id [''a.b'', ''c''] = norm_set id [''a'', ''b.c'']"
    by (rule AsKey_input_determines_bundle) (simp add: n; elim disjE; simp)
  moreover have "''c'' \<in> {''a.b'', ''c''}" "''c'' \<notin> {''a'', ''b.c''}"
    by simp_all
  then have "{''a.b'', ''c''} \<noteq> {''a'', ''b.c''}" by metis
  ultimately show ?thesis
    using n insert_commute [of "''b.io''" "''api.example.com''" "{}"] by simp
qed

text \<open>
  The 64-bit hash never confuses two single-name bundles whose normalised names differ in
  exactly one byte: the FNV-1a step is injective in the state and in the byte.
\<close>

theorem AsKey_one_byte:
  assumes "normalizeName lw a = u @ c # v" and "normalizeName lw b = u @ d # v" and "c \<noteq> d"
  shows "AsKey lw [a] \<noteq> AsKey lw [b]"
  using assms by (simp add: AsKey_def AsKey_input_def fnv1a_Write_one_byte)

theorem AsKey_one_byte_witness: "AsKey id [''a1.example.com''] \<noteq> AsKey id [''A2.example.com'']"
proof (rule AsKey_one_byte)
  show "normalizeName id ''a1.example.com'' = ''a'' @ CHR ''1'' # ''.example.com''" by code_simp
  show "normalizeName id ''A2.example.com'' = ''a'' @ CHR ''2'' # ''.example.com''" by code_simp
qed simp

text \<open>
  C17: The string test of the allow-list is the label-wise subdomain relation of DNS: a name is
  allowed exactly when the labels of some allowed domain are the last labels of the name (both
  normalised), so an allowed domain never matches in the middle of a label.
\<close>

theorem IsSubdomain_labels:
  "IsSubdomain lw d ps \<longleftrightarrow>
     (\<exists>p \<in> set ps. suffix (labels (normalizeName lw p)) (labels (normalizeName lw d)))"
  by (simp add: IsSubdomain_iff label_subdomain_def)

text \<open>
  Allow-lists compose: a bundle allowed by a list whose own entries are allowed by a second
  list is allowed by the second list.
\<close>

theorem AllAllowed_trans:
  assumes "AllAllowed lw qs ps" and "AllAllowed lw ps ds"
  shows "AllAllowed lw qs ds"
proof -
  have "IsSubdomain lw d qs" if "d \<in> set ds" for d
  proof -
    obtain p where p: "p \<in> set ps" "label_subdomain (normalizeName lw d) (normalizeName lw p)"
      using assms(2) \<open>d \<in> set ds\<close> by (auto simp: AllAllowed_iff IsSubdomain_iff)
    moreover obtain q where "q \<in> set qs" "label_subdomain (normalizeName lw p) (normalizeName lw q)"
      using assms(1) p(1) by (auto simp: AllAllowed_iff IsSubdomain_iff)
    ultimately show ?thesis
      unfolding IsSubdomain_iff by (blast intro: label_subdomain_trans)
  qed
  then show ?thesis by (simp add: AllAllowed_iff)
qed

theorem AllAllowed_trans_witness:
  "AllAllowed id [''Example.com''] [''*.dev.example.com.'', ''a.dev.example.com'']"
proof (rule AllAllowed_trans)
  show "AllAllowed id [''Example.com''] [''dev.example.com'']" by code_simp
  show "AllAllowed id [''dev.example.com''] [''*.dev.example.com.'', ''a.dev.example.com'']"
    by code_simp
qed

end
