(* ===== verification/Cert_Entry.thy ===== *)
theory Cert_Entry
  imports Domain
begin

text \<open>
  The cached certificates of the server: \<open>pkg/server/cert_entry.go\<close> and the operations of
  \<open>pkg/server/server.go\<close> on one entry (\<open>IsValid\<close>, the broadcast of \<open>renew\<close>, \<open>subscribe\<close>,
  \<open>release\<close>, \<open>isSubscribing\<close>). Each critical section of \<open>stateMu\<close> is one function on the
  record of the entry; the interleavings of the critical sections are the subject of
  \<open>Entry_Concurrency\<close>.

  A channel is identified by the order of its creation, and so is the context of a renewal
  goroutine; \<open>e_cancelRenew\<close> holds the context that calling the stored function cancels. An entry
  is shared by pointer: the cache never drops one, so an entry is identified by its key. The
  consumer count is an \<open>int64\<close> that grows by one for each live consumer and is an \<^typ>\<open>int\<close> here.
\<close>

section \<open>Data\<close>

record CertT =
  c_FullChain :: bytes
  c_Key :: bytes
  c_ValidBefore :: time
  c_RenewAt :: time

definition zero_CertT :: CertT where
  "zero_CertT = \<lparr>c_FullChain = [], c_Key = [], c_ValidBefore = 0, c_RenewAt = 0\<rparr>"

record certEntry =
  e_domains :: "string list"
  e_cert :: CertT
  e_version :: "64 word"
  e_updated :: nat
  e_cancelRenew :: "nat option"
  e_subscribing :: int

type_synonym certCache = "Key \<rightharpoonup> certEntry"

section \<open>Operations of an entry\<close>

definition makeCertCache :: certCache where
  "makeCertCache = Map.empty"

definition newCertEntry :: "nat \<Rightarrow> string list \<Rightarrow> certEntry" where
  "newCertEntry ch domains =
     \<lparr>e_domains = domains, e_cert = zero_CertT, e_version = 0, e_updated = ch,
      e_cancelRenew = None, e_subscribing = 0\<rparr>"

text \<open>\<open>getNoLock\<close> returns the pointer of the entry, here its key. \<open>ch\<close> is the channel a new entry
  makes.\<close>

definition getNoLock ::
    "(string \<Rightarrow> string) \<Rightarrow> nat \<Rightarrow> string list \<Rightarrow> certCache \<Rightarrow> Key \<times> certCache" where
  "getNoLock lw ch domains m =
     (let entryKey = AsKey lw domains in
      case m entryKey of
        Some _ \<Rightarrow> (entryKey, m)
      | None \<Rightarrow> (entryKey, m(entryKey \<mapsto> newCertEntry ch domains)))"

definition get :: "(string \<Rightarrow> string) \<Rightarrow> nat \<Rightarrow> string list \<Rightarrow> certCache \<Rightarrow> Key \<times> certCache" where
  "get lw ch domains m = getNoLock lw ch domains m"

definition Snapshot :: "certEntry \<Rightarrow> CertT \<times> 64 word" where
  "Snapshot e = (e_cert e, e_version e)"

definition Cert :: "certEntry \<Rightarrow> CertT" where
  "Cert e = fst (Snapshot e)"

definition IsValid :: "time \<Rightarrow> CertT \<Rightarrow> bool" where
  "IsValid now c \<longleftrightarrow> now < c_ValidBefore c"

text \<open>The first critical section of \<open>WaitForUpdate\<close>: the version to return at once, or the channel
  to wait on. The second one reads the version.\<close>

definition WaitForUpdate_enter :: "64 word \<Rightarrow> certEntry \<Rightarrow> 64 word + nat" where
  "WaitForUpdate_enter seen e =
     (if e_version e \<noteq> seen then Inl (e_version e) else Inr (e_updated e))"

definition WaitForUpdate_leave :: "certEntry \<Rightarrow> 64 word" where
  "WaitForUpdate_leave e = e_version e"

text \<open>The broadcast of \<open>renew\<close>: it closes the channel in the first component and installs the
  fresh channel \<open>ch\<close>.\<close>

definition publish :: "CertT \<Rightarrow> nat \<Rightarrow> certEntry \<Rightarrow> nat \<times> certEntry" where
  "publish newCert ch e =
     (e_updated e, e\<lparr>e_cert := newCert, e_version := e_version e + 1, e_updated := ch\<rparr>)"

definition newValidBefore :: "duration \<Rightarrow> time \<Rightarrow> time" where
  "newValidBefore lifetime now = Truncate now (1 * Hour) + lifetime"

text \<open>\<open>subscribe\<close> starts a renewal goroutine with the fresh context \<open>ctx\<close> when the first component
  is \<^term>\<open>Some ctx\<close>; \<open>release\<close> cancels the context in its first component, if any.\<close>

definition subscribe :: "nat \<Rightarrow> certEntry \<Rightarrow> nat option \<times> certEntry" where
  "subscribe ctx e =
     (if e_subscribing e = 0
      then (Some ctx, e\<lparr>e_cancelRenew := Some ctx, e_subscribing := e_subscribing e + 1\<rparr>)
      else (None, e\<lparr>e_subscribing := e_subscribing e + 1\<rparr>))"

definition release :: "certEntry \<Rightarrow> nat option \<times> certEntry" where
  "release e =
     (let e1 = (if e_subscribing e > 0 then e\<lparr>e_subscribing := e_subscribing e - 1\<rparr> else e) in
      if e_subscribing e1 = 0 then (e_cancelRenew e1, e1\<lparr>e_cancelRenew := None\<rparr>)
      else (None, e1))"

definition isSubscribing :: "certEntry \<Rightarrow> bool" where
  "isSubscribing e \<longleftrightarrow> e_subscribing e \<noteq> 0"

section \<open>The consumer count and the renewal context\<close>

text \<open>The refcount protocol: a renewal context is held exactly while there are consumers.\<close>

definition entry_wf :: "certEntry \<Rightarrow> bool" where
  "entry_wf e \<longleftrightarrow> 0 \<le> e_subscribing e \<and> (e_cancelRenew e = None \<longleftrightarrow> e_subscribing e = 0)"

datatype consumer_op = Subscribe | Release

text \<open>A sequence of calls, each with the fresh context it may use; the result lists the contexts
  that were started and those that were cancelled.\<close>

fun run_consumers ::
    "nat \<Rightarrow> consumer_op list \<Rightarrow> certEntry \<Rightarrow> nat list \<times> nat list \<times> certEntry" where
  "run_consumers ctx [] e = ([], [], e)"
| "run_consumers ctx (Subscribe # ops) e =
     (let (st, e') = subscribe ctx e; (ss, cs, e'') = run_consumers (ctx + 1) ops e' in
      ((case st of None \<Rightarrow> ss | Some c \<Rightarrow> c # ss), cs, e''))"
| "run_consumers ctx (Release # ops) e =
     (let (cn, e') = release e; (ss, cs, e'') = run_consumers (ctx + 1) ops e' in
      (ss, (case cn of None \<Rightarrow> cs | Some c \<Rightarrow> c # cs), e''))"

lemma newCertEntry_wf [simp, intro]: "entry_wf (newCertEntry ch ds)"
  by (simp add: entry_wf_def newCertEntry_def)

lemma subscribe_wf: "entry_wf e \<Longrightarrow> subscribe ctx e = (st, e') \<Longrightarrow> entry_wf e'"
  by (auto simp: entry_wf_def subscribe_def split: if_splits)

lemma release_wf: "entry_wf e \<Longrightarrow> release e = (cn, e') \<Longrightarrow> entry_wf e'"
  by (auto simp: entry_wf_def release_def Let_def split: if_splits)

lemma publish_wf: "entry_wf e \<Longrightarrow> publish c ch e = (old, e') \<Longrightarrow> entry_wf e'"
  by (auto simp: entry_wf_def publish_def)

lemma run_consumers_contexts:
  assumes "entry_wf e" "run_consumers ctx ops e = (ss, cs, e')"
  shows "entry_wf e' \<and>
    (case e_cancelRenew e of None \<Rightarrow> ss | Some c \<Rightarrow> c # ss)
      = (case e_cancelRenew e' of None \<Rightarrow> cs | Some c \<Rightarrow> cs @ [c])"
  using assms
proof (induction ctx ops e arbitrary: ss cs e' rule: run_consumers.induct)
  case (1 ctx e)
  then show ?case by (auto split: option.splits)
next
  case (2 ctx ops e)
  obtain st e1 where sub: "subscribe ctx e = (st, e1)" by fastforce
  obtain ss1 cs1 where rest: "run_consumers (ctx + 1) ops e1 = (ss1, cs1, e')"
    and out: "ss = (case st of None \<Rightarrow> ss1 | Some c \<Rightarrow> c # ss1)" "cs = cs1"
    using "2.prems"(2) sub by (auto split: prod.splits)
  have wf: "entry_wf e1"
    using subscribe_wf [OF "2.prems"(1) sub] .
  have "(case e_cancelRenew e of None \<Rightarrow> ss | Some c \<Rightarrow> c # ss)
      = (case e_cancelRenew e1 of None \<Rightarrow> ss1 | Some c \<Rightarrow> c # ss1)"
    using sub "2.prems"(1) out by (auto simp: subscribe_def entry_wf_def split: if_splits option.splits)
  then show ?case
    using "2.IH" [OF sub [symmetric] refl wf rest] unfolding out(2) by (elim conjE) (intro conjI, simp_all)
next
  case (3 ctx ops e)
  obtain cn e1 where rel: "release e = (cn, e1)" by fastforce
  obtain ss1 cs1 where rest: "run_consumers (ctx + 1) ops e1 = (ss1, cs1, e')"
    and out: "cs = (case cn of None \<Rightarrow> cs1 | Some c \<Rightarrow> c # cs1)" "ss = ss1"
    using "3.prems"(2) rel by (auto split: prod.splits)
  have wf: "entry_wf e1"
    using release_wf [OF "3.prems"(1) rel] .
  note IH = "3.IH" [OF rel [symmetric] refl wf rest]
  show ?case
  proof (cases cn)
    case None
    then have "e_cancelRenew e1 = e_cancelRenew e"
      using rel "3.prems"(1) by (auto simp: release_def Let_def entry_wf_def split: if_splits)
    then show ?thesis using IH out None by (auto split: option.splits)
  next
    case (Some c)
    then have "e_cancelRenew e = Some c" "e_cancelRenew e1 = None"
      using rel by (auto simp: release_def Let_def split: if_splits)
    then show ?thesis
      using IH out Some by (auto split: option.splits)
  qed
qed

section \<open>Properties\<close>

text \<open>
  For every sequence of \<open>subscribe\<close> and \<open>release\<close> calls on a fresh entry, the renewal
  contexts that were started are, in order, those that were cancelled followed by the one the
  entry still holds; it holds one exactly while there are consumers. So no renewal goroutine is
  leaked, none is cancelled twice or while a consumer is left, and never two are wanted at once.
\<close>

theorem subscribe_release_contexts:
  assumes "run_consumers 0 ops (newCertEntry ch ds) = (started, cancelled, e)"
  shows "started = cancelled @ (case e_cancelRenew e of None \<Rightarrow> [] | Some c \<Rightarrow> [c]) \<and>
    (e_cancelRenew e = None \<longleftrightarrow> \<not> isSubscribing e) \<and> 0 \<le> e_subscribing e"
  using run_consumers_contexts [OF newCertEntry_wf assms]
  by (auto simp: entry_wf_def isSubscribing_def newCertEntry_def split: option.splits)

theorem subscribe_release_contexts_witness:
  "run_consumers 0 [Subscribe, Subscribe, Release, Release, Release, Subscribe] (newCertEntry 0 [''a.b''])
     = ([0, 5], [0], snd (snd (run_consumers 0 [Subscribe, Subscribe, Release, Release, Release, Subscribe]
         (newCertEntry 0 [''a.b'']))))"
proof -
  obtain ss cs e where run: "run_consumers 0 [Subscribe, Subscribe, Release, Release, Release, Subscribe]
      (newCertEntry 0 [''a.b'']) = (ss, cs, e)"
    by (metis prod.exhaust)
  have "cs = [0]" "e_cancelRenew e = Some 5"
    using run by (auto simp: subscribe_def release_def Let_def newCertEntry_def)
  then show ?thesis
    using subscribe_release_contexts [OF run] run by simp
qed

text \<open>
  The cache gives one entry per canonical bundle: after any \<open>get\<close>, every list of names with
  the same key is answered with the same entry, without changing the cache, and a \<open>get\<close> never
  changes or drops an existing entry.
\<close>

theorem cache_get_spec:
  "get lw ch ds m = (k, m') \<Longrightarrow>
     k = AsKey lw ds \<and> m' k \<noteq> None \<and> m \<subseteq>\<^sub>m m' \<and> dom m' = insert k (dom m) \<and>
     (m k = None \<longrightarrow> m' k = Some (newCertEntry ch ds)) \<and>
     (\<forall>ds'. AsKey lw ds' = k \<longrightarrow> get lw ch' ds' m' = (k, m'))"
  by (auto simp: get_def getNoLock_def Let_def map_le_def split: option.splits if_splits)

theorem cache_get_spec_witness:
  "get id 9 [''B.A.'', ''x.y''] (snd (get id 4 [''x.y'', ''b.a''] makeCertCache))
     = (AsKey id [''x.y'', ''b.a''], snd (get id 4 [''x.y'', ''b.a''] makeCertCache))"
proof -
  have "AsKey id [''B.A.'', ''x.y''] = AsKey id [''x.y'', ''b.a'']"
    by (simp add: AsKey_def, code_simp)
  moreover obtain k m where "get id 4 [''x.y'', ''b.a''] makeCertCache = (k, m)"
    by fastforce
  ultimately show ?thesis
    using cache_get_spec [of id 4 "[''x.y'', ''b.a'']" makeCertCache k m 9] by simp
qed

end
