(* ===== verification/Entry_Concurrency.thy ===== *)
theory Entry_Concurrency
  imports Cert_Entry
begin

text \<open>
  One cache entry shared by any number of goroutines: callers of \<open>WaitForUpdate\<close>, callers of
  \<open>renew\<close>, the renewal goroutine \<open>subscribeCertCacheEntry\<close> that \<open>subscribe\<close> starts and \<open>release\<close>
  cancels, \<open>Stop\<close>, and the cache-file writer at the other end of \<open>certStore.update\<close>. Every step
  is one critical section of \<open>stateMu\<close> or one other atomic action of one goroutine; \<open>renewMu\<close> is
  held over several steps. The clock may advance between any two steps, and the answer of the ACME
  call is arbitrary.
\<close>

section \<open>State\<close>

text \<open>A context: that of a renewal goroutine (a child of the server's root context) or of a
  caller.\<close>

datatype ctx = RenewCtx nat | CallerCtx nat

text \<open>
  The position of a goroutine in \<open>WaitForUpdate\<close>. The last argument of the later positions is
  history only: the number of renewals published when the goroutine read its channel.
\<close>

datatype waiter =
    WEnter ctx "64 word"
  | WBlocked ctx "64 word" nat nat       \<comment> \<open>context, version seen, channel, renewals at entry\<close>
  | WWoken "64 word" nat                 \<comment> \<open>the channel was closed\<close>
  | WCtxDone "64 word" nat               \<comment> \<open>the context was done\<close>
  | WReturned "64 word" "64 word" "nat option"
      \<comment> \<open>version seen, version returned; the renewals at entry when it was woken by the channel\<close>

text \<open>The position of a goroutine in \<open>renew\<close> and in the loop of \<open>subscribeCertCacheEntry\<close>.\<close>

datatype rpc =
    RCheck                            \<comment> \<open>before \<open>ctx.Err()\<close>\<close>
  | RLock                             \<comment> \<open>before \<open>renewMu.Lock()\<close>\<close>
  | RSnapshot
  | RValid CertT                      \<comment> \<open>before \<open>current.IsValid()\<close>\<close>
  | RPrepare                          \<comment> \<open>before \<open>newValidBefore\<close> is computed\<close>
  | RObtain time                      \<comment> \<open>inside the ACME call\<close>
  | RPublish time bytes bytes
  | RSend CertT                       \<comment> \<open>at the select that hands off to the writer\<close>
  | RUnlock "bool \<times> bool"             \<comment> \<open>before the deferred \<open>Unlock\<close>; (renewed, err \<noteq> nil)\<close>
  | RAfter "bool \<times> bool"              \<comment> \<open>returned\<close>
  | RTimer                            \<comment> \<open>loop only: waiting for the timer\<close>
  | RExit                             \<comment> \<open>loop only: the goroutine has ended\<close>

record renewer =
  r_ctx :: ctx
  r_loop :: bool
  r_pc :: rpc

record entry_conc =
  k_entry :: certEntry
  k_closed :: "nat set"          \<comment> \<open>closed channels\<close>
  k_chans :: nat                 \<comment> \<open>channels made so far\<close>
  k_cancelled :: "ctx set"
  k_pending :: "nat set"         \<comment> \<open>contexts that a \<open>release\<close> is about to cancel\<close>
  k_ctxs :: nat                  \<comment> \<open>renewal contexts made so far\<close>
  k_stopped :: bool              \<comment> \<open>the root context is done\<close>
  k_renewMu :: "nat option"      \<comment> \<open>the holder\<close>
  k_waiters :: "nat \<rightharpoonup> waiter"
  k_renewers :: "nat \<rightharpoonup> renewer"
  k_now :: time
  k_update :: "CertT list"       \<comment> \<open>the buffered channel \<open>certStore.update\<close>\<close>
  k_pubs :: nat                  \<comment> \<open>history: renewals published\<close>

definition ctx_done :: "entry_conc \<Rightarrow> ctx \<Rightarrow> bool" where
  "ctx_done s c \<longleftrightarrow> c \<in> k_cancelled s \<or> (k_stopped s \<and> (\<exists>n. c = RenewCtx n))"

abbreviation set_waiter :: "nat \<Rightarrow> waiter \<Rightarrow> entry_conc \<Rightarrow> entry_conc" where
  "set_waiter t w s \<equiv> s\<lparr>k_waiters := (k_waiters s)(t \<mapsto> w)\<rparr>"

abbreviation goto :: "nat \<Rightarrow> renewer \<Rightarrow> rpc \<Rightarrow> entry_conc \<Rightarrow> entry_conc" where
  "goto t r pc s \<equiv> s\<lparr>k_renewers := (k_renewers s)(t \<mapsto> r\<lparr>r_pc := pc\<rparr>)\<rparr>"

definition at :: "entry_conc \<Rightarrow> nat \<Rightarrow> renewer \<Rightarrow> rpc \<Rightarrow> bool" where
  "at s t r pc \<longleftrightarrow> k_renewers s t = Some r \<and> r_pc r = pc"

lemma atI: "k_renewers s t = Some r \<Longrightarrow> r_pc r = pc \<Longrightarrow> at s t r pc"
  by (simp add: at_def)

definition fresh_thread :: "entry_conc \<Rightarrow> nat \<Rightarrow> bool" where
  "fresh_thread s t \<longleftrightarrow> k_waiters s t = None \<and> k_renewers s t = None"

section \<open>Steps\<close>

inductive estep :: "duration \<Rightarrow> entry_conc \<Rightarrow> entry_conc \<Rightarrow> bool" for lifetime where
  tick: "0 \<le> d \<Longrightarrow> estep lifetime s (s\<lparr>k_now := k_now s + d\<rparr>)"
| stop: "estep lifetime s (s\<lparr>k_stopped := True\<rparr>)"
| fire: "estep lifetime s (s\<lparr>k_cancelled := insert (CallerCtx c) (k_cancelled s)\<rparr>)"
| call_wait: "fresh_thread s t \<Longrightarrow> estep lifetime s (set_waiter t (WEnter (CallerCtx c) seen) s)"
| wait_newer: "k_waiters s t = Some (WEnter c seen) \<Longrightarrow> WaitForUpdate_enter seen (k_entry s) = Inl v \<Longrightarrow>
    estep lifetime s (set_waiter t (WReturned seen v None) s)"
| wait_block: "k_waiters s t = Some (WEnter c seen) \<Longrightarrow> WaitForUpdate_enter seen (k_entry s) = Inr ch \<Longrightarrow>
    estep lifetime s (set_waiter t (WBlocked c seen ch (k_pubs s)) s)"
| wait_wake: "k_waiters s t = Some (WBlocked c seen ch n) \<Longrightarrow> ch \<in> k_closed s \<Longrightarrow>
    estep lifetime s (set_waiter t (WWoken seen n) s)"
| wait_ctx: "k_waiters s t = Some (WBlocked c seen ch n) \<Longrightarrow> ctx_done s c \<Longrightarrow>
    estep lifetime s (set_waiter t (WCtxDone seen n) s)"
| wait_return: "k_waiters s t = Some (WWoken seen n) \<Longrightarrow>
    estep lifetime s (set_waiter t (WReturned seen (WaitForUpdate_leave (k_entry s)) (Some n)) s)"
| wait_return_ctx: "k_waiters s t = Some (WCtxDone seen n) \<Longrightarrow>
    estep lifetime s (set_waiter t (WReturned seen (WaitForUpdate_leave (k_entry s)) None) s)"
| do_subscribe: "subscribe (k_ctxs s) (k_entry s) = (st, e) \<Longrightarrow> fresh_thread s t \<Longrightarrow>
    estep lifetime s (s\<lparr>k_entry := e, k_ctxs := k_ctxs s + 1,
      k_renewers := (case st of None \<Rightarrow> k_renewers s
        | Some c \<Rightarrow> (k_renewers s)(t \<mapsto> \<lparr>r_ctx = RenewCtx c, r_loop = True, r_pc = RCheck\<rparr>))\<rparr>)"
| do_release: "release (k_entry s) = (cn, e) \<Longrightarrow>
    estep lifetime s (s\<lparr>k_entry := e, k_pending := k_pending s \<union> set_option cn\<rparr>)"
| do_cancel: "c \<in> k_pending s \<Longrightarrow>
    estep lifetime s (s\<lparr>k_pending := k_pending s - {c}, k_cancelled := insert (RenewCtx c) (k_cancelled s)\<rparr>)"
| call_renew: "fresh_thread s t \<Longrightarrow>
    estep lifetime s (s\<lparr>k_renewers := (k_renewers s)(t \<mapsto> \<lparr>r_ctx = CallerCtx c, r_loop = False, r_pc = RCheck\<rparr>)\<rparr>)"
| renew_err: "at s t r RCheck \<Longrightarrow> ctx_done s (r_ctx r) \<Longrightarrow> estep lifetime s (goto t r (RAfter (False, True)) s)"
| renew_go: "at s t r RCheck \<Longrightarrow> \<not> ctx_done s (r_ctx r) \<Longrightarrow> estep lifetime s (goto t r RLock s)"
| renew_lock: "at s t r RLock \<Longrightarrow> k_renewMu s = None \<Longrightarrow>
    estep lifetime s (goto t r RSnapshot (s\<lparr>k_renewMu := Some t\<rparr>))"
| renew_snapshot: "at s t r RSnapshot \<Longrightarrow>
    estep lifetime s (goto t r (RValid (fst (Snapshot (k_entry s)))) s)"
| renew_valid: "at s t r (RValid cur) \<Longrightarrow> IsValid (k_now s) cur \<Longrightarrow>
    estep lifetime s (goto t r (RUnlock (False, False)) s)"
| renew_invalid: "at s t r (RValid cur) \<Longrightarrow> \<not> IsValid (k_now s) cur \<Longrightarrow> estep lifetime s (goto t r RPrepare s)"
| renew_prepare: "at s t r RPrepare \<Longrightarrow>
    estep lifetime s (goto t r (RObtain (newValidBefore lifetime (k_now s))) s)"
| renew_obtain_err: "at s t r (RObtain vb) \<Longrightarrow> estep lifetime s (goto t r (RUnlock (False, True)) s)"
| renew_obtain_ok: "at s t r (RObtain vb) \<Longrightarrow> estep lifetime s (goto t r (RPublish vb fullchain key) s)"
| renew_publish: "at s t r (RPublish vb fullchain key) \<Longrightarrow>
    newCert = \<lparr>c_FullChain = fullchain, c_Key = key, c_ValidBefore = vb, c_RenewAt = k_now s\<rparr> \<Longrightarrow>
    publish newCert (k_chans s) (k_entry s) = (old, e) \<Longrightarrow>
    estep lifetime s (goto t r (RSend newCert)
      (s\<lparr>k_entry := e, k_closed := insert old (k_closed s), k_chans := k_chans s + 1,
         k_pubs := k_pubs s + 1\<rparr>))"
| renew_send: "at s t r (RSend cert) \<Longrightarrow> length (k_update s) < 10 \<Longrightarrow>
    estep lifetime s (goto t r (RUnlock (True, False)) (s\<lparr>k_update := k_update s @ [cert]\<rparr>))"
| renew_send_ctx: "at s t r (RSend cert) \<Longrightarrow> ctx_done s (r_ctx r) \<Longrightarrow>
    estep lifetime s (goto t r (RUnlock (True, False)) s)"
| renew_unlock: "at s t r (RUnlock res) \<Longrightarrow> estep lifetime s (goto t r (RAfter res) (s\<lparr>k_renewMu := None\<rparr>))"
| loop_exit: "at s t r (RAfter (b, True)) \<Longrightarrow> r_loop r \<Longrightarrow> ctx_done s (r_ctx r) \<Longrightarrow>
    estep lifetime s (goto t r RExit s)"
| loop_wait: "at s t r (RAfter (b, err)) \<Longrightarrow> r_loop r \<Longrightarrow> \<not> err \<or> \<not> ctx_done s (r_ctx r) \<Longrightarrow>
    estep lifetime s (goto t r RTimer s)"
| loop_timer: "at s t r RTimer \<Longrightarrow> estep lifetime s (goto t r RCheck s)"
| loop_timer_ctx: "at s t r RTimer \<Longrightarrow> ctx_done s (r_ctx r) \<Longrightarrow> estep lifetime s (goto t r RExit s)"
| dequeue: "k_update s = c # q \<Longrightarrow> estep lifetime s (s\<lparr>k_update := q\<rparr>)"

inductive_cases estepE: "estep lifetime s t"

definition entry_init :: "entry_conc \<Rightarrow> bool" where
  "entry_init s \<longleftrightarrow> (\<exists>ds c now. s =
     \<lparr>k_entry = (newCertEntry 0 ds)\<lparr>e_cert := c\<rparr>, k_closed = {}, k_chans = 1, k_cancelled = {}, k_pending = {},
      k_ctxs = 0, k_stopped = False, k_renewMu = None, k_waiters = Map.empty, k_renewers = Map.empty,
      k_now = now, k_update = [], k_pubs = 0\<rparr>)"

section \<open>The broadcast\<close>

text \<open>Channels are numbered by the renewal that closes them, so the closed ones are those below
  the number of renewals.\<close>

definition waiter_inv :: "nat \<Rightarrow> waiter \<Rightarrow> bool" where
  "waiter_inv pubs w \<longleftrightarrow>
     (case w of
        WEnter c seen \<Rightarrow> True
      | WBlocked c seen ch n \<Rightarrow> ch = n \<and> seen = of_nat n \<and> n \<le> pubs
      | WWoken seen n \<Rightarrow> seen = of_nat n \<and> n < pubs
      | WCtxDone seen n \<Rightarrow> seen = of_nat n \<and> n \<le> pubs
      | WReturned seen v None \<Rightarrow> True
      | WReturned seen v (Some n) \<Rightarrow> seen = of_nat n \<and> (\<exists>m. n < m \<and> m \<le> pubs \<and> v = of_nat m))"

definition broadcast_inv :: "entry_conc \<Rightarrow> bool" where
  "broadcast_inv s \<longleftrightarrow>
     e_version (k_entry s) = of_nat (k_pubs s) \<and> e_updated (k_entry s) = k_pubs s \<and>
     k_chans s = k_pubs s + 1 \<and> k_closed s = {..<k_pubs s} \<and>
     (\<forall>w \<in> ran (k_waiters s). waiter_inv (k_pubs s) w)"

lemma waiter_inv_mono: "waiter_inv n w \<Longrightarrow> waiter_inv (Suc n) w"
  by (auto simp: waiter_inv_def split: waiter.splits option.splits intro: le_SucI less_SucI)

lemma ran_upd_ball: "(\<forall>w \<in> ran m. P w) \<Longrightarrow> P v \<Longrightarrow> \<forall>w \<in> ran (m(t \<mapsto> v)). P w"
  by (auto simp: ran_def)

lemma ran_waiterD: "k_waiters s t = Some w \<Longrightarrow> \<forall>w \<in> ran (k_waiters s). P w \<Longrightarrow> P w"
  by (auto simp: ran_def)

lemma subscribe_frame:
  assumes "subscribe c e = (st, e')"
  shows "e_version e' = e_version e" "e_updated e' = e_updated e" "e_cert e' = e_cert e"
  using assms by (auto simp: subscribe_def split: if_splits)

lemma release_frame:
  assumes "release e = (cn, e')"
  shows "e_version e' = e_version e" "e_updated e' = e_updated e" "e_cert e' = e_cert e"
  using assms by (auto simp: release_def Let_def split: if_splits)

lemmas entry_frames = subscribe_frame release_frame

lemma broadcast_frame [simp]:
  "broadcast_inv (s\<lparr>k_now := n\<rparr>) = broadcast_inv s"
  "broadcast_inv (s\<lparr>k_stopped := b\<rparr>) = broadcast_inv s"
  "broadcast_inv (s\<lparr>k_cancelled := cs\<rparr>) = broadcast_inv s"
  "broadcast_inv (s\<lparr>k_pending := ps\<rparr>) = broadcast_inv s"
  "broadcast_inv (s\<lparr>k_ctxs := n'\<rparr>) = broadcast_inv s"
  "broadcast_inv (s\<lparr>k_renewMu := mu\<rparr>) = broadcast_inv s"
  "broadcast_inv (s\<lparr>k_renewers := rs\<rparr>) = broadcast_inv s"
  "broadcast_inv (s\<lparr>k_update := q\<rparr>) = broadcast_inv s"
  by (simp_all add: broadcast_inv_def)

lemma broadcast_inv_entry:
  "broadcast_inv s \<Longrightarrow> e_version e = e_version (k_entry s) \<Longrightarrow> e_updated e = e_updated (k_entry s) \<Longrightarrow>
     broadcast_inv (s\<lparr>k_entry := e\<rparr>)"
  by (simp add: broadcast_inv_def)

lemma broadcast_inv_waiter:
  "broadcast_inv s \<Longrightarrow> waiter_inv (k_pubs s) w \<Longrightarrow> broadcast_inv (set_waiter t w s)"
  using ran_upd_ball [of "k_waiters s" "waiter_inv (k_pubs s)" w t] by (simp add: broadcast_inv_def)

lemma broadcast_waiterD: "broadcast_inv s \<Longrightarrow> k_waiters s t = Some w \<Longrightarrow> waiter_inv (k_pubs s) w"
  by (auto simp: broadcast_inv_def ran_def)

lemma broadcast_inv_step:
  assumes inv: "broadcast_inv s" and "estep lifetime s s'"
  shows "broadcast_inv s'"
  using assms(2)
proof (cases rule: estep.cases)
  case (call_wait t c seen)
  then show ?thesis using inv by (simp add: broadcast_inv_waiter waiter_inv_def)
next
  case (wait_newer t c seen v)
  then show ?thesis using inv by (simp add: broadcast_inv_waiter waiter_inv_def)
next
  case (wait_block t c seen ch)
  then have "seen = of_nat (k_pubs s) \<and> ch = k_pubs s"
    using inv by (auto simp: broadcast_inv_def WaitForUpdate_enter_def split: if_splits)
  then show ?thesis using inv wait_block by (simp add: broadcast_inv_waiter waiter_inv_def)
next
  case (wait_wake t c seen ch n)
  then have "seen = of_nat n \<and> n < k_pubs s"
    using broadcast_waiterD [OF inv, of t] inv by (simp add: waiter_inv_def broadcast_inv_def)
  then show ?thesis using inv wait_wake by (simp add: broadcast_inv_waiter waiter_inv_def)
next
  case (wait_ctx t c seen ch n)
  then show ?thesis
    using inv broadcast_waiterD [OF inv, of t] by (simp add: broadcast_inv_waiter waiter_inv_def)
next
  case (wait_return t seen n)
  then have "seen = of_nat n \<and> n < k_pubs s \<and> WaitForUpdate_leave (k_entry s) = of_nat (k_pubs s)"
    using broadcast_waiterD [OF inv, of t] inv
    by (simp add: waiter_inv_def broadcast_inv_def WaitForUpdate_leave_def)
  then show ?thesis using inv wait_return by (auto simp: waiter_inv_def intro!: broadcast_inv_waiter)
next
  case (wait_return_ctx t seen n)
  then show ?thesis using inv by (simp add: broadcast_inv_waiter waiter_inv_def)
next
  case (do_subscribe st e t)
  then show ?thesis using inv by (simp add: broadcast_inv_entry subscribe_frame [OF do_subscribe(2)])
next
  case (do_release cn e)
  then show ?thesis using inv by (simp add: broadcast_inv_entry release_frame [OF do_release(2)])
next
  case (renew_publish t r vb fullchain key newCert old e)
  then show ?thesis
    using inv by (auto simp: broadcast_inv_def publish_def lessThan_Suc intro: waiter_inv_mono)
qed (use inv in simp_all)

interpretation broadcast: step_invariant entry_init "estep lifetime" broadcast_inv
  for lifetime
proof
  show "broadcast_inv s" if "entry_init s" for s
    using that by (auto simp: entry_init_def broadcast_inv_def newCertEntry_def)
qed (rule broadcast_inv_step)

section \<open>One ACME call at a time\<close>

definition crit :: "rpc \<Rightarrow> bool" where
  "crit pc \<longleftrightarrow> (case pc of RSnapshot \<Rightarrow> True | RValid _ \<Rightarrow> True | RPrepare \<Rightarrow> True | RObtain _ \<Rightarrow> True
     | RPublish _ _ _ \<Rightarrow> True | RSend _ \<Rightarrow> True | RUnlock _ \<Rightarrow> True | _ \<Rightarrow> False)"

text \<open>An expiry time that was computed at some time up to now.\<close>

definition issued :: "duration \<Rightarrow> time \<Rightarrow> time \<Rightarrow> bool" where
  "issued lifetime now vb \<longleftrightarrow> (\<exists>u \<le> now. vb = newValidBefore lifetime u)"

lemma issued_now [simp]: "issued lifetime now (newValidBefore lifetime now)"
  by (auto simp: issued_def)

lemma issued_mono: "issued lifetime now vb \<Longrightarrow> 0 \<le> d \<Longrightarrow> issued lifetime (now + d) vb"
proof -
  assume "issued lifetime now vb" "0 \<le> d"
  then obtain u where "u \<le> now" "vb = newValidBefore lifetime u"
    by (auto simp: issued_def)
  then show ?thesis
    using \<open>0 \<le> d\<close> unfolding issued_def by (intro exI [of _ u]) auto
qed

text \<open>What a goroutine inside \<open>renew\<close> knows of the cached certificate.\<close>

definition renewer_inv :: "duration \<Rightarrow> time \<Rightarrow> CertT \<Rightarrow> rpc \<Rightarrow> bool" where
  "renewer_inv lifetime now cert pc \<longleftrightarrow>
     (case pc of
        RValid cur \<Rightarrow> cur = cert
      | RPrepare \<Rightarrow> \<not> IsValid now cert
      | RObtain vb \<Rightarrow> \<not> IsValid now cert \<and> issued lifetime now vb
      | RPublish vb _ _ \<Rightarrow> \<not> IsValid now cert \<and> issued lifetime now vb
      | _ \<Rightarrow> True)"

definition mutex_inv :: "duration \<Rightarrow> entry_conc \<Rightarrow> bool" where
  "mutex_inv lifetime s \<longleftrightarrow>
     (\<forall>t. k_renewMu s = Some t \<longleftrightarrow> (\<exists>r. k_renewers s t = Some r \<and> crit (r_pc r))) \<and>
     (\<forall>t r. k_renewers s t = Some r \<longrightarrow>
        renewer_inv lifetime (k_now s) (e_cert (k_entry s)) (r_pc r)) \<and>
     (0 < k_pubs s \<longrightarrow> issued lifetime (k_now s) (c_ValidBefore (e_cert (k_entry s))))"

lemma crit_simps [simp]:
  "\<not> crit RCheck" "\<not> crit RLock" "crit RSnapshot" "crit (RValid c)" "crit RPrepare" "crit (RObtain vb)"
  "crit (RPublish vb f k)" "crit (RSend c)" "crit (RUnlock res)" "\<not> crit (RAfter res)"
  "\<not> crit RTimer" "\<not> crit RExit"
  by (simp_all add: crit_def)

lemma renewer_inv_simps [simp]:
  "renewer_inv lt n c RCheck" "renewer_inv lt n c RLock" "renewer_inv lt n c RSnapshot"
  "renewer_inv lt n c (RSend c')" "renewer_inv lt n c (RUnlock res)" "renewer_inv lt n c (RAfter res)"
  "renewer_inv lt n c RTimer" "renewer_inv lt n c RExit"
  by (simp_all add: renewer_inv_def)

lemma renewer_inv_outside: "\<not> crit pc \<Longrightarrow> renewer_inv lt n c pc"
  by (cases pc) simp_all

lemma renewer_inv_tick: "renewer_inv lt n c pc \<Longrightarrow> 0 \<le> d \<Longrightarrow> renewer_inv lt (n + d) c pc"
  by (cases pc) (auto simp: renewer_inv_def IsValid_def intro: issued_mono)

lemma mutex_frame [simp]:
  "mutex_inv lt (s\<lparr>k_stopped := b\<rparr>) = mutex_inv lt s"
  "mutex_inv lt (s\<lparr>k_cancelled := cs\<rparr>) = mutex_inv lt s"
  "mutex_inv lt (s\<lparr>k_pending := ps\<rparr>) = mutex_inv lt s"
  "mutex_inv lt (s\<lparr>k_ctxs := n\<rparr>) = mutex_inv lt s"
  "mutex_inv lt (s\<lparr>k_waiters := ws\<rparr>) = mutex_inv lt s"
  "mutex_inv lt (s\<lparr>k_update := q\<rparr>) = mutex_inv lt s"
  by (simp_all add: mutex_inv_def)

lemma mutex_entry: "mutex_inv lt s \<Longrightarrow> e_cert e = e_cert (k_entry s) \<Longrightarrow> mutex_inv lt (s\<lparr>k_entry := e\<rparr>)"
  by (simp add: mutex_inv_def)

lemma mutex_at: "mutex_inv lt s \<Longrightarrow> at s t r pc \<Longrightarrow> renewer_inv lt (k_now s) (e_cert (k_entry s)) pc"
  by (auto simp: mutex_inv_def at_def)

lemma mutex_holder: "mutex_inv lt s \<Longrightarrow> at s t r pc \<Longrightarrow> crit pc \<Longrightarrow> k_renewMu s = Some t"
  by (auto simp: mutex_inv_def at_def)

lemma mutex_others:
  "mutex_inv lt s \<Longrightarrow> k_renewMu s = Some t \<Longrightarrow> k_renewers s t' = Some r \<Longrightarrow> t' \<noteq> t \<Longrightarrow> \<not> crit (r_pc r)"
  by (auto simp: mutex_inv_def)

lemma mutex_goto:
  "mutex_inv lt s \<Longrightarrow> at s t r pc \<Longrightarrow> crit pc = crit pc' \<Longrightarrow>
     renewer_inv lt (k_now s) (e_cert (k_entry s)) pc' \<Longrightarrow> mutex_inv lt (goto t r pc' s)"
  by (auto simp: mutex_inv_def at_def)

lemma mutex_new_thread:
  "mutex_inv lt s \<Longrightarrow> fresh_thread s t \<Longrightarrow> r_pc r = RCheck \<Longrightarrow>
     mutex_inv lt (s\<lparr>k_renewers := (k_renewers s)(t \<mapsto> r)\<rparr>)"
  by (auto simp: mutex_inv_def fresh_thread_def)

lemma mutex_inv_step:
  assumes inv: "mutex_inv lifetime s" and "estep lifetime s s'"
  shows "mutex_inv lifetime s'"
  using assms(2)
proof (cases rule: estep.cases)
  case (tick d)
  then show ?thesis
    using inv by (auto simp: mutex_inv_def intro: renewer_inv_tick issued_mono)
next
  case (do_subscribe st e t)
  let ?s = "s\<lparr>k_entry := e, k_ctxs := k_ctxs s + 1\<rparr>"
  have "mutex_inv lifetime ?s"
    using inv by (simp add: mutex_entry subscribe_frame [OF do_subscribe(2)])
  then show ?thesis
    using do_subscribe mutex_new_thread [of lifetime ?s t]
    by (cases st) (auto simp: fresh_thread_def)
next
  case (do_release cn e)
  then show ?thesis using inv by (simp add: mutex_entry release_frame [OF do_release(2)])
next
  case (call_renew t c)
  then show ?thesis using inv by (simp add: mutex_new_thread)
next
  case (renew_lock t r)
  then show ?thesis using inv by (auto simp: mutex_inv_def at_def)
next
  case (renew_snapshot t r)
  then show ?thesis
    using inv by (auto intro!: mutex_goto simp: renewer_inv_def Snapshot_def)
next
  case (renew_invalid t r cur)
  then show ?thesis
    using mutex_at [OF inv renew_invalid(2)] inv by (auto intro!: mutex_goto simp: renewer_inv_def)
next
  case (renew_prepare t r)
  then show ?thesis
    using mutex_at [OF inv renew_prepare(2)] inv by (auto intro!: mutex_goto simp: renewer_inv_def)
next
  case (renew_obtain_ok t r vb fullchain key)
  then show ?thesis
    using mutex_at [OF inv renew_obtain_ok(2)] inv by (auto intro!: mutex_goto simp: renewer_inv_def)
next
  case (renew_publish t r vb fullchain key newCert old e)
  have mu: "k_renewMu s = Some t"
    using mutex_holder [OF inv renew_publish(2)] by simp
  have "issued lifetime (k_now s) vb"
    using mutex_at [OF inv renew_publish(2)] by (simp add: renewer_inv_def)
  moreover have "k_renewers s t = Some r" "crit (r_pc r)" "e_cert e = newCert" "c_ValidBefore newCert = vb"
    using renew_publish by (auto simp: at_def publish_def)
  ultimately show ?thesis
    using inv renew_publish(1) mu mutex_others [OF inv mu]
    by (auto simp: mutex_inv_def renewer_inv_outside)
next
  case (renew_send t r cert)
  then show ?thesis
    using mutex_goto [of lifetime "s\<lparr>k_update := k_update s @ [cert]\<rparr>" t r "RSend cert"] inv
    by (simp add: at_def)
next
  case (renew_unlock t r res)
  have mu: "k_renewMu s = Some t"
    using mutex_holder [OF inv renew_unlock(2)] by simp
  then show ?thesis
    using inv renew_unlock mutex_others [OF inv mu]
    by (auto simp: mutex_inv_def at_def)
qed (use inv in \<open>auto intro: mutex_goto\<close>)

interpretation mutex: step_invariant entry_init "estep lifetime" "mutex_inv lifetime"
  for lifetime
proof
  show "mutex_inv lifetime s" if "entry_init s" for s
    using that by (auto simp: entry_init_def mutex_inv_def)
qed (rule mutex_inv_step)

section \<open>The renewal goroutine\<close>

definition loop_thread :: "entry_conc \<Rightarrow> nat \<Rightarrow> nat \<Rightarrow> bool" where
  "loop_thread s t c \<longleftrightarrow> (\<exists>r. k_renewers s t = Some r \<and> r_loop r \<and> r_ctx r = RenewCtx c)"

text \<open>Contexts: the entry holds a live one that a goroutine runs under; every other context with a
  goroutine is cancelled or about to be.\<close>

definition contexts_inv :: "entry_conc \<Rightarrow> bool" where
  "contexts_inv s \<longleftrightarrow>
     entry_wf (k_entry s) \<and>
     (\<forall>c. e_cancelRenew (k_entry s) = Some c \<longrightarrow>
        c < k_ctxs s \<and> c \<notin> k_pending s \<and> RenewCtx c \<notin> k_cancelled s \<and> (\<exists>t. loop_thread s t c)) \<and>
     (\<forall>c. c \<in> k_pending s \<or> RenewCtx c \<in> k_cancelled s \<longrightarrow> c < k_ctxs s) \<and>
     (\<forall>t c. loop_thread s t c \<longrightarrow>
        c < k_ctxs s \<and>
        (e_cancelRenew (k_entry s) = Some c \<or> c \<in> k_pending s \<or> RenewCtx c \<in> k_cancelled s)) \<and>
     (\<forall>t t' c. loop_thread s t c \<longrightarrow> loop_thread s t' c \<longrightarrow> t = t')"

text \<open>A goroutine of the loop ends only when its context is done.\<close>

definition exit_inv :: "entry_conc \<Rightarrow> bool" where
  "exit_inv s \<longleftrightarrow>
     (\<forall>t r. k_renewers s t = Some r \<longrightarrow>
        (r_loop r \<longrightarrow> (\<exists>c. r_ctx r = RenewCtx c)) \<and> (r_pc r = RTimer \<longrightarrow> r_loop r) \<and>
        (r_pc r = RExit \<longrightarrow> r_loop r \<and> ctx_done s (r_ctx r)))"

definition loop_inv :: "entry_conc \<Rightarrow> bool" where
  "loop_inv s \<longleftrightarrow> contexts_inv s \<and> exit_inv s"

lemma loop_thread_frame [simp]:
  "loop_thread (s\<lparr>k_entry := e\<rparr>) = loop_thread s" "loop_thread (s\<lparr>k_now := n\<rparr>) = loop_thread s"
  "loop_thread (s\<lparr>k_stopped := b\<rparr>) = loop_thread s" "loop_thread (s\<lparr>k_cancelled := cs\<rparr>) = loop_thread s"
  "loop_thread (s\<lparr>k_pending := ps\<rparr>) = loop_thread s" "loop_thread (s\<lparr>k_ctxs := n'\<rparr>) = loop_thread s"
  "loop_thread (s\<lparr>k_renewMu := mu\<rparr>) = loop_thread s" "loop_thread (s\<lparr>k_waiters := ws\<rparr>) = loop_thread s"
  "loop_thread (s\<lparr>k_update := q\<rparr>) = loop_thread s" "loop_thread (s\<lparr>k_closed := cl\<rparr>) = loop_thread s"
  "loop_thread (s\<lparr>k_chans := n'\<rparr>) = loop_thread s" "loop_thread (s\<lparr>k_pubs := n'\<rparr>) = loop_thread s"
  by (simp_all add: loop_thread_def fun_eq_iff)

lemma loop_thread_goto [simp]: "k_renewers s t = Some r \<Longrightarrow> loop_thread (goto t r pc s) = loop_thread s"
  by (auto simp: loop_thread_def fun_eq_iff)

lemma loop_thread_new:
  "fresh_thread s t \<Longrightarrow> loop_thread (s\<lparr>k_renewers := (k_renewers s)(t \<mapsto> r)\<rparr>) t' c \<longleftrightarrow>
     loop_thread s t' c \<or> t' = t \<and> r_loop r \<and> r_ctx r = RenewCtx c"
  by (auto simp: loop_thread_def fresh_thread_def)

lemma loop_frame [simp]:
  "loop_inv (s\<lparr>k_now := n\<rparr>) = loop_inv s"
  "loop_inv (s\<lparr>k_renewMu := mu\<rparr>) = loop_inv s"
  "loop_inv (s\<lparr>k_waiters := ws\<rparr>) = loop_inv s"
  "loop_inv (s\<lparr>k_update := q\<rparr>) = loop_inv s"
  "loop_inv (s\<lparr>k_closed := cl\<rparr>) = loop_inv s"
  "loop_inv (s\<lparr>k_chans := n'\<rparr>) = loop_inv s"
  "loop_inv (s\<lparr>k_pubs := n'\<rparr>) = loop_inv s"
  by (simp_all add: loop_inv_def contexts_inv_def exit_inv_def ctx_done_def)

lemma loop_goto:
  assumes "loop_inv s" "at s t r pc" "pc' = RTimer \<Longrightarrow> r_loop r"
    "pc' = RExit \<Longrightarrow> r_loop r \<and> ctx_done s (r_ctx r)"
  shows "loop_inv (goto t r pc' s)"
  using assms by (auto simp: loop_inv_def contexts_inv_def exit_inv_def at_def ctx_done_def)

lemma loop_entry:
  "loop_inv s \<Longrightarrow> e_subscribing e = e_subscribing (k_entry s) \<Longrightarrow>
     e_cancelRenew e = e_cancelRenew (k_entry s) \<Longrightarrow> loop_inv (s\<lparr>k_entry := e\<rparr>)"
  by (auto simp: loop_inv_def contexts_inv_def entry_wf_def exit_inv_def ctx_done_def)

lemma contexts_subscribe:
  assumes "contexts_inv s" "subscribe (k_ctxs s) (k_entry s) = (st, e)" "fresh_thread s t"
  shows "contexts_inv (s\<lparr>k_entry := e, k_ctxs := k_ctxs s + 1,
      k_renewers := (case st of None \<Rightarrow> k_renewers s
        | Some c \<Rightarrow> (k_renewers s)(t \<mapsto> \<lparr>r_ctx = RenewCtx c, r_loop = True, r_pc = RCheck\<rparr>))\<rparr>)"
proof (cases st)
  case None
  then have "e_cancelRenew e = e_cancelRenew (k_entry s)"
    using assms(2) by (auto simp: subscribe_def split: if_splits)
  then show ?thesis
    using assms(1) subscribe_wf [OF _ assms(2)] None by (auto simp: contexts_inv_def less_Suc_eq)
next
  case (Some c)
  then have c: "c = k_ctxs s" "e_cancelRenew e = Some c" "e_subscribing (k_entry s) = 0"
    using assms(2) by (auto simp: subscribe_def split: if_splits)
  let ?s = "s\<lparr>k_entry := e, k_ctxs := k_ctxs s + 1\<rparr>"
  have new: "loop_thread (?s\<lparr>k_renewers := (k_renewers ?s)(t \<mapsto>
        \<lparr>r_ctx = RenewCtx c, r_loop = True, r_pc = RCheck\<rparr>)\<rparr>) t' c' \<longleftrightarrow>
      loop_thread s t' c' \<or> t' = t \<and> c' = c" for t' c'
    using assms(3) by (subst loop_thread_new) (auto simp: fresh_thread_def)
  have "e_cancelRenew (k_entry s) = None" "entry_wf e"
    using assms(1) c subscribe_wf [OF _ assms(2)] by (auto simp: contexts_inv_def entry_wf_def)
  then show ?thesis
    using assms(1) c new Some unfolding contexts_inv_def
    by (auto simp: less_Suc_eq)
qed

lemma contexts_release:
  assumes "contexts_inv s" "release (k_entry s) = (cn, e)"
  shows "contexts_inv (s\<lparr>k_entry := e, k_pending := k_pending s \<union> set_option cn\<rparr>)"
proof -
  have "entry_wf e"
    using assms release_wf [of "k_entry s" cn e] by (auto simp: contexts_inv_def)
  consider "cn = None" "e_cancelRenew e = e_cancelRenew (k_entry s)"
    | "cn = e_cancelRenew (k_entry s)" "e_cancelRenew e = None"
    using assms(2) by (auto simp: release_def Let_def split: if_splits)
  then show ?thesis
  proof cases
    case 1
    then show ?thesis
      using assms(1) \<open>entry_wf e\<close> by (simp add: contexts_inv_def)
  next
    case 2
    then show ?thesis
      using assms(1) \<open>entry_wf e\<close> by (cases cn) (auto simp: contexts_inv_def)
  qed
qed

lemma exit_inv_mono:
  "exit_inv s \<Longrightarrow> k_renewers s' = k_renewers s \<Longrightarrow> (\<And>c. ctx_done s c \<Longrightarrow> ctx_done s' c) \<Longrightarrow> exit_inv s'"
  by (simp add: exit_inv_def)

lemma loop_cancel:
  assumes "loop_inv s" "c \<in> k_pending s"
  shows "loop_inv (s\<lparr>k_pending := k_pending s - {c}, k_cancelled := insert (RenewCtx c) (k_cancelled s)\<rparr>)"
proof -
  have "exit_inv (s\<lparr>k_pending := k_pending s - {c}, k_cancelled := insert (RenewCtx c) (k_cancelled s)\<rparr>)"
    by (rule exit_inv_mono [of s]) (use assms in \<open>auto simp: loop_inv_def ctx_done_def\<close>)
  moreover have "contexts_inv (s\<lparr>k_pending := k_pending s - {c},
      k_cancelled := insert (RenewCtx c) (k_cancelled s)\<rparr>)"
    using assms unfolding loop_inv_def contexts_inv_def by auto
  ultimately show ?thesis by (simp add: loop_inv_def)
qed

lemma loop_stop_fire:
  "loop_inv s \<Longrightarrow> loop_inv (s\<lparr>k_stopped := True\<rparr>)"
  "loop_inv s \<Longrightarrow> loop_inv (s\<lparr>k_cancelled := insert (CallerCtx c) (k_cancelled s)\<rparr>)"
  unfolding loop_inv_def by (auto simp: contexts_inv_def ctx_done_def intro: exit_inv_mono)

lemma loop_inv_step:
  assumes inv: "loop_inv s" and "estep lifetime s s'"
  shows "loop_inv s'"
  using assms(2)
proof (cases rule: estep.cases)
  case (do_subscribe st e t)
  then show ?thesis
    using inv contexts_subscribe [of s st e t]
    by (auto simp: loop_inv_def exit_inv_def ctx_done_def split: option.splits)
next
  case (do_release cn e)
  then show ?thesis
    using inv contexts_release [of s cn e] by (auto simp: loop_inv_def exit_inv_def ctx_done_def)
next
  case (call_renew t c)
  then show ?thesis
    using inv by (auto simp: loop_inv_def contexts_inv_def exit_inv_def loop_thread_new ctx_done_def)
next
  case (renew_publish t r vb fullchain key newCert old e)
  then have "loop_inv (s\<lparr>k_entry := e\<rparr>)"
    using inv by (intro loop_entry) (auto simp: publish_def)
  then show ?thesis
    using renew_publish loop_goto [of "s\<lparr>k_entry := e, k_closed := insert old (k_closed s),
        k_chans := k_chans s + 1, k_pubs := k_pubs s + 1\<rparr>" t r "RPublish vb fullchain key" "RSend newCert"]
    by (simp add: at_def)
next
  case (renew_lock t r)
  then show ?thesis
    using inv loop_goto [of "s\<lparr>k_renewMu := Some t\<rparr>" t r RLock RSnapshot] by (simp add: at_def)
next
  case (renew_send t r cert)
  then show ?thesis
    using inv loop_goto [of "s\<lparr>k_update := k_update s @ [cert]\<rparr>" t r "RSend cert" "RUnlock (True, False)"]
    by (simp add: at_def)
next
  case (renew_unlock t r res)
  then show ?thesis
    using inv loop_goto [of "s\<lparr>k_renewMu := None\<rparr>" t r "RUnlock res" "RAfter res"] by (simp add: at_def)
next
  case (loop_timer_ctx t r)
  then show ?thesis
    using inv by (auto simp: at_def loop_inv_def [of s] exit_inv_def [of s] intro!: loop_goto [where pc = RTimer])
qed (use inv in \<open>auto intro: loop_goto loop_cancel loop_stop_fire\<close>)

interpretation renew_loop: step_invariant entry_init "estep lifetime" loop_inv
  for lifetime
proof
  show "loop_inv s" if "entry_init s" for s
    using that by (auto simp: entry_init_def loop_inv_def contexts_inv_def exit_inv_def loop_thread_def
        entry_wf_def newCertEntry_def)
qed (rule loop_inv_step)

section \<open>A run\<close>

text \<open>A waiter blocks, a caller renews and publishes, the waiter returns the new version; a consumer
  subscribes and starts the renewal goroutine.\<close>

definition example_entry :: entry_conc where
  "example_entry =
     \<lparr>k_entry = newCertEntry 0 [''a.b''], k_closed = {}, k_chans = 1, k_cancelled = {}, k_pending = {},
      k_ctxs = 0, k_stopped = False, k_renewMu = None, k_waiters = Map.empty, k_renewers = Map.empty,
      k_now = 5, k_update = [], k_pubs = 0\<rparr>"

lemma example_entry_init: "entry_init example_entry"
  by (auto simp: entry_init_def example_entry_def newCertEntry_def)

lemmas run_step = converse_rtranclp_into_rtranclp
lemmas run_simps = example_entry_def newCertEntry_def at_def fresh_thread_def ctx_done_def
  WaitForUpdate_enter_def WaitForUpdate_leave_def Snapshot_def IsValid_def zero_CertT_def publish_def
  subscribe_def

lemma example_obtaining:
  "\<exists>s r vb. (estep lifetime)\<^sup>*\<^sup>* example_entry s \<and> at s 1 r (RObtain vb) \<and>
     k_waiters s 0 = Some (WBlocked (CallerCtx 0) 0 0 0) \<and> k_pubs s = 0 \<and> k_closed s = {} \<and>
     k_chans s = 1 \<and> k_entry s = newCertEntry 0 [''a.b'']"
  apply (rule exI)+
  apply (rule conjI)
   apply (rule run_step, rule call_wait [where t = 0 and c = 0 and seen = 0], simp add: run_simps)
   apply (rule run_step, rule wait_block [where t = 0 and seen = 0], simp, simp add: run_simps)
   apply (rule run_step, rule call_renew [where t = 1 and c = 0], simp add: run_simps)
   apply (rule run_step, rule renew_go [where t = 1], rule atI, simp add: run_simps, simp, simp add: run_simps)
   apply (rule run_step, rule renew_lock [where t = 1], rule atI, simp add: run_simps, simp, simp add: run_simps)
   apply (rule run_step, rule renew_snapshot [where t = 1], rule atI, simp add: run_simps, simp)
   apply (rule run_step, rule renew_invalid [where t = 1], rule atI, simp add: run_simps, simp, simp add: run_simps)
   apply (rule run_step, rule renew_prepare [where t = 1], rule atI, simp add: run_simps, simp)
   apply (rule rtranclp.rtrancl_refl)
  apply (rule conjI, rule atI, simp, simp)
  apply (simp add: run_simps)
  done

lemma example_woken:
  "\<exists>s. (estep lifetime)\<^sup>*\<^sup>* example_entry s \<and> k_waiters s 0 = Some (WReturned 0 1 (Some 0)) \<and> k_pubs s = 1"
proof -
  obtain s1 r vb where s1: "(estep lifetime)\<^sup>*\<^sup>* example_entry s1" "at s1 1 r (RObtain vb)"
    "k_waiters s1 0 = Some (WBlocked (CallerCtx 0) 0 0 0)" "k_pubs s1 = 0" "k_closed s1 = {}"
    "k_chans s1 = 1" "k_entry s1 = newCertEntry 0 [''a.b'']"
    using example_obtaining by blast
  have "\<exists>s. (estep lifetime)\<^sup>*\<^sup>* s1 s \<and> k_waiters s 0 = Some (WReturned 0 1 (Some 0)) \<and> k_pubs s = 1"
    apply (rule exI)
    apply (rule conjI)
     apply (rule run_step, rule renew_obtain_ok [where t = 1 and fullchain = "''c''" and key = "''k''"], fact)
     apply (rule run_step, rule renew_publish [where t = 1 and fullchain = "''c''" and key = "''k''", OF _ refl],
        rule atI, simp, simp, simp add: run_simps s1)
     apply (rule run_step, rule wait_wake [where t = 0], simp add: s1, simp add: s1)
     apply (rule run_step, rule wait_return [where t = 0], simp)
     apply (rule rtranclp.rtrancl_refl)
    apply (simp add: run_simps s1)
    done
  then show ?thesis
    using s1(1) by (meson rtranclp_trans)
qed

lemma example_subscribed:
  "\<exists>s. (estep lifetime)\<^sup>*\<^sup>* example_entry s \<and> e_subscribing (k_entry s) = 1 \<and> \<not> k_stopped s"
  apply (rule exI)
  apply (rule conjI)
   apply (rule run_step, rule do_subscribe [where t = 0], simp add: run_simps, simp add: run_simps)
   apply (rule rtranclp.rtrancl_refl)
  apply (simp add: run_simps)
  done

section \<open>Properties\<close>

text \<open>
  C2: No update is missed. In every reachable state, a goroutine blocked in \<open>WaitForUpdate\<close>
  waits on a channel that is closed exactly when a renewal was published since it read the
  version it has seen; as long as none was, it waits on the channel that the next renewal closes.
  When such a goroutine returns because of the channel, the version it returns is strictly newer
  than the one it had seen, until the counter of 64 bits wraps.
\<close>

theorem WaitForUpdate_misses_nothing:
  assumes "entry_init s\<^sub>0" "(estep lifetime)\<^sup>*\<^sup>* s\<^sub>0 s"
  shows "(\<forall>c seen ch n. k_waiters s t = Some (WBlocked c seen ch n) \<longrightarrow>
      (ch \<in> k_closed s \<longleftrightarrow> n < k_pubs s) \<and>
      (n = k_pubs s \<longrightarrow> ch = e_updated (k_entry s) \<and> seen = e_version (k_entry s))) \<and>
    (\<forall>seen v n. k_waiters s t = Some (WReturned seen v (Some n)) \<longrightarrow> k_pubs s < 2 ^ 64 \<longrightarrow> seen < v)"
proof -
  have inv: "broadcast_inv s"
    using broadcast.inv_reachable [OF assms] .
  have w: "k_waiters s t = Some w \<Longrightarrow> waiter_inv (k_pubs s) w" for w
    using broadcast_waiterD [OF inv] .
  have newer: "(of_nat n :: 64 word) < of_nat m" if "n < m" "m \<le> k_pubs s" "k_pubs s < 18446744073709551616" for n m
    using that by (simp add: word_less_nat_alt unat_of_nat take_bit_nat_eq_self)
  show ?thesis
    using inv by (auto dest!: w simp: waiter_inv_def broadcast_inv_def intro: newer)
qed

theorem WaitForUpdate_misses_nothing_witness:
  "\<exists>s. (estep Hour)\<^sup>*\<^sup>* example_entry s \<and> k_waiters s 0 = Some (WReturned 0 1 (Some 0)) \<and> (0 :: 64 word) < 1"
proof -
  obtain s where s: "(estep Hour)\<^sup>*\<^sup>* example_entry s" "k_waiters s 0 = Some (WReturned 0 1 (Some 0))" "k_pubs s = 1"
    using example_woken by blast
  then show ?thesis
    using WaitForUpdate_misses_nothing [OF example_entry_init s(1), of 0] by auto
qed

text \<open>
  C7: At most one goroutine is inside \<open>renew\<close>'s critical section, and ACME is contacted only
  while the cached certificate is not valid: it was not valid when the call was decided and it is
  not replaced behind the caller's back. A cached certificate that was published expires the
  configured lifetime after the full hour before some moment of the past.
\<close>

theorem one_ACME_call_at_a_time:
  assumes "entry_init s\<^sub>0" "(estep lifetime)\<^sup>*\<^sup>* s\<^sub>0 s"
  shows "(at s t r (RObtain vb) \<longrightarrow>
      \<not> IsValid (k_now s) (e_cert (k_entry s)) \<and> k_renewMu s = Some t \<and>
      (\<forall>t' r' vb'. at s t' r' (RObtain vb') \<longrightarrow> t' = t)) \<and>
    (0 < k_pubs s \<longrightarrow>
      (\<exists>u \<le> k_now s. c_ValidBefore (e_cert (k_entry s)) = newValidBefore lifetime u))"
proof -
  have inv: "mutex_inv lifetime s"
    using mutex.inv_reachable [OF assms] .
  have unique: "t' = t" if "at s t r (RObtain vb)" "at s t' r' (RObtain vb')" for t' r' vb'
    using mutex_holder [OF inv that(1)] mutex_holder [OF inv that(2)] by simp
  have "\<not> IsValid (k_now s) (e_cert (k_entry s)) \<and> k_renewMu s = Some t" if "at s t r (RObtain vb)"
    using mutex_at [OF inv that] mutex_holder [OF inv that] by (simp add: renewer_inv_def)
  moreover have "0 < k_pubs s \<longrightarrow>
      (\<exists>u \<le> k_now s. c_ValidBefore (e_cert (k_entry s)) = newValidBefore lifetime u)"
    using inv by (simp add: mutex_inv_def issued_def)
  ultimately show ?thesis using unique by blast
qed

theorem one_ACME_call_at_a_time_witness:
  "\<exists>s r vb. (estep Hour)\<^sup>*\<^sup>* example_entry s \<and> at s 1 r (RObtain vb) \<and>
     \<not> IsValid (k_now s) (e_cert (k_entry s)) \<and> k_renewMu s = Some 1"
proof -
  obtain s r vb where s: "(estep Hour)\<^sup>*\<^sup>* example_entry s" "at s 1 r (RObtain vb)"
    using example_obtaining by blast
  then show ?thesis
    using one_ACME_call_at_a_time [OF example_entry_init s(1), of 1 r vb] by auto
qed

text \<open>
  C8: In every reachable state with a consumer and a server that is not stopped, exactly one
  renewal goroutine runs under the context the entry holds; that context is live and the goroutine
  has not ended. Every other renewal goroutine has a context that is cancelled or that a
  \<open>release\<close> is about to cancel; without consumers that is all of them.
\<close>

theorem one_renewal_goroutine:
  assumes "entry_init s\<^sub>0" "(estep lifetime)\<^sup>*\<^sup>* s\<^sub>0 s"
  shows "(isSubscribing (k_entry s) \<and> \<not> k_stopped s \<longrightarrow>
      (\<exists>c t. e_cancelRenew (k_entry s) = Some c \<and> \<not> ctx_done s (RenewCtx c) \<and>
         (\<forall>t'. loop_thread s t' c \<longleftrightarrow> t' = t) \<and> (\<forall>r. k_renewers s t = Some r \<longrightarrow> r_pc r \<noteq> RExit))) \<and>
    (\<forall>t c. loop_thread s t c \<longrightarrow> e_cancelRenew (k_entry s) \<noteq> Some c \<or> \<not> isSubscribing (k_entry s) \<longrightarrow>
       c \<in> k_pending s \<or> ctx_done s (RenewCtx c))"
proof -
  have c: "contexts_inv s" and e: "exit_inv s"
    using renew_loop.inv_reachable [OF assms] by (auto simp: loop_inv_def)
  have "\<exists>c t. e_cancelRenew (k_entry s) = Some c \<and> \<not> ctx_done s (RenewCtx c) \<and>
         (\<forall>t'. loop_thread s t' c \<longleftrightarrow> t' = t) \<and> (\<forall>r. k_renewers s t = Some r \<longrightarrow> r_pc r \<noteq> RExit)"
    if sub: "isSubscribing (k_entry s)" and run: "\<not> k_stopped s"
  proof -
    obtain x where x: "e_cancelRenew (k_entry s) = Some x"
      using sub c by (auto simp: isSubscribing_def contexts_inv_def entry_wf_def)
    then obtain t where t: "loop_thread s t x" and live: "\<not> ctx_done s (RenewCtx x)"
      using c run by (auto simp: contexts_inv_def ctx_done_def)
    then have "\<forall>t'. loop_thread s t' x \<longleftrightarrow> t' = t"
      using c unfolding contexts_inv_def by blast
    moreover have "\<forall>r. k_renewers s t = Some r \<longrightarrow> r_pc r \<noteq> RExit"
      using t live e by (fastforce simp: loop_thread_def exit_inv_def)
    ultimately show ?thesis using x live by blast
  qed
  moreover have "c' \<in> k_pending s \<or> ctx_done s (RenewCtx c')"
    if "loop_thread s t c'" "e_cancelRenew (k_entry s) \<noteq> Some c' \<or> \<not> isSubscribing (k_entry s)" for t c'
  proof -
    have "e_cancelRenew (k_entry s) \<noteq> Some c'"
      using that(2) c by (auto simp: contexts_inv_def isSubscribing_def entry_wf_def)
    then show ?thesis
      using that(1) c unfolding contexts_inv_def ctx_done_def by blast
  qed
  ultimately show ?thesis by blast
qed

theorem one_renewal_goroutine_witness:
  "\<exists>s c t. (estep Hour)\<^sup>*\<^sup>* example_entry s \<and> e_subscribing (k_entry s) = 1 \<and>
     e_cancelRenew (k_entry s) = Some c \<and> loop_thread s t c \<and> \<not> ctx_done s (RenewCtx c)"
proof -
  obtain s where s: "(estep Hour)\<^sup>*\<^sup>* example_entry s" "e_subscribing (k_entry s) = 1" "\<not> k_stopped s"
    using example_subscribed by blast
  then show ?thesis
    using one_renewal_goroutine [OF example_entry_init s(1)] by (auto simp: isSubscribing_def)
qed

end
