(* ===== verification/Acme_Providers.thy ===== *)
theory Acme_Providers
  imports Go_Prelude
begin

text \<open>Package \<open>pkg/acme/acmeproviders\<close>: the table of ACME directories and its queries.\<close>

definition providerURLs :: "string \<rightharpoonup> string" where
  "providerURLs = map_of
     [(''google'', ''https://dv.acme-v02.api.pki.goog/directory''),
      (''googletest'', ''https://dv.acme-v02.test-api.pki.goog/directory''),
      (''r3'', ''https://acme-v02.api.letsencrypt.org/directory''),
      (''r3test'', ''https://acme-staging-v02.api.letsencrypt.org/directory''),
      (''mock'', '''')]"

definition Mock :: string where
  "Mock = ''mock''"

definition Supported :: "string \<Rightarrow> bool" where
  "Supported provider \<longleftrightarrow> providerURLs provider \<noteq> None"

definition IsMock :: "string \<Rightarrow> bool" where
  "IsMock provider \<longleftrightarrow> provider = Mock"

definition IsGoogle :: "string \<Rightarrow> bool" where
  "IsGoogle provider \<longleftrightarrow> HasPrefix provider ''google''"

text \<open>Indexing a Go map at an absent key gives the zero value.\<close>

definition URL :: "string \<Rightarrow> string" where
  "URL provider = (case providerURLs provider of None \<Rightarrow> [] | Some u \<Rightarrow> u)"

lemma Supported_iff:
  "Supported p \<longleftrightarrow> p \<in> {''google'', ''googletest'', ''r3'', ''r3test'', ''mock''}"
  by (auto simp: Supported_def providerURLs_def)

lemma Supported_URL: "Supported p \<Longrightarrow> \<not> IsMock p \<Longrightarrow> HasPrefix (URL p) ''https://''"
  by (auto simp: Supported_iff URL_def providerURLs_def IsMock_def Mock_def HasPrefix_def)

lemma not_Supported_Nil [simp]: "\<not> Supported []"
  by (simp add: Supported_iff)

lemma not_IsMock_Nil [simp]: "\<not> IsMock []"
  by (simp add: IsMock_def Mock_def)

end
