(* ===== verification/Config_Server.thy ===== *)
theory Config_Server
  imports Acme_Providers
begin

text \<open>
  The server half of \<open>pkg/config\<close>: the configuration structs of \<open>server.go\<close> and their
  validation. A pointer field is an \<open>option\<close>; \<open>errors.Join\<close> of the collected errors is their
  list, nil exactly when it is empty. \<open>time.ParseDuration\<close> is the parameter \<open>parse\<close> (its result
  is 0 together with an error when the string is not a duration) and \<open>paths.FileExists\<close> the
  parameter \<open>exists\<close>. \<open>Validate\<close> also writes to the configuration: the parsed durations and the
  leading slash of the API path.
\<close>

section \<open>Constants of const.go\<close>

definition HTTP_AUTH_TOKEN :: string where "HTTP_AUTH_TOKEN = ''token''"
definition HTTP_AUTH_MTLS :: string where "HTTP_AUTH_MTLS = ''mtls''"
definition DnsProviderTypeCloudflare :: string where "DnsProviderTypeCloudflare = ''cloudflare''"
definition DnsProviderTypeTencentCloud :: string where "DnsProviderTypeTencentCloud = ''tencentcloud''"
definition HttpProviderTypeS3 :: string where "HttpProviderTypeS3 = ''s3''"
definition ChallengeTypeDns01 :: string where "ChallengeTypeDns01 = ''dns''"
definition ChallengeTypeHttp01 :: string where "ChallengeTypeHttp01 = ''http''"

lemmas server_const_defs =
  HTTP_AUTH_TOKEN_def HTTP_AUTH_MTLS_def DnsProviderTypeCloudflare_def
  DnsProviderTypeTencentCloud_def HttpProviderTypeS3_def ChallengeTypeDns01_def
  ChallengeTypeHttp01_def

section \<open>Structs\<close>

record ACMEConfig =
  ac_ChallengeType :: string
  ac_Email :: string
  ac_Provider :: string
  ac_RetryCount :: int
  ac_CertLifeTime :: string
  ac_RenewTimeLeft :: string
  ac_AllowedDomains :: "string list"
  ac_CertLifeTimeDuration :: duration
  ac_RenewTimeLeftDuration :: duration

record DnsProvider =
  dp_Type :: string
  dp_DisableCompletePropagationRequirement :: bool
  dp_Email :: string
  dp_APIKey :: string
  dp_AuthToken :: string
  dp_ZoneToken :: string
  dp_SecretID :: string
  dp_SecretKey :: string

record S3Client =
  s3_Region :: string
  s3_Bucket :: string
  s3_PartitionID :: string
  s3_URL :: string
  s3_AccessKeyId :: string
  s3_AccessKeySecret :: string
  s3_SessionToken :: string

record HttpProvider =
  hp_Type :: string
  hp_S3 :: "S3Client option"
  hp_Local :: "string option"

record HttpServerConfig =
  hs_Enabled :: bool
  hs_Listen :: string
  hs_APIPath :: string
  hs_AuthMethod :: string
  hs_Secure :: bool
  hs_Names :: "string list"
  hs_Token :: string

record GRPCServerConfig =
  gs_Enabled :: bool
  gs_Listen :: string

record MTLSConfig =
  mt_PEM :: string

record ServerConfig =
  sc_ACME :: ACMEConfig
  sc_GoogleCloudCredential :: "string \<rightharpoonup> string"
  sc_DnsProvider :: "DnsProvider option"
  sc_HttpProvider :: "HttpProvider option"
  sc_MTLS :: MTLSConfig
  sc_HttpServer :: HttpServerConfig
  sc_GRPCSDSServer :: GRPCServerConfig

datatype config_error =
    AllowedDomainsEmpty
  | ChallengeTypeEmpty
  | ChallengeTypeNotSupported string
  | ProviderNotSupported string
  | NoDnsProvider
  | NoHttpProvider
  | CloudflareEmpty
  | TencentCloudEmpty
  | UnknownDnsProvider string
  | S3Empty
  | UnknownHttpProvider string
  | CannotParseCertLifeTime
  | CannotParseRenewTimeLeft
  | SecureWithNoName
  | MTLSPemRequired
  | MTLSFileNotFound string

section \<open>Validation\<close>

definition ACMEConfig_Validate :: "ACMEConfig \<Rightarrow> config_error option" where
  "ACMEConfig_Validate c =
     (if length (ac_AllowedDomains c) = 0 then Some AllowedDomainsEmpty
      else if IsMock (ac_Provider c) then None
      else if ac_ChallengeType c = [] then Some ChallengeTypeEmpty
      else if ac_ChallengeType c \<noteq> ChallengeTypeDns01 \<and> ac_ChallengeType c \<noteq> ChallengeTypeHttp01
        then Some (ChallengeTypeNotSupported (ac_ChallengeType c))
      else if \<not> Supported (ac_Provider c) then Some (ProviderNotSupported (ac_Provider c))
      else None)"

definition DnsProvider_Validate :: "DnsProvider \<Rightarrow> config_error option" where
  "DnsProvider_Validate p =
     (if dp_Type p = DnsProviderTypeCloudflare then
        (if (dp_Email p = [] \<or> dp_APIKey p = []) \<and> (dp_AuthToken p = [] \<or> dp_ZoneToken p = [])
         then Some CloudflareEmpty else None)
      else if dp_Type p = DnsProviderTypeTencentCloud then
        (if dp_SecretID p = [] \<or> dp_SecretKey p = [] then Some TencentCloudEmpty else None)
      else Some (UnknownDnsProvider (dp_Type p)))"

definition HttpProvider_Validate :: "HttpProvider \<Rightarrow> config_error option" where
  "HttpProvider_Validate p =
     (if hp_Type p = HttpProviderTypeS3 then
        (if hp_S3 p = None then Some S3Empty else None)
      else Some (UnknownHttpProvider (hp_Type p)))"

definition HttpServerConfig_Validate ::
    "HttpServerConfig \<Rightarrow> HttpServerConfig \<times> config_error option" where
  "HttpServerConfig_Validate c =
     (if \<not> hs_Enabled c then (c, None)
      else
        let c' = (if \<not> HasPrefix (hs_APIPath c) ''/''
                  then c\<lparr>hs_APIPath := ''/'' @ hs_APIPath c\<rparr> else c)
        in if hs_Secure c' \<and> length (hs_Names c') = 0 then (c', Some SecureWithNoName)
           else (c', None))"

definition GRPCServerConfig_Validate :: "GRPCServerConfig \<Rightarrow> config_error option" where
  "GRPCServerConfig_Validate c = (if \<not> gs_Enabled c then None else None)"

definition MTLSConfig_Validate :: "(string \<Rightarrow> bool) \<Rightarrow> MTLSConfig \<Rightarrow> config_error option" where
  "MTLSConfig_Validate exists c =
     (if mt_PEM c = [] then Some MTLSPemRequired
      else if \<not> exists (mt_PEM c) then Some (MTLSFileNotFound (mt_PEM c))
      else None)"

definition needsMTLS :: "ServerConfig \<Rightarrow> bool" where
  "needsMTLS c =
     (if gs_Enabled (sc_GRPCSDSServer c) then True
      else if hs_Enabled (sc_HttpServer c) \<and> hs_AuthMethod (sc_HttpServer c) = HTTP_AUTH_MTLS
        then True
      else False)"

definition ServerConfig_parseDuration ::
    "(string \<Rightarrow> duration option) \<Rightarrow> ServerConfig \<Rightarrow> ServerConfig \<times> config_error option" where
  "ServerConfig_parseDuration parse c =
     (case parse (ac_CertLifeTime (sc_ACME c)) of
        None \<Rightarrow> (c\<lparr>sc_ACME := (sc_ACME c)\<lparr>ac_CertLifeTimeDuration := 0\<rparr>\<rparr>, Some CannotParseCertLifeTime)
      | Some d \<Rightarrow>
          let c1 = c\<lparr>sc_ACME := (sc_ACME c)\<lparr>ac_CertLifeTimeDuration := d\<rparr>\<rparr>
          in (case parse (ac_RenewTimeLeft (sc_ACME c1)) of
                None \<Rightarrow> (c1\<lparr>sc_ACME := (sc_ACME c1)\<lparr>ac_RenewTimeLeftDuration := 0\<rparr>\<rparr>,
                  Some CannotParseRenewTimeLeft)
              | Some r \<Rightarrow> (c1\<lparr>sc_ACME := (sc_ACME c1)\<lparr>ac_RenewTimeLeftDuration := r\<rparr>\<rparr>, None)))"

text \<open>\<open>append(ret, err)\<close> under \<open>if err != nil\<close>.\<close>

definition collect :: "'e list \<Rightarrow> 'e option \<Rightarrow> 'e list" where
  "collect ret err = (case err of None \<Rightarrow> ret | Some e \<Rightarrow> ret @ [e])"

definition challenge_Validate :: "ServerConfig \<Rightarrow> config_error option" where
  "challenge_Validate c =
     (if ac_ChallengeType (sc_ACME c) = ChallengeTypeDns01 then
        (case sc_DnsProvider c of Some p \<Rightarrow> DnsProvider_Validate p | None \<Rightarrow> Some NoDnsProvider)
      else if ac_ChallengeType (sc_ACME c) = ChallengeTypeHttp01 then
        (case sc_HttpProvider c of Some p \<Rightarrow> HttpProvider_Validate p | None \<Rightarrow> Some NoHttpProvider)
      else None)"

definition ServerConfig_Validate ::
    "(string \<Rightarrow> duration option) \<Rightarrow> (string \<Rightarrow> bool) \<Rightarrow> ServerConfig \<Rightarrow>
     ServerConfig \<times> config_error list" where
  "ServerConfig_Validate parse exists c =
     (let ret0 = collect [] (ACMEConfig_Validate (sc_ACME c));
          ret1 = (if \<not> IsMock (ac_Provider (sc_ACME c)) then collect ret0 (challenge_Validate c) else ret0);
          (c2, e2) = ServerConfig_parseDuration parse c;
          ret2 = collect ret1 e2;
          (h, e3) = HttpServerConfig_Validate (sc_HttpServer c2);
          c3 = c2\<lparr>sc_HttpServer := h\<rparr>;
          ret3 = collect ret2 e3;
          ret4 = collect ret3 (GRPCServerConfig_Validate (sc_GRPCSDSServer c3));
          ret5 = (if needsMTLS c3 then collect ret4 (MTLSConfig_Validate exists (sc_MTLS c3)) else ret4)
      in (c3, ret5))"

definition ServerConfig_SetDefault :: "ServerConfig \<Rightarrow> ServerConfig" where
  "ServerConfig_SetDefault c = c\<lparr>
     sc_ACME := \<lparr>ac_ChallengeType = ''dns'', ac_Email = [], ac_Provider = [], ac_RetryCount = 5,
       ac_CertLifeTime = ''168h'', ac_RenewTimeLeft = ''24h'', ac_AllowedDomains = [],
       ac_CertLifeTimeDuration = 168 * Hour, ac_RenewTimeLeftDuration = 24 * Hour\<rparr>,
     sc_HttpServer := \<lparr>hs_Enabled = False, hs_Listen = '':10001'', hs_APIPath = ''/'',
       hs_AuthMethod = [], hs_Secure = False, hs_Names = [], hs_Token = []\<rparr>,
     sc_GRPCSDSServer := \<lparr>gs_Enabled = False, gs_Listen = '':10002''\<rparr>\<rparr>"

section \<open>Specification\<close>

text \<open>What a valid configuration is, clause by clause.\<close>

definition dns_credentials_ok :: "DnsProvider \<Rightarrow> bool" where
  "dns_credentials_ok p \<longleftrightarrow>
     dp_Type p = ''cloudflare'' \<and>
       (dp_Email p \<noteq> [] \<and> dp_APIKey p \<noteq> [] \<or> dp_AuthToken p \<noteq> [] \<and> dp_ZoneToken p \<noteq> []) \<or>
     dp_Type p = ''tencentcloud'' \<and> dp_SecretID p \<noteq> [] \<and> dp_SecretKey p \<noteq> []"

definition challenge_ok :: "ServerConfig \<Rightarrow> bool" where
  "challenge_ok c \<longleftrightarrow>
     Supported (ac_Provider (sc_ACME c)) \<and>
     (ac_ChallengeType (sc_ACME c) = ''dns'' \<and>
        (\<exists>p. sc_DnsProvider c = Some p \<and> dns_credentials_ok p) \<or>
      ac_ChallengeType (sc_ACME c) = ''http'' \<and>
        (\<exists>p s. sc_HttpProvider c = Some p \<and> hp_Type p = ''s3'' \<and> hp_S3 p = Some s))"

definition config_ok :: "(string \<Rightarrow> duration option) \<Rightarrow> (string \<Rightarrow> bool) \<Rightarrow> ServerConfig \<Rightarrow> bool" where
  "config_ok parse exists c \<longleftrightarrow>
     ac_AllowedDomains (sc_ACME c) \<noteq> [] \<and>
     (IsMock (ac_Provider (sc_ACME c)) \<or> challenge_ok c) \<and>
     parse (ac_CertLifeTime (sc_ACME c)) \<noteq> None \<and>
     parse (ac_RenewTimeLeft (sc_ACME c)) \<noteq> None \<and>
     \<not> (hs_Enabled (sc_HttpServer c) \<and> hs_Secure (sc_HttpServer c) \<and> hs_Names (sc_HttpServer c) = []) \<and>
     \<not> (needsMTLS c \<and> (mt_PEM (sc_MTLS c) = [] \<or> \<not> exists (mt_PEM (sc_MTLS c))))"

section \<open>Lemmas\<close>

lemma collect_eq_Nil [simp]: "collect ret e = [] \<longleftrightarrow> ret = [] \<and> e = None"
  by (auto simp: collect_def split: option.splits)

lemma ACMEConfig_Validate_None:
  "ACMEConfig_Validate a = None \<longleftrightarrow>
     ac_AllowedDomains a \<noteq> [] \<and>
     (IsMock (ac_Provider a) \<or> ac_ChallengeType a \<in> {''dns'', ''http''} \<and> Supported (ac_Provider a))"
  by (auto simp: ACMEConfig_Validate_def server_const_defs)

lemma DnsProvider_Validate_None: "DnsProvider_Validate p = None \<longleftrightarrow> dns_credentials_ok p"
  by (auto simp: DnsProvider_Validate_def dns_credentials_ok_def server_const_defs)

lemma HttpProvider_Validate_None:
  "HttpProvider_Validate p = None \<longleftrightarrow> hp_Type p = ''s3'' \<and> (\<exists>s. hp_S3 p = Some s)"
  by (auto simp: HttpProvider_Validate_def server_const_defs)

lemma challenge_Validate_None:
  "ac_ChallengeType (sc_ACME c) \<in> {''dns'', ''http''} \<and> Supported (ac_Provider (sc_ACME c)) \<and>
     challenge_Validate c = None \<longleftrightarrow> challenge_ok c"
  by (auto simp: challenge_Validate_def challenge_ok_def server_const_defs
      DnsProvider_Validate_None HttpProvider_Validate_None split: option.splits)

lemma parseDuration_error:
  "snd (ServerConfig_parseDuration parse c) = None \<longleftrightarrow>
     parse (ac_CertLifeTime (sc_ACME c)) \<noteq> None \<and> parse (ac_RenewTimeLeft (sc_ACME c)) \<noteq> None"
  by (auto simp: ServerConfig_parseDuration_def Let_def split: option.splits)

lemma parseDuration_frame [simp]:
  "sc_HttpServer (fst (ServerConfig_parseDuration parse c)) = sc_HttpServer c"
  "sc_GRPCSDSServer (fst (ServerConfig_parseDuration parse c)) = sc_GRPCSDSServer c"
  "sc_MTLS (fst (ServerConfig_parseDuration parse c)) = sc_MTLS c"
  by (simp_all add: ServerConfig_parseDuration_def Let_def split: option.splits)

lemma HttpServerConfig_Validate_error:
  "snd (HttpServerConfig_Validate h) = None \<longleftrightarrow>
     \<not> (hs_Enabled h \<and> hs_Secure h \<and> hs_Names h = [])"
  by (auto simp: HttpServerConfig_Validate_def Let_def)

lemma HttpServerConfig_Validate_frame [simp]:
  "hs_Enabled (fst (HttpServerConfig_Validate h)) = hs_Enabled h"
  "hs_AuthMethod (fst (HttpServerConfig_Validate h)) = hs_AuthMethod h"
  by (simp_all add: HttpServerConfig_Validate_def Let_def)

lemma MTLSConfig_Validate_None:
  "MTLSConfig_Validate exists m = None \<longleftrightarrow> mt_PEM m \<noteq> [] \<and> exists (mt_PEM m)"
  by (auto simp: MTLSConfig_Validate_def)

lemma GRPCServerConfig_Validate_None [simp]: "GRPCServerConfig_Validate g = None"
  by (simp add: GRPCServerConfig_Validate_def)

lemmas validate_parts =
  ACMEConfig_Validate_None parseDuration_error HttpServerConfig_Validate_error
  MTLSConfig_Validate_None

lemma ServerConfig_Validate_fst:
  "fst (ServerConfig_Validate parse exists c) =
     (let c2 = fst (ServerConfig_parseDuration parse c)
      in c2\<lparr>sc_HttpServer := fst (HttpServerConfig_Validate (sc_HttpServer c))\<rparr>)"
  by (simp add: ServerConfig_Validate_def Let_def case_prod_beta)

lemma Validate_ok_iff: "snd (ServerConfig_Validate parse exists c) = [] \<longleftrightarrow> config_ok parse exists c"
proof -
  have mtls: "needsMTLS ((fst (ServerConfig_parseDuration parse c))
      \<lparr>sc_HttpServer := fst (HttpServerConfig_Validate (sc_HttpServer c))\<rparr>) = needsMTLS c"
    by (simp add: needsMTLS_def)
  have "snd (ServerConfig_Validate parse exists c) = [] \<longleftrightarrow>
     ACMEConfig_Validate (sc_ACME c) = None \<and>
     (IsMock (ac_Provider (sc_ACME c)) \<or> challenge_Validate c = None) \<and>
     snd (ServerConfig_parseDuration parse c) = None \<and>
     snd (HttpServerConfig_Validate (sc_HttpServer c)) = None \<and>
     (needsMTLS c \<longrightarrow> MTLSConfig_Validate exists (sc_MTLS c) = None)"
    by (auto simp: ServerConfig_Validate_def Let_def case_prod_beta mtls)
  then show ?thesis
    unfolding config_ok_def validate_parts
    using challenge_Validate_None [of c] by argo
qed

section \<open>Properties\<close>


definition example_config :: ServerConfig where
  "example_config =
     \<lparr>sc_ACME = \<lparr>ac_ChallengeType = ''dns'', ac_Email = ''me@example.com'', ac_Provider = ''r3'',
        ac_RetryCount = 5, ac_CertLifeTime = ''168h'', ac_RenewTimeLeft = ''24h'',
        ac_AllowedDomains = [''example.com''], ac_CertLifeTimeDuration = 0,
        ac_RenewTimeLeftDuration = 0\<rparr>,
      sc_GoogleCloudCredential = Map.empty,
      sc_DnsProvider = Some \<lparr>dp_Type = ''cloudflare'', dp_DisableCompletePropagationRequirement = False,
        dp_Email = [], dp_APIKey = [], dp_AuthToken = ''t'', dp_ZoneToken = ''z'',
        dp_SecretID = [], dp_SecretKey = []\<rparr>,
      sc_HttpProvider = None, sc_MTLS = \<lparr>mt_PEM = []\<rparr>,
      sc_HttpServer = \<lparr>hs_Enabled = True, hs_Listen = '':10001'', hs_APIPath = ''api'',
        hs_AuthMethod = ''token'', hs_Secure = False, hs_Names = [], hs_Token = ''secret''\<rparr>,
      sc_GRPCSDSServer = \<lparr>gs_Enabled = False, gs_Listen = '':10002''\<rparr>\<rparr>"

definition example_parse :: "string \<Rightarrow> duration option" where
  "example_parse s = (if s = ''168h'' then Some (168 * Hour) else if s = ''24h'' then Some (24 * Hour)
     else if s = ''10m'' then Some (10 * Minute) else None)"

lemma example_config_ok: "config_ok example_parse (\<lambda>_. False) example_config"
  by (simp add: config_ok_def challenge_ok_def dns_credentials_ok_def example_config_def
      example_parse_def Supported_iff needsMTLS_def HTTP_AUTH_MTLS_def)


text \<open>
  The defaults alone are never a valid server configuration of a real provider: a
  configuration that keeps the provider set by \<open>SetDefault\<close> is always rejected, whatever else is
  configured, because \<open>SetDefault\<close> leaves the provider empty.
\<close>

theorem default_provider_rejected:
  assumes "ac_Provider (sc_ACME c) = ac_Provider (sc_ACME (ServerConfig_SetDefault d))"
  shows "snd (ServerConfig_Validate parse exists c) \<noteq> []"
  using assms unfolding Validate_ok_iff
  by (simp add: config_ok_def challenge_ok_def ServerConfig_SetDefault_def)

theorem default_provider_rejected_witness:
  "snd (ServerConfig_Validate example_parse (\<lambda>_. True)
     (example_config\<lparr>sc_ACME := (sc_ACME example_config)\<lparr>ac_Provider := []\<rparr>\<rparr>)) \<noteq> []"
  by (rule default_provider_rejected [where d = example_config])
    (simp add: ServerConfig_SetDefault_def)

end
