(* ===== verification/Paths.thy ===== *)
theory Paths
  imports Go_Prelude
begin

text \<open>
  Package \<open>pkg/paths\<close>: where certdx keeps its files, and the functions of \<open>path/filepath\<close> it uses
  (for Unix path names). The operating system is a record of the answers it gives: the platform,
  the path of the executable, the targets of symbolic links, and the error, if any, of creating a
  directory or changing its mode.
\<close>

section \<open>Package path/filepath\<close>

text \<open>The elements of a cleaned path: empty and \<open>.\<close> elements are dropped, \<open>..\<close> removes the
  element before it. The accumulator is reversed.\<close>

fun clean_elems :: "bool \<Rightarrow> string list \<Rightarrow> string list \<Rightarrow> string list" where
  "clean_elems rooted acc [] = rev acc"
| "clean_elems rooted acc (e # es) =
     (if e = [] \<or> e = ''.'' then clean_elems rooted acc es
      else if e = ''..'' then
        (case acc of
           [] \<Rightarrow> if rooted then clean_elems rooted [] es else clean_elems rooted [e] es
         | a # acc' \<Rightarrow> if a = ''..'' then clean_elems rooted (e # acc) es
                      else clean_elems rooted acc' es)
      else clean_elems rooted (e # acc) es)"

definition Clean :: "string \<Rightarrow> string" where
  "Clean p =
     (if p = [] then ''.''
      else let rooted = (hd p = CHR ''/'');
               out = Join (clean_elems rooted [] (Split1 p (CHR ''/''))) ''/''
           in if rooted then CHR ''/'' # out else if out = [] then ''.'' else out)"

definition filepath_Join :: "string list \<Rightarrow> string" where
  "filepath_Join es =
     (case dropWhile (\<lambda>e. e = []) es of [] \<Rightarrow> [] | es' \<Rightarrow> Clean (Join es' ''/''))"

text \<open>Everything up to the last separator, cleaned.\<close>

definition filepath_Dir :: "string \<Rightarrow> string" where
  "filepath_Dir p = Clean (rev (dropWhile (\<lambda>c. c \<noteq> CHR ''/'') (rev p)))"

section \<open>Roots\<close>

record os_env =
  os_GOOS :: string
  os_Executable :: "string option"
  os_EvalSymlinks :: "string \<Rightarrow> string option"
  os_MkdirAll :: "string \<Rightarrow> nat \<Rightarrow> string option"
  os_Chmod :: "string \<Rightarrow> nat \<Rightarrow> string option"
  os_dataDirOverride :: string

definition SetDataDir :: "string \<Rightarrow> os_env \<Rightarrow> os_env" where
  "SetDataDir dir os = os\<lparr>os_dataDirOverride := dir\<rparr>"

definition isFHSInstall :: "os_env \<Rightarrow> bool" where
  "isFHSInstall os \<longleftrightarrow>
     os_GOOS os = ''linux'' \<and>
     (case os_Executable os of
        None \<Rightarrow> False
      | Some exe \<Rightarrow>
          filepath_Dir exe \<in> {''/usr/bin'', ''/usr/sbin'', ''/usr/local/bin'', ''/usr/local/sbin''})"

definition localBaseDir :: "os_env \<Rightarrow> string + string" where
  "localBaseDir os =
     (case os_Executable os of
        None \<Rightarrow> Inl ''executable''
      | Some exe \<Rightarrow>
          Inr (filepath_Dir (case os_EvalSymlinks os exe of Some r \<Rightarrow> r | None \<Rightarrow> exe)))"

definition configRoot :: "os_env \<Rightarrow> string + string" where
  "configRoot os =
     (if os_dataDirOverride os \<noteq> [] then Inr (os_dataDirOverride os)
      else if isFHSInstall os then Inr ''/etc/certdx''
      else localBaseDir os)"

definition stateRoot :: "os_env \<Rightarrow> string + string" where
  "stateRoot os =
     (if os_dataDirOverride os \<noteq> [] then Inr (os_dataDirOverride os)
      else if isFHSInstall os then Inr ''/var/lib/certdx''
      else localBaseDir os)"

section \<open>Files\<close>

text \<open>File modes are octal in the source: \<open>0o700\<close> is \<open>448\<close>, \<open>0o755\<close> is \<open>493\<close>.\<close>

definition MtlsDir :: "os_env \<Rightarrow> string + string" where
  "MtlsDir os =
     (case configRoot os of
        Inl e \<Rightarrow> Inl e
      | Inr root \<Rightarrow>
          let dir = filepath_Join [root, ''mtls''] in
          (case os_MkdirAll os dir 448 of
             Some e \<Rightarrow> Inl e
           | None \<Rightarrow> (case os_Chmod os dir 448 of Some e \<Rightarrow> Inl e | None \<Rightarrow> Inr dir)))"

definition in_MtlsDir :: "string \<Rightarrow> os_env \<Rightarrow> string + string" where
  "in_MtlsDir f os = (case MtlsDir os of Inl e \<Rightarrow> Inl e | Inr dir \<Rightarrow> Inr (filepath_Join [dir, f]))"

definition MtlsCAPath :: "os_env \<Rightarrow> string + string" where
  "MtlsCAPath os = in_MtlsDir ''ca.pem'' os"

definition CACounterPath :: "os_env \<Rightarrow> string + string" where
  "CACounterPath os = in_MtlsDir ''counter.txt'' os"

definition MtlsBundlePath :: "string \<Rightarrow> os_env \<Rightarrow> string + string" where
  "MtlsBundlePath name os = in_MtlsDir (name @ ''.pem'') os"

definition ACMEPrivateKey :: "string \<Rightarrow> string \<Rightarrow> os_env \<Rightarrow> string + string" where
  "ACMEPrivateKey email acmeProvider os =
     (case stateRoot os of
        Inl e \<Rightarrow> Inl e
      | Inr root \<Rightarrow>
          let saveDir = filepath_Join [root, ''private''] in
          (case os_MkdirAll os saveDir 448 of
             Some e \<Rightarrow> Inl e
           | None \<Rightarrow> Inr (filepath_Join [saveDir, email @ ''_'' @ acmeProvider @ ''.key''])))"

definition ServerCachePath :: "os_env \<Rightarrow> string + string" where
  "ServerCachePath os =
     (case stateRoot os of
        Inl e \<Rightarrow> Inl e
      | Inr root \<Rightarrow>
          (case os_MkdirAll os root 493 of
             Some e \<Rightarrow> Inl e
           | None \<Rightarrow> Inr (filepath_Join [root, ''cache.json''])))"

section \<open>Lemmas\<close>

text \<open>A name that is a single ordinary path element.\<close>

definition plain_elem :: "string \<Rightarrow> bool" where
  "plain_elem e \<longleftrightarrow> e \<noteq> [] \<and> e \<noteq> ''.'' \<and> e \<noteq> ''..'' \<and> CHR ''/'' \<notin> set e"

lemma clean_elems_plain [simp]:
  "list_all plain_elem es \<Longrightarrow> clean_elems rooted acc es = rev acc @ es"
  by (induction es arbitrary: acc) (auto simp: plain_elem_def)

lemma clean_elems_append_plain:
  "plain_elem e \<Longrightarrow> clean_elems rooted acc (es @ [e]) = clean_elems rooted acc es @ [e]"
  by (induction rooted acc es rule: clean_elems.induct) (auto simp: plain_elem_def split: list.splits)

text \<open>Below an absolute directory, a plain name is appended to the cleaned directory.\<close>

lemma filepath_Join_plain:
  assumes "dir \<noteq> []" "hd dir = CHR ''/''" "plain_elem e"
  shows "filepath_Join [dir, e] =
    CHR ''/'' # Join (clean_elems True [] (Split1 dir (CHR ''/'')) @ [e]) ''/''"
proof -
  have "Split1 (dir @ CHR ''/'' # e) (CHR ''/'') = Split1 dir (CHR ''/'') @ [e]"
    using assms(3) by (simp add: Split1_append Split1_id plain_elem_def)
  then show ?thesis
    using assms by (simp add: filepath_Join_def Clean_def Let_def clean_elems_append_plain)
qed

lemma Join_last_inj:
  "CHR ''/'' \<notin> set a \<Longrightarrow> CHR ''/'' \<notin> set b \<Longrightarrow> Join (xs @ [a]) ''/'' = Join (xs @ [b]) ''/'' \<Longrightarrow> a = b"
  by (cases "xs = []") (auto simp: Join_append)

text \<open>Under one absolute root, different plain names are different files.\<close>

lemma filepath_Join_plain_inj:
  assumes "dir \<noteq> []" "hd dir = CHR ''/''" "plain_elem a" "plain_elem b"
    and "filepath_Join [dir, a] = filepath_Join [dir, b]"
  shows "a = b"
  using assms by (auto simp: filepath_Join_plain plain_elem_def dest: Join_last_inj)

end
