(* ===== verification/Config_Client.thy ===== *)
theory Config_Client
  imports Config_Server Paths
begin

text \<open>
  \<open>pkg/config/client.go\<close>: the configuration of the client, its validation with the options that
  the updaters and the Caddy plugin pass, its defaults, and the paths of a certificate's files. As
  in \<open>Config_Server\<close>, \<open>parse\<close> is \<open>time.ParseDuration\<close> and \<open>exists\<close> is \<open>paths.FileExists\<close>.
\<close>

definition CLIENT_MODE_HTTP :: string where "CLIENT_MODE_HTTP = ''http''"
definition CLIENT_MODE_GRPC :: string where "CLIENT_MODE_GRPC = ''grpc''"

section \<open>Structs\<close>

record ClientCommonConfig =
  cc_RetryCount :: int
  cc_Mode :: string
  cc_ReconnectInterval :: string
  cc_ReconnectDuration :: duration

record ClientHttpServer =
  ch_Url :: string
  ch_AuthMethod :: string
  ch_Token :: string
  ch_PEM :: string

record ClientGRPCServer =
  cg_Server :: string
  cg_PEM :: string

record ClientCertification =
  cf_Name :: string
  cf_SavePath :: string
  cf_Domains :: "string list"
  cf_ReloadCommand :: string

record ClientConfig =
  cl_Common :: ClientCommonConfig
  cl_HttpMain :: ClientHttpServer
  cl_HttpStandby :: ClientHttpServer
  cl_GRPCMain :: ClientGRPCServer
  cl_GRPCStandby :: ClientGRPCServer
  cl_Certifications :: "ClientCertification list"

record validatingConfiguration =
  vc_acceptEmptyCertificateSavePath :: bool
  vc_acceptEmptyCertificatesList :: bool

type_synonym ValidatingOption = "validatingConfiguration \<Rightarrow> validatingConfiguration"

datatype client_error =
    ParseReconnectInterval
  | NoCertification
  | WrongCertification string
  | HttpMainUrlEmpty
  | GrpcMainServerEmpty
  | PemNotFound string
  | UnsupportedMode string
  | EmptySavePath

section \<open>Validation\<close>

definition makeValidatingConfiguration :: validatingConfiguration where
  "makeValidatingConfiguration =
     \<lparr>vc_acceptEmptyCertificateSavePath = False, vc_acceptEmptyCertificatesList = False\<rparr>"

definition WithAcceptEmptyCertificateSavePath :: "bool \<Rightarrow> ValidatingOption" where
  "WithAcceptEmptyCertificateSavePath b v = v\<lparr>vc_acceptEmptyCertificateSavePath := b\<rparr>"

definition WithAcceptEmptyCertificatesList :: "bool \<Rightarrow> ValidatingOption" where
  "WithAcceptEmptyCertificatesList b v = v\<lparr>vc_acceptEmptyCertificatesList := b\<rparr>"

definition ClientMtlsConfig_Validate :: "(string \<Rightarrow> bool) \<Rightarrow> string \<Rightarrow> client_error option" where
  "ClientMtlsConfig_Validate exists pem = (if \<not> exists pem then Some (PemNotFound pem) else None)"

definition ClientHttpServer_Validate :: "(string \<Rightarrow> bool) \<Rightarrow> ClientHttpServer \<Rightarrow> client_error option" where
  "ClientHttpServer_Validate exists c =
     (if ch_AuthMethod c = HTTP_AUTH_MTLS then ClientMtlsConfig_Validate exists (ch_PEM c) else None)"

definition ClientGRPCServer_Validate :: "(string \<Rightarrow> bool) \<Rightarrow> ClientGRPCServer \<Rightarrow> client_error option" where
  "ClientGRPCServer_Validate exists c = ClientMtlsConfig_Validate exists (cg_PEM c)"

definition ClientCertification_Validate ::
    "validatingConfiguration \<Rightarrow> ClientCertification \<Rightarrow> client_error option" where
  "ClientCertification_Validate option' c =
     (let savePathAccepted = (cf_SavePath c \<noteq> [] \<or>
            (vc_acceptEmptyCertificateSavePath option' \<and> length (cf_SavePath c) = 0))
      in if length (cf_Domains c) = 0 \<or> cf_Name c = [] \<or> \<not> savePathAccepted
         then Some (WrongCertification (cf_Name c)) else None)"

definition ClientConfig_parseDuration ::
    "(string \<Rightarrow> duration option) \<Rightarrow> ClientConfig \<Rightarrow> ClientConfig \<times> client_error option" where
  "ClientConfig_parseDuration parse c =
     (case parse (cc_ReconnectInterval (cl_Common c)) of
        None \<Rightarrow> (c\<lparr>cl_Common := (cl_Common c)\<lparr>cc_ReconnectDuration := 0\<rparr>\<rparr>, Some ParseReconnectInterval)
      | Some d \<Rightarrow> (c\<lparr>cl_Common := (cl_Common c)\<lparr>cc_ReconnectDuration := d\<rparr>\<rparr>, None))"

definition validateHttpMode :: "(string \<Rightarrow> bool) \<Rightarrow> ClientConfig \<Rightarrow> client_error option" where
  "validateHttpMode exists c =
     (if ch_Url (cl_HttpMain c) = [] then Some HttpMainUrlEmpty
      else (case ClientHttpServer_Validate exists (cl_HttpMain c) of
          Some e \<Rightarrow> Some e
        | None \<Rightarrow>
            if ch_Url (cl_HttpStandby c) \<noteq> [] then ClientHttpServer_Validate exists (cl_HttpStandby c)
            else None))"

definition validateGrpcMode :: "(string \<Rightarrow> bool) \<Rightarrow> ClientConfig \<Rightarrow> client_error option" where
  "validateGrpcMode exists c =
     (if cg_Server (cl_GRPCMain c) = [] then Some GrpcMainServerEmpty
      else (case ClientGRPCServer_Validate exists (cl_GRPCMain c) of
          Some e \<Rightarrow> Some e
        | None \<Rightarrow>
            if cg_Server (cl_GRPCStandby c) \<noteq> [] then ClientGRPCServer_Validate exists (cl_GRPCStandby c)
            else None))"

definition validateMode :: "(string \<Rightarrow> bool) \<Rightarrow> ClientConfig \<Rightarrow> client_error option" where
  "validateMode exists c =
     (if cc_Mode (cl_Common c) = CLIENT_MODE_HTTP then validateHttpMode exists c
      else if cc_Mode (cl_Common c) = CLIENT_MODE_GRPC then validateGrpcMode exists c
      else Some (UnsupportedMode (cc_Mode (cl_Common c))))"

definition ClientConfig_Validate ::
    "(string \<Rightarrow> duration option) \<Rightarrow> (string \<Rightarrow> bool) \<Rightarrow> ValidatingOption list \<Rightarrow> ClientConfig \<Rightarrow>
     ClientConfig \<times> client_error list" where
  "ClientConfig_Validate parse exists optionList c =
     (let option' = foldl (\<lambda>v it. it v) makeValidatingConfiguration optionList;
          (c1, e1) = ClientConfig_parseDuration parse c;
          ret1 = collect [] e1;
          ret2 = (if length (cl_Certifications c1) = 0 \<and> \<not> vc_acceptEmptyCertificatesList option'
                  then ret1 @ [NoCertification] else ret1);
          ret3 = foldl (\<lambda>ret cert. collect ret (ClientCertification_Validate option' cert)) ret2
                   (cl_Certifications c1)
      in (c1, collect ret3 (validateMode exists c1)))"

definition ClientConfig_SetDefault :: "ClientConfig \<Rightarrow> ClientConfig" where
  "ClientConfig_SetDefault c =
     c\<lparr>cl_Common := \<lparr>cc_RetryCount = 5, cc_Mode = CLIENT_MODE_HTTP, cc_ReconnectInterval = ''10m'',
         cc_ReconnectDuration = 0\<rparr>,
       cl_HttpMain := (cl_HttpMain c)\<lparr>ch_AuthMethod := HTTP_AUTH_TOKEN\<rparr>,
       cl_HttpStandby := (cl_HttpStandby c)\<lparr>ch_AuthMethod := HTTP_AUTH_TOKEN\<rparr>\<rparr>"

definition GetFullChainAndKeyPath :: "ClientCertification \<Rightarrow> client_error + string \<times> string" where
  "GetFullChainAndKeyPath c =
     (if length (cf_SavePath c) = 0 \<or> length (cf_Name c) = 0 then Inl EmptySavePath
      else Inr (filepath_Join [cf_SavePath c, cf_Name c @ ''.pem''],
                filepath_Join [cf_SavePath c, cf_Name c @ ''.key'']))"

section \<open>Lemmas\<close>

definition server_ok :: "(string \<Rightarrow> bool) \<Rightarrow> ClientHttpServer \<Rightarrow> bool" where
  "server_ok exists c \<longleftrightarrow> (ch_AuthMethod c = HTTP_AUTH_MTLS \<longrightarrow> exists (ch_PEM c))"

text \<open>What validation means, declaratively.\<close>

definition client_config_ok ::
    "(string \<Rightarrow> duration option) \<Rightarrow> (string \<Rightarrow> bool) \<Rightarrow> validatingConfiguration \<Rightarrow> ClientConfig \<Rightarrow> bool" where
  "client_config_ok parse exists v c \<longleftrightarrow>
     parse (cc_ReconnectInterval (cl_Common c)) \<noteq> None \<and>
     (cl_Certifications c \<noteq> [] \<or> vc_acceptEmptyCertificatesList v) \<and>
     (\<forall>x \<in> set (cl_Certifications c). cf_Domains x \<noteq> [] \<and> cf_Name x \<noteq> [] \<and>
        (cf_SavePath x \<noteq> [] \<or> vc_acceptEmptyCertificateSavePath v)) \<and>
     (cc_Mode (cl_Common c) = CLIENT_MODE_HTTP \<and> ch_Url (cl_HttpMain c) \<noteq> [] \<and>
        server_ok exists (cl_HttpMain c) \<and>
        (ch_Url (cl_HttpStandby c) = [] \<or> server_ok exists (cl_HttpStandby c)) \<or>
      cc_Mode (cl_Common c) = CLIENT_MODE_GRPC \<and> cg_Server (cl_GRPCMain c) \<noteq> [] \<and>
        exists (cg_PEM (cl_GRPCMain c)) \<and>
        (cg_Server (cl_GRPCStandby c) = [] \<or> exists (cg_PEM (cl_GRPCStandby c))))"

lemma collect_certs_Nil:
  "foldl (\<lambda>ret x. collect ret (f x)) ret xs = [] \<longleftrightarrow> ret = [] \<and> (\<forall>x \<in> set xs. f x = None)"
  by (induction xs arbitrary: ret) auto

lemma ClientCertification_Validate_None:
  "ClientCertification_Validate v c = None \<longleftrightarrow> cf_Domains c \<noteq> [] \<and> cf_Name c \<noteq> [] \<and>
     (cf_SavePath c \<noteq> [] \<or> vc_acceptEmptyCertificateSavePath v)"
  by (auto simp: ClientCertification_Validate_def Let_def)

lemma modes_distinct [simp]: "CLIENT_MODE_GRPC \<noteq> CLIENT_MODE_HTTP"
  by (simp add: CLIENT_MODE_GRPC_def CLIENT_MODE_HTTP_def)

lemma validateMode_None:
  "validateMode exists c = None \<longleftrightarrow>
     cc_Mode (cl_Common c) = CLIENT_MODE_HTTP \<and> ch_Url (cl_HttpMain c) \<noteq> [] \<and>
        server_ok exists (cl_HttpMain c) \<and>
        (ch_Url (cl_HttpStandby c) = [] \<or> server_ok exists (cl_HttpStandby c)) \<or>
      cc_Mode (cl_Common c) = CLIENT_MODE_GRPC \<and> cg_Server (cl_GRPCMain c) \<noteq> [] \<and>
        exists (cg_PEM (cl_GRPCMain c)) \<and>
        (cg_Server (cl_GRPCStandby c) = [] \<or> exists (cg_PEM (cl_GRPCStandby c)))"
  by (auto simp: validateMode_def validateHttpMode_def validateGrpcMode_def server_ok_def
      ClientHttpServer_Validate_def ClientGRPCServer_Validate_def ClientMtlsConfig_Validate_def
      split: option.splits)

lemma ClientConfig_Validate_iff:
  "snd (ClientConfig_Validate parse exists os c) = [] \<longleftrightarrow>
     client_config_ok parse exists (foldl (\<lambda>v it. it v) makeValidatingConfiguration os) c"
  by (auto simp: ClientConfig_Validate_def ClientConfig_parseDuration_def Let_def client_config_ok_def
      collect_certs_Nil ClientCertification_Validate_None validateMode_None split: option.splits)

text \<open>A validated certificate with a save path has two different files.\<close>

lemma GetFullChainAndKeyPath_distinct:
  assumes "GetFullChainAndKeyPath c = Inr (cert, key)" "hd (cf_SavePath c) = CHR ''/''"
    and "plain_elem (cf_Name c)"
  shows "cert \<noteq> key"
proof
  assume "cert = key"
  moreover have "plain_elem (cf_Name c @ ''.pem'')" "plain_elem (cf_Name c @ ''.key'')"
    using assms(3) by (auto simp: plain_elem_def Cons_eq_append_conv append_eq_Cons_conv)
  ultimately have "cf_Name c @ ''.pem'' = cf_Name c @ ''.key''"
    using assms(1,2) filepath_Join_plain_inj [of "cf_SavePath c"]
    by (auto simp: GetFullChainAndKeyPath_def split: if_splits)
  then show False by simp
qed

end
