(* ===== verification/Handler.thy ===== *)
theory Handler
  imports Config_Client
begin

text \<open>
  \<open>pkg/client/handler.go\<close>: how the client puts a certificate on disk. The file system is a map from
  names to contents with a mode. Every system call is one step; the functions return the states the
  file system passes through, so that a property of all of them is a property of what another
  process, or the next start after a crash, may see. The results of the calls are the fields of the
  records below: any of them may fail.
\<close>

type_synonym fs = "string \<rightharpoonup> bytes \<times> nat"

text \<open>Modes are octal in the source: \<open>0o644\<close> is \<open>420\<close>, \<open>0o600\<close> is \<open>384\<close>, \<open>0o755\<close> is \<open>493\<close>.
  \<open>os.CreateTemp\<close> creates a file of mode \<open>0o600\<close>.\<close>

definition permCertDir :: nat where "permCertDir = 493"
definition permCertFile :: nat where "permCertFile = 420"
definition permKeyFile :: nat where "permKeyFile = 384"

lemmas perm_defs = permCertDir_def permCertFile_def permKeyFile_def

section \<open>System calls\<close>

datatype stat_result = StatOk | StatNotExist | StatErr string

record dir_io =
  di_statFile :: stat_result
  di_statDir :: stat_result
  di_MkdirAll :: "string option"      \<comment> \<open>the error\<close>

record temp_io =
  ti_name :: "string option"          \<comment> \<open>the name \<open>CreateTemp\<close> chose, or its failure\<close>
  ti_partial :: "bytes option"        \<comment> \<open>what a failing \<open>Write\<close> left in the file\<close>
  ti_chmodErr :: bool
  ti_closeErr :: bool
  ti_removeErr :: bool                \<comment> \<open>\<open>os.Remove\<close> of the file fails; its error is ignored\<close>

datatype handler_error =
    HStat string
  | HMkdir string
  | HCreateTemp
  | HWrite
  | HChmod
  | HClose
  | HRenameCert
  | HRenameKey

section \<open>Operations\<close>

definition ensureParentDir :: "dir_io \<Rightarrow> handler_error + bool" where
  "ensureParentDir d =
     (case di_statFile d of
        StatOk \<Rightarrow> Inr True
      | StatErr e \<Rightarrow> Inl (HStat e)
      | StatNotExist \<Rightarrow>
          (case di_statDir d of
             StatNotExist \<Rightarrow> (case di_MkdirAll d of Some e \<Rightarrow> Inl (HMkdir e) | None \<Rightarrow> Inr False)
           | StatErr e \<Rightarrow> Inl (HStat e)
           | StatOk \<Rightarrow> Inr False))"

text \<open>\<open>os.Remove\<close>, whose error every caller discards: when it fails the file stays.\<close>

definition Remove :: "bool \<Rightarrow> string \<Rightarrow> fs \<Rightarrow> fs" where
  "Remove fails name fs = (if fails then fs else fs(name := None))"

text \<open>The states after each call, the state at the end, and the name of the file or an error.\<close>

definition prepareTempFile ::
    "temp_io \<Rightarrow> bytes \<Rightarrow> nat \<Rightarrow> fs \<Rightarrow> fs list \<times> fs \<times> (handler_error + string)" where
  "prepareTempFile io data mode fs =
     (case ti_name io of
        None \<Rightarrow> ([], fs, Inl HCreateTemp)
      | Some name \<Rightarrow>
          let created = fs(name \<mapsto> ([], permKeyFile)) in
          (case ti_partial io of
             Some part \<Rightarrow>
               let written = created(name \<mapsto> (part, permKeyFile)); out = Remove (ti_removeErr io) name written
               in ([created, written, out], out, Inl HWrite)
           | None \<Rightarrow>
               let written = created(name \<mapsto> (data, permKeyFile)) in
               if ti_chmodErr io then
                 let out = Remove (ti_removeErr io) name written in ([created, written, out], out, Inl HChmod)
               else
                 let moded = written(name \<mapsto> (data, mode)) in
                 if ti_closeErr io then
                   let out = Remove (ti_removeErr io) name moded in ([created, written, moded, out], out, Inl HClose)
                 else ([created, written, moded], moded, Inr name)))"

definition rename :: "string \<Rightarrow> string \<Rightarrow> fs \<Rightarrow> fs" where
  "rename old new fs = fs(new := fs old, old := None)"

text \<open>The deferred removals run in the reverse order; a file that was renamed is gone already.\<close>

definition writeCertKeyPairAtomic ::
    "temp_io \<Rightarrow> temp_io \<Rightarrow> bool \<Rightarrow> bool \<Rightarrow> string \<Rightarrow> bytes \<Rightarrow> string \<Rightarrow> bytes \<Rightarrow> fs \<Rightarrow>
     fs list \<times> fs \<times> handler_error option" where
  "writeCertKeyPairAtomic cio kio renameCertErr renameKeyErr certPath fullchain keyPath key fs =
     (case prepareTempFile cio fullchain permCertFile fs of
        (tr1, fs1, Inl e) \<Rightarrow> (tr1, fs1, Some e)
      | (tr1, fs1, Inr certTmp) \<Rightarrow>
          (case prepareTempFile kio key permKeyFile fs1 of
             (tr2, fs2, Inl e) \<Rightarrow>
               (let out = Remove (ti_removeErr cio) certTmp fs2 in (tr1 @ tr2 @ [out], out, Some e))
           | (tr2, fs2, Inr keyTmp) \<Rightarrow>
               if renameCertErr then
                 (let a = Remove (ti_removeErr kio) keyTmp fs2; out = Remove (ti_removeErr cio) certTmp a
                  in (tr1 @ tr2 @ [a, out], out, Some HRenameCert))
               else
                 let fs3 = rename certTmp certPath fs2 in
                 if renameKeyErr then
                   (let a = Remove (ti_removeErr kio) keyTmp fs3; out = Remove (ti_removeErr cio) certTmp a
                    in (tr1 @ tr2 @ [fs3, a, out], out, Some HRenameKey))
                 else
                   (let fs4 = rename keyTmp keyPath fs3; a = Remove (ti_removeErr kio) keyTmp fs4;
                        out = Remove (ti_removeErr cio) certTmp a
                    in (tr1 @ tr2 @ [fs3, fs4, a, out], out, None))))"

text \<open>The answers of the operating system to one call of the handler.\<close>

record handler_io =
  hi_certDir :: dir_io
  hi_keyDir :: dir_io
  hi_certTmp :: temp_io
  hi_keyTmp :: temp_io
  hi_renameCertErr :: bool
  hi_renameKeyErr :: bool

text \<open>\<open>writeCertAndDoCommand\<close>: the states of the file system, the last one, the error that is
  logged, if any, and the command that is run, if any.\<close>

definition writeCertAndDoCommand ::
    "(string \<Rightarrow> string list) \<Rightarrow> handler_io \<Rightarrow> bytes \<Rightarrow> bytes \<Rightarrow> ClientCertification \<Rightarrow> fs \<Rightarrow>
     fs list \<times> fs \<times> handler_error option \<times> string list option" where
  "writeCertAndDoCommand fw io fullchain key c fs =
     (case GetFullChainAndKeyPath c of
        Inl _ \<Rightarrow> ([], fs, None, None)
      | Inr (certPath, keyPath) \<Rightarrow>
          (case ensureParentDir (hi_certDir io) of
             Inl e \<Rightarrow> ([], fs, Some e, None)
           | Inr certExists \<Rightarrow>
               (case ensureParentDir (hi_keyDir io) of
                  Inl e \<Rightarrow> ([], fs, Some e, None)
                | Inr keyExists \<Rightarrow>
                    (case writeCertKeyPairAtomic (hi_certTmp io) (hi_keyTmp io) (hi_renameCertErr io)
                            (hi_renameKeyErr io) certPath fullchain keyPath key fs of
                       (tr, fs', Some e) \<Rightarrow> (tr, fs', Some e, None)
                     | (tr, fs', None) \<Rightarrow>
                         (tr, fs', None,
                          if certExists \<and> keyExists \<and> Fields fw (cf_ReloadCommand c) \<noteq> []
                          then Some (Fields fw (cf_ReloadCommand c)) else None)))))"

section \<open>Lemmas\<close>

text \<open>A temporary name is new: what \<open>os.CreateTemp\<close> guarantees.\<close>

definition fresh_name :: "temp_io \<Rightarrow> fs \<Rightarrow> bool" where
  "fresh_name io fs \<longleftrightarrow> (\<forall>n. ti_name io = Some n \<longrightarrow> fs n = None)"

text \<open>A state that differs from another one at most in what is left of the temporary file of
  \<open>io\<close>, and only when its removal fails.\<close>

definition upto_left :: "temp_io \<Rightarrow> fs \<Rightarrow> fs \<Rightarrow> bool" where
  "upto_left io s s' \<longleftrightarrow> (\<forall>p. s p = s' p \<or> ti_name io = Some p \<and> ti_removeErr io)"

lemma prepareTempFile_effect:
  assumes "prepareTempFile io data mode fs = (tr, fs', r)" "fresh_name io fs"
  shows "(\<forall>e. r = Inl e \<longrightarrow> upto_left io fs' fs \<and> e \<noteq> HRenameKey \<and> fs' \<in> insert fs (set tr)) \<and>
    (\<forall>n. r = Inr n \<longrightarrow> ti_name io = Some n \<and> fs n = None \<and> fs' = fs(n \<mapsto> (data, mode))) \<and>
    (\<forall>s \<in> set tr. \<forall>p. s p = fs p \<or> ti_name io = Some p \<and>
       (s p = None \<or> (\<exists>d. s p = Some (d, permKeyFile)) \<or> s p = Some (data, mode)))"
  using assms
  by (auto simp: prepareTempFile_def fresh_name_def Let_def Remove_def upto_left_def split: option.splits if_splits)

text \<open>The five ways of \<open>writeCertKeyPairAtomic\<close>, in terms of the two temporary files.\<close>

lemma writeCertKeyPairAtomic_cases:
  assumes "writeCertKeyPairAtomic cio kio rc rk certPath fullchain keyPath key fs = (tr, fs', err)"
  obtains (cert_fails) e where "prepareTempFile cio fullchain permCertFile fs = (tr, fs', Inl e)" "err = Some e"
  | (key_fails) ct tr1 fs1 tr2 fs2 e where
      "prepareTempFile cio fullchain permCertFile fs = (tr1, fs1, Inr ct)"
      "prepareTempFile kio key permKeyFile fs1 = (tr2, fs2, Inl e)"
      "tr = tr1 @ tr2 @ [fs']" "fs' = Remove (ti_removeErr cio) ct fs2" "err = Some e"
  | (prepared) ct tr1 fs1 kt tr2 fs2 s mid where
      "prepareTempFile cio fullchain permCertFile fs = (tr1, fs1, Inr ct)"
      "prepareTempFile kio key permKeyFile fs1 = (tr2, fs2, Inr kt)"
      "tr = tr1 @ tr2 @ mid @ [Remove (ti_removeErr kio) kt s, fs']"
      "fs' = Remove (ti_removeErr cio) ct (Remove (ti_removeErr kio) kt s)"
      "rc \<and> mid = [] \<and> s = fs2 \<and> err = Some HRenameCert \<or>
       \<not> rc \<and> rk \<and> mid = [s] \<and> s = rename ct certPath fs2 \<and> err = Some HRenameKey \<or>
       \<not> rc \<and> \<not> rk \<and> mid = [rename ct certPath fs2, s] \<and> s = rename kt keyPath (rename ct certPath fs2) \<and> err = None"
  using assms
  by (cases "prepareTempFile cio fullchain permCertFile fs" rule: prod_cases3)
    (auto simp: writeCertKeyPairAtomic_def Let_def split: sum.splits prod.splits if_splits)

text \<open>Temporary names that do not clash with a file of the directory or with each other.\<close>

definition temps_ok :: "temp_io \<Rightarrow> temp_io \<Rightarrow> string \<Rightarrow> string \<Rightarrow> fs \<Rightarrow> bool" where
  "temps_ok cio kio certPath keyPath fs \<longleftrightarrow>
     fresh_name cio fs \<and> fresh_name kio fs \<and> certPath \<noteq> keyPath \<and>
     (\<forall>n. ti_name cio = Some n \<longrightarrow> n \<noteq> certPath \<and> n \<noteq> keyPath \<and> ti_name kio \<noteq> Some n) \<and>
     (\<forall>n. ti_name kio = Some n \<longrightarrow> n \<noteq> certPath \<and> n \<noteq> keyPath)"

text \<open>What a state of the file system may differ in while the pair is written.\<close>

definition pair_state :: "temp_io \<Rightarrow> temp_io \<Rightarrow> string \<Rightarrow> bytes \<Rightarrow> string \<Rightarrow> bytes \<Rightarrow> fs \<Rightarrow> fs \<Rightarrow> bool" where
  "pair_state cio kio certPath fullchain keyPath key fs s \<longleftrightarrow>
     (s certPath = fs certPath \<or> s certPath = Some (fullchain, permCertFile)) \<and>
     (s keyPath = fs keyPath \<or> s keyPath = Some (key, permKeyFile)) \<and>
     (s keyPath = fs keyPath \<or> s certPath = Some (fullchain, permCertFile)) \<and>
     (\<forall>n d m. ti_name kio = Some n \<longrightarrow> s n = Some (d, m) \<longrightarrow> m = permKeyFile) \<and>
     (\<forall>p. p \<noteq> certPath \<longrightarrow> p \<noteq> keyPath \<longrightarrow> ti_name cio \<noteq> Some p \<longrightarrow> ti_name kio \<noteq> Some p \<longrightarrow> s p = fs p)"

lemma pair_state_temp:
  assumes "temps_ok cio kio certPath keyPath fs" "\<And>p. s p = fs p \<or> ti_name cio = Some p"
  shows "pair_state cio kio certPath fullchain keyPath key fs s"
  using assms unfolding pair_state_def temps_ok_def fresh_name_def by (metis option.distinct(1))

lemma pair_state_temps:
  assumes "temps_ok cio kio certPath keyPath fs"
    and "\<And>p. s p = fs p \<or> ti_name cio = Some p \<or>
      ti_name kio = Some p \<and> (s p = None \<or> (\<exists>d. s p = Some (d, permKeyFile)))"
  shows "pair_state cio kio certPath fullchain keyPath key fs s"
proof -
  have "s certPath = fs certPath" "s keyPath = fs keyPath"
    using assms unfolding temps_ok_def by metis+
  moreover have "m = permKeyFile" if "ti_name kio = Some n" "s n = Some (d, m)" for n d m
    using assms that unfolding temps_ok_def fresh_name_def by (metis option.distinct(1) option.inject prod.inject)
  ultimately show ?thesis
    using assms(2) unfolding pair_state_def by metis
qed

lemma pair_state_Remove:
  assumes "temps_ok cio kio certPath keyPath fs" "ti_name cio = Some n \<or> ti_name kio = Some n"
    and "pair_state cio kio certPath fullchain keyPath key fs s"
  shows "pair_state cio kio certPath fullchain keyPath key fs (Remove b n s)"
  using assms by (auto simp: pair_state_def temps_ok_def Remove_def)

text \<open>The states after both temporary files are prepared.\<close>

lemma prepared_states:
  assumes ok: "temps_ok cio kio certPath keyPath fs" and ct: "ti_name cio = Some ct" and kt: "ti_name kio = Some kt"
    and fs2: "fs2 = fs(ct \<mapsto> (fullchain, permCertFile), kt \<mapsto> (key, permKeyFile))"
  shows "pair_state cio kio certPath fullchain keyPath key fs fs2"
    and "pair_state cio kio certPath fullchain keyPath key fs (rename ct certPath fs2)"
    and "pair_state cio kio certPath fullchain keyPath key fs (rename kt keyPath (rename ct certPath fs2))"
    and "rename ct certPath fs2 = fs(certPath \<mapsto> (fullchain, permCertFile), kt \<mapsto> (key, permKeyFile))"
    and "rename kt keyPath (rename ct certPath fs2)
      = fs(certPath \<mapsto> (fullchain, permCertFile), keyPath \<mapsto> (key, permKeyFile))"
  using ok unfolding temps_ok_def fresh_name_def ct kt
  by (auto simp: fs2 pair_state_def rename_def ct kt fun_eq_iff)

lemma Remove_absent: "fs n = None \<Longrightarrow> Remove b n fs = fs"
  by (auto simp: Remove_def)

text \<open>Preparing the certificate's file, and then the key's, only touches temporary files.\<close>

lemma prepare_states:
  assumes ok: "temps_ok cio kio certPath keyPath fs"
    and p1: "prepareTempFile cio fullchain permCertFile fs = (tr1, fs1, Inr ct)"
    and p2: "prepareTempFile kio key permKeyFile fs1 = (tr2, fs2, r)"
  shows "\<forall>s \<in> set (tr1 @ tr2). pair_state cio kio certPath fullchain keyPath key fs s"
    and "r = Inl e \<Longrightarrow> upto_left kio fs2 (fs(ct \<mapsto> (fullchain, permCertFile))) \<and> e \<noteq> HRenameKey \<and>
      pair_state cio kio certPath fullchain keyPath key fs fs2"
    and "r = Inr kt \<Longrightarrow> fs2 = fs(ct \<mapsto> (fullchain, permCertFile), kt \<mapsto> (key, permKeyFile)) \<and> ti_name kio = Some kt"
    and "ti_name cio = Some ct"
proof -
  have fresh: "fresh_name cio fs"
    using ok by (simp add: temps_ok_def)
  note e1 = prepareTempFile_effect [OF p1 fresh]
  have ct: "ti_name cio = Some ct" "fs1 = fs(ct \<mapsto> (fullchain, permCertFile))" "fs ct = None"
    using e1 by auto
  have "fresh_name kio fs1"
    using ok ct by (auto simp: temps_ok_def fresh_name_def)
  note e2 = prepareTempFile_effect [OF p2 this]
  show "ti_name cio = Some ct" using ct(1) .
  show "r = Inr kt \<Longrightarrow> fs2 = fs(ct \<mapsto> (fullchain, permCertFile), kt \<mapsto> (key, permKeyFile)) \<and> ti_name kio = Some kt"
    using e2 ct by auto
  have s1: "pair_state cio kio certPath fullchain keyPath key fs s" if "s \<in> insert fs1 (set tr1)" for s
    by (rule pair_state_temp [OF ok]) (use e1 ct that in auto)
  have s2: "pair_state cio kio certPath fullchain keyPath key fs s" if "s \<in> set tr2" for s
  proof (rule pair_state_temps [OF ok])
    fix p
    have "s p = fs1 p \<or> ti_name kio = Some p \<and> (s p = None \<or> (\<exists>d. s p = Some (d, permKeyFile)))"
      using e2 that by blast
    then show "s p = fs p \<or> ti_name cio = Some p \<or>
        ti_name kio = Some p \<and> (s p = None \<or> (\<exists>d. s p = Some (d, permKeyFile)))"
      using ct by auto
  qed
  show "\<forall>s \<in> set (tr1 @ tr2). pair_state cio kio certPath fullchain keyPath key fs s"
    using s1 s2 by auto
  show "upto_left kio fs2 (fs(ct \<mapsto> (fullchain, permCertFile))) \<and> e \<noteq> HRenameKey \<and>
      pair_state cio kio certPath fullchain keyPath key fs fs2" if "r = Inl e"
    using e2 ct(2) s1 s2 that by auto
qed

lemma atomic_success:
  assumes "writeCertKeyPairAtomic cio kio rc rk certPath fullchain keyPath key fs = (tr, fs', None)"
    and ok: "temps_ok cio kio certPath keyPath fs"
  shows "fs' = fs(certPath \<mapsto> (fullchain, 420), keyPath \<mapsto> (key, 384))"
  using assms(1)
proof (cases rule: writeCertKeyPairAtomic_cases)
  case (prepared ct tr1 fs1 kt tr2 fs2 s mid)
  have fs2: "fs2 = fs(ct \<mapsto> (fullchain, permCertFile), kt \<mapsto> (key, permKeyFile))"
    and names: "ti_name cio = Some ct" "ti_name kio = Some kt"
    using prepare_states(3,4) [OF ok prepared(1,2)] by auto
  have s: "s = fs(certPath \<mapsto> (fullchain, permCertFile), keyPath \<mapsto> (key, permKeyFile))"
    using prepared(5) prepared_states(5) [OF ok names fs2] by simp
  then have "s ct = None" "s kt = None"
    using ok names by (auto simp: temps_ok_def fresh_name_def)
  then show ?thesis
    using prepared(4) s by (simp add: Remove_absent perm_defs)
qed simp_all

section \<open>Properties\<close>

text \<open>
  C13: Writing a certificate and its key is atomic for each file, whichever system call fails: in
  every state the file system passes through, the last one included, each of the two files has its
  old content or its new content with its mode, the key is never replaced before the certificate,
  the temporary file of the key is readable by its owner only, and no other file is touched. At the
  end both files are new on success and both are old on a failure, except when the second rename
  fails, which leaves the new certificate beside the old key. A temporary file is left only after a
  failure, and only one whose removal failed too (the error of \<open>os.Remove\<close> is ignored); a
  certificate that was renamed into place leaves none.
\<close>

theorem writeCertKeyPairAtomic_atomic:
  assumes "writeCertKeyPairAtomic cio kio rc rk certPath fullchain keyPath key fs = (tr, fs', err)"
    and ok: "temps_ok cio kio certPath keyPath fs"
  shows "(\<forall>s \<in> insert fs' (set tr). pair_state cio kio certPath fullchain keyPath key fs s) \<and>
    (\<forall>p. fs' p = (case err of
        None \<Rightarrow> fs(certPath \<mapsto> (fullchain, 420), keyPath \<mapsto> (key, 384))
      | Some HRenameKey \<Rightarrow> fs(certPath \<mapsto> (fullchain, 420))
      | Some _ \<Rightarrow> fs) p \<or>
      err \<noteq> None \<and> (ti_name kio = Some p \<and> ti_removeErr kio \<or>
        ti_name cio = Some p \<and> ti_removeErr cio \<and> err \<noteq> Some HRenameKey))"
  using assms(1)
proof (cases rule: writeCertKeyPairAtomic_cases)
  case (cert_fails e)
  have "fresh_name cio fs" using ok by (simp add: temps_ok_def)
  note eff = prepareTempFile_effect [OF cert_fails(1) this]
  have "pair_state cio kio certPath fullchain keyPath key fs s" if "s \<in> insert fs (set tr)" for s
    by (rule pair_state_temp [OF ok]) (use eff that in blast)
  then show ?thesis
    using eff cert_fails(2) by (cases e) (auto simp: upto_left_def)
next
  case (key_fails ct tr1 fs1 tr2 fs2 e)
  note st = prepare_states [OF ok key_fails(1,2)]
  have "pair_state cio kio certPath fullchain keyPath key fs fs'"
    using pair_state_Remove [OF ok] st(2,4) key_fails(4) by simp
  moreover have "fs' p = fs p \<or> ti_name kio = Some p \<and> ti_removeErr kio \<or> ti_name cio = Some p \<and> ti_removeErr cio" for p
    using st(2) [OF refl] st(4) key_fails(4) ok
    by (auto simp: upto_left_def Remove_def temps_ok_def fresh_name_def split: if_splits)
  ultimately show ?thesis
    using st(1) st(2) [OF refl] key_fails(3,5) by (cases e) auto
next
  case (prepared ct tr1 fs1 kt tr2 fs2 s mid)
  have fs2: "fs2 = fs(ct \<mapsto> (fullchain, permCertFile), kt \<mapsto> (key, permKeyFile))"
    and names: "ti_name cio = Some ct" "ti_name kio = Some kt"
    using prepare_states(3,4) [OF ok prepared(1,2)] by auto
  note st = prepared_states [OF ok names fs2]
  have mid: "\<forall>x \<in> insert s (set mid). pair_state cio kio certPath fullchain keyPath key fs x"
    using prepared(5) st(1-3) by auto
  have "\<forall>x \<in> insert fs' (set tr). pair_state cio kio certPath fullchain keyPath key fs x"
    using prepare_states(1) [OF ok prepared(1,2)] mid names
    by (auto simp: prepared(3,4) intro!: pair_state_Remove [OF ok])
  moreover have "fs ct = None" "fs kt = None" "ct \<noteq> kt" "ct \<noteq> certPath" "ct \<noteq> keyPath" "kt \<noteq> certPath" "kt \<noteq> keyPath"
    using ok names by (auto simp: temps_ok_def fresh_name_def)
  ultimately show ?thesis
    using prepared(5) names unfolding prepared(4) fs2
    by (elim disjE conjE) (simp_all add: perm_defs Remove_def rename_def)
qed

definition example_temp :: "string \<Rightarrow> temp_io" where
  "example_temp n = \<lparr>ti_name = Some n, ti_partial = None, ti_chmodErr = False, ti_closeErr = False,
     ti_removeErr = False\<rparr>"

theorem writeCertKeyPairAtomic_atomic_witness:
  "snd (snd (writeCertKeyPairAtomic (example_temp ''t1'') (example_temp ''t2'') False True ''c'' ''C'' ''k'' ''K''
      [''k'' \<mapsto> (''old'', 384)])) = Some HRenameKey \<and>
   fst (snd (writeCertKeyPairAtomic (example_temp ''t1'') (example_temp ''t2'') False True ''c'' ''C'' ''k'' ''K''
      [''k'' \<mapsto> (''old'', 384)])) = [''k'' \<mapsto> (''old'', 384), ''c'' \<mapsto> (''C'', 420)]"
proof -
  let ?w = "writeCertKeyPairAtomic (example_temp ''t1'') (example_temp ''t2'') False True ''c'' ''C'' ''k'' ''K''
      [''k'' \<mapsto> (''old'', 384)]"
  have err: "snd (snd ?w) = Some HRenameKey"
    by (simp add: writeCertKeyPairAtomic_def prepareTempFile_def example_temp_def Let_def)
  obtain tr fs' e where w: "?w = (tr, fs', e)"
    by (metis prod.exhaust)
  have "temps_ok (example_temp ''t1'') (example_temp ''t2'') ''c'' ''k'' [''k'' \<mapsto> (''old'', 384)]"
    by (simp add: temps_ok_def fresh_name_def example_temp_def)
  from writeCertKeyPairAtomic_atomic [OF w this] show ?thesis
    using err w by (simp add: example_temp_def fun_eq_iff)
qed

text \<open>
  The reload command runs only after both files were written, only when both existed before,
  and only when it is not blank; it is run without a shell, with its words as arguments, none of
  them empty.
\<close>

theorem reload_only_on_update:
  assumes "writeCertAndDoCommand fw io fullchain key c fs = (tr, fs', err, Some args)" "is_ascii (cf_ReloadCommand c)"
    and "GetFullChainAndKeyPath c = Inr (certPath, keyPath)"
    and "temps_ok (hi_certTmp io) (hi_keyTmp io) certPath keyPath fs"
  shows "err = None \<and> di_statFile (hi_certDir io) = StatOk \<and> di_statFile (hi_keyDir io) = StatOk \<and>
    fs' = fs(certPath \<mapsto> (fullchain, 420), keyPath \<mapsto> (key, 384)) \<and>
    args = fields_loop [] (cf_ReloadCommand c) \<and> args \<noteq> [] \<and> (\<forall>a \<in> set args. a \<noteq> [])"
proof -
  obtain certExists keyExists where ex: "ensureParentDir (hi_certDir io) = Inr certExists"
    "ensureParentDir (hi_keyDir io) = Inr keyExists" "certExists" "keyExists"
    and w: "writeCertKeyPairAtomic (hi_certTmp io) (hi_keyTmp io) (hi_renameCertErr io)
                            (hi_renameKeyErr io) certPath fullchain keyPath key fs = (tr, fs', None)"
    and args: "args = Fields fw (cf_ReloadCommand c)" "args \<noteq> []" "err = None"
    using assms(1,3) by (auto simp: writeCertAndDoCommand_def split: sum.splits prod.splits option.splits if_splits)
  have stat: "di_statFile d = StatOk" if "ensureParentDir d = Inr True" for d
    using that by (auto simp: ensureParentDir_def split: stat_result.splits option.splits)
  have "fs' = fs(certPath \<mapsto> (fullchain, 420), keyPath \<mapsto> (key, 384))"
    by (rule atomic_success [OF w assms(4)])
  moreover have "args = fields_loop [] (cf_ReloadCommand c)"
    using args(1) assms(2) by (simp add: Fields_def)
  ultimately show ?thesis
    using ex args stat fields_loop_nonempty by auto
qed

definition example_certification :: ClientCertification where
  "example_certification =
     \<lparr>cf_Name = ''n'', cf_SavePath = ''/s'', cf_Domains = [''a.b''], cf_ReloadCommand = '' svc  reload''\<rparr>"

definition example_handler_io :: handler_io where
  "example_handler_io =
     \<lparr>hi_certDir = \<lparr>di_statFile = StatOk, di_statDir = StatOk, di_MkdirAll = None\<rparr>,
      hi_keyDir = \<lparr>di_statFile = StatOk, di_statDir = StatOk, di_MkdirAll = None\<rparr>,
      hi_certTmp = example_temp ''/s/.certdx-n.pem-1'', hi_keyTmp = example_temp ''/s/.certdx-n.key-2'',
      hi_renameCertErr = False, hi_renameKeyErr = False\<rparr>"

lemma example_paths: "GetFullChainAndKeyPath example_certification = Inr (''/s/n.pem'', ''/s/n.key'')"
  by code_simp

lemma example_ascii: "is_ascii (cf_ReloadCommand example_certification)"
  by code_simp

lemma example_fields: "fields_loop [] (cf_ReloadCommand example_certification) = [''svc'', ''reload'']"
  by code_simp

theorem reload_only_on_update_witness:
  "\<exists>tr fs'. writeCertAndDoCommand (\<lambda>_. []) example_handler_io ''C'' ''K'' example_certification Map.empty
      = (tr, fs', None, Some [''svc'', ''reload'']) \<and> fs' ''/s/n.key'' = Some (''K'', 384)"
proof -
  have "\<exists>tr fs'. writeCertAndDoCommand (\<lambda>_. []) example_handler_io ''C'' ''K'' example_certification Map.empty
      = (tr, fs', None, Some [''svc'', ''reload''])"
    by (simp add: writeCertAndDoCommand_def example_paths example_handler_io_def ensureParentDir_def
        writeCertKeyPairAtomic_def prepareTempFile_def example_temp_def Let_def Fields_def
        example_ascii example_fields)
  then obtain tr fs' where w: "writeCertAndDoCommand (\<lambda>_. []) example_handler_io ''C'' ''K''
      example_certification Map.empty = (tr, fs', None, Some [''svc'', ''reload''])"
    by blast
  have "temps_ok (hi_certTmp example_handler_io) (hi_keyTmp example_handler_io) ''/s/n.pem'' ''/s/n.key'' Map.empty"
    by (simp add: temps_ok_def fresh_name_def example_handler_io_def example_temp_def)
  from reload_only_on_update [OF w _ example_paths this] show ?thesis
    using w example_ascii by simp
qed

end
