(* ===== verification/Client_Daemon.thy ===== *)
theory Client_Daemon
  imports Handler Domain
begin

text \<open>
  \<open>pkg/client/daemon.go\<close>: the certificates a client watches. A handler is a value of any type
  \<open>'h\<close>; calling it is an event that the functions below record with its arguments. The goroutine
  \<open>watchUpdate\<close> is a function on the sequence of updates it takes off its channel.
\<close>

section \<open>State\<close>

record certData =
  cd_Domains :: "string list"
  cd_Fullchain :: bytes
  cd_Key :: bytes

record 'h watchingCert =
  wc_Data :: certData
  wc_Config :: ClientCertification
  wc_UpdateHandlers :: "'h list"

record 'h CertDXClientDaemon =
  dm_Config :: ClientConfig
  dm_certs :: "Key \<rightharpoonup> 'h watchingCert"
  dm_stopped :: bool

record 'h handler_call =
  hc_handler :: 'h
  hc_fullchain :: bytes
  hc_key :: bytes
  hc_cert :: ClientCertification

section \<open>Operations\<close>

type_synonym 'h WatchingCertsOption = "'h watchingCert \<Rightarrow> 'h watchingCert"

definition WithCertificateHandlerOption :: "'h \<Rightarrow> 'h WatchingCertsOption" where
  "WithCertificateHandlerOption handler wc =
     wc\<lparr>wc_UpdateHandlers := wc_UpdateHandlers wc @ [handler]\<rparr>"

text \<open>One update taken off the channel.\<close>

definition watch_one :: "certData \<Rightarrow> 'h watchingCert \<Rightarrow> 'h watchingCert \<times> 'h handler_call list" where
  "watch_one newCert c =
     (let currentCert = wc_Data c in
      if cd_Fullchain currentCert \<noteq> cd_Fullchain newCert \<or> cd_Key currentCert \<noteq> cd_Key newCert
      then (c\<lparr>wc_Data := newCert\<rparr>,
            map (\<lambda>h. \<lparr>hc_handler = h, hc_fullchain = cd_Fullchain newCert, hc_key = cd_Key newCert,
                      hc_cert = wc_Config c\<rparr>) (wc_UpdateHandlers c))
      else (c, []))"

fun watchUpdate :: "certData list \<Rightarrow> 'h watchingCert \<Rightarrow> 'h watchingCert \<times> 'h handler_call list" where
  "watchUpdate [] c = (c, [])"
| "watchUpdate (newCert # rest) c =
     (let (c1, calls1) = watch_one newCert c; (c2, calls2) = watchUpdate rest c1 in (c2, calls1 @ calls2))"

definition MakeCertDXClientDaemon :: "ClientConfig \<Rightarrow> 'h CertDXClientDaemon" where
  "MakeCertDXClientDaemon zero =
     \<lparr>dm_Config = ClientConfig_SetDefault zero, dm_certs = Map.empty, dm_stopped = False\<rparr>"

text \<open>\<open>readErr p\<close>: \<open>os.ReadFile\<close> of \<open>p\<close> fails.\<close>

definition loadSavedCert :: "(string \<Rightarrow> bool) \<Rightarrow> fs \<Rightarrow> ClientCertification \<Rightarrow> (bytes \<times> bytes) option" where
  "loadSavedCert readErr fs c =
     (case GetFullChainAndKeyPath c of
        Inl _ \<Rightarrow> None
      | Inr (fullchainPath, keyPath) \<Rightarrow>
          (case (fs fullchainPath, fs keyPath) of
             (Some (fullchain, _), Some (key, _)) \<Rightarrow>
               if readErr fullchainPath then None else if readErr keyPath then None
               else Some (fullchain, key)
           | _ \<Rightarrow> None))"

definition init_cert :: "(string \<Rightarrow> bool) \<Rightarrow> fs \<Rightarrow> 'h \<Rightarrow> ClientCertification \<Rightarrow> 'h watchingCert" where
  "init_cert readErr fs writer c =
     (let (fullchain, key) = (case loadSavedCert readErr fs c of Some p \<Rightarrow> p | None \<Rightarrow> ([], [])) in
      \<lparr>wc_Data = \<lparr>cd_Domains = cf_Domains c, cd_Fullchain = fullchain, cd_Key = key\<rparr>,
       wc_Config = c, wc_UpdateHandlers = [writer]\<rparr>)"

text \<open>\<open>writer\<close> is \<open>writeCertAndDoCommand\<close>.\<close>

definition ClientInit ::
    "(string \<Rightarrow> string) \<Rightarrow> (string \<Rightarrow> bool) \<Rightarrow> fs \<Rightarrow> 'h \<Rightarrow> 'h CertDXClientDaemon \<Rightarrow> 'h CertDXClientDaemon" where
  "ClientInit lw readErr fs writer r =
     r\<lparr>dm_certs := foldl (\<lambda>m c. m(AsKey lw (cf_Domains c) \<mapsto> init_cert readErr fs writer c)) (dm_certs r)
        (cl_Certifications (dm_Config r))\<rparr>"

definition AddCertToWatchOpt ::
    "(string \<Rightarrow> string) \<Rightarrow> string \<Rightarrow> string list \<Rightarrow> 'h WatchingCertsOption list \<Rightarrow>
     'h CertDXClientDaemon \<Rightarrow> 'h CertDXClientDaemon" where
  "AddCertToWatchOpt lw name domains options r =
     (let cert = foldl (\<lambda>c it. it c)
            \<lparr>wc_Data = \<lparr>cd_Domains = [], cd_Fullchain = [], cd_Key = []\<rparr>,
             wc_Config = \<lparr>cf_Name = name, cf_SavePath = [], cf_Domains = domains, cf_ReloadCommand = []\<rparr>,
             wc_UpdateHandlers = []\<rparr> options
      in r\<lparr>dm_certs := (dm_certs r)(AsKey lw domains \<mapsto>
             cert\<lparr>wc_Data := \<lparr>cd_Domains = domains, cd_Fullchain = [], cd_Key = []\<rparr>\<rparr>)\<rparr>)"

definition AddCertToWatch ::
    "(string \<Rightarrow> string) \<Rightarrow> string \<Rightarrow> string list \<Rightarrow> 'h CertDXClientDaemon \<Rightarrow> 'h CertDXClientDaemon" where
  "AddCertToWatch lw name domains r = AddCertToWatchOpt lw name domains [] r"

definition daemon_Stop :: "'h CertDXClientDaemon \<Rightarrow> 'h CertDXClientDaemon" where
  "daemon_Stop r = r\<lparr>dm_stopped := True\<rparr>"

text \<open>\<open>load\<close> is what decoding the configuration file gives.\<close>

definition LoadConfigurationAndValidateOpt ::
    "(string \<Rightarrow> duration option) \<Rightarrow> (string \<Rightarrow> bool) \<Rightarrow> (ClientConfig \<Rightarrow> string + ClientConfig) \<Rightarrow>
     ValidatingOption list \<Rightarrow> 'h CertDXClientDaemon \<Rightarrow> 'h CertDXClientDaemon \<times> (string + client_error list)" where
  "LoadConfigurationAndValidateOpt parse exists load options r =
     (case load (dm_Config r) of
        Inl e \<Rightarrow> (r, Inl e)
      | Inr c \<Rightarrow>
          let (c', errs) = ClientConfig_Validate parse exists options c in (r\<lparr>dm_Config := c'\<rparr>, Inr errs))"

text \<open>\<open>pair\<close> is \<open>tls.X509KeyPair\<close>.\<close>

definition GetCertificate :: "(bytes \<Rightarrow> bytes \<Rightarrow> 't option) \<Rightarrow> Key \<Rightarrow> 'h CertDXClientDaemon \<Rightarrow> 't option" where
  "GetCertificate pair certHash r =
     (case dm_certs r certHash of
        None \<Rightarrow> None
      | Some cert \<Rightarrow> pair (cd_Fullchain (wc_Data cert)) (cd_Key (wc_Data cert)))"

section \<open>Lemmas\<close>

definition material :: "certData \<Rightarrow> bytes \<times> bytes" where
  "material d = (cd_Fullchain d, cd_Key d)"

text \<open>The notifications of the handlers for a sequence of changes.\<close>

definition notify :: "'h watchingCert \<Rightarrow> (bytes \<times> bytes) list \<Rightarrow> 'h handler_call list" where
  "notify c ps = concat (map (\<lambda>(f, k). map (\<lambda>h. \<lparr>hc_handler = h, hc_fullchain = f, hc_key = k,
     hc_cert = wc_Config c\<rparr>) (wc_UpdateHandlers c)) ps)"

lemma watch_one_frame:
  "wc_Config (fst (watch_one d c)) = wc_Config c" "wc_UpdateHandlers (fst (watch_one d c)) = wc_UpdateHandlers c"
  "material (wc_Data (fst (watch_one d c))) = material d"
  by (auto simp: watch_one_def Let_def material_def)

lemma watch_one_calls:
  "snd (watch_one d c) = notify c (if material d = material (wc_Data c) then [] else [material d])"
  by (auto simp: watch_one_def notify_def material_def Let_def)

lemma notify_cong:
  "wc_Config c = wc_Config c' \<Longrightarrow> wc_UpdateHandlers c = wc_UpdateHandlers c' \<Longrightarrow> notify c = notify c'"
  by (simp add: notify_def fun_eq_iff)

lemma notify_append: "notify c (ps @ qs) = notify c ps @ notify c qs"
  by (simp add: notify_def)

lemma tl_remdups_adj_Cons:
  "tl (remdups_adj (a # b # xs)) = (if a = b then [] else [b]) @ tl (remdups_adj (b # xs))"
  using remdups_adj_Cons_alt [of b xs] by (cases "a = b") auto

lemma foldl_upd_at:
  "foldl (\<lambda>m c. m(f c \<mapsto> g c)) m xs k =
     (case filter (\<lambda>c. f c = k) xs of [] \<Rightarrow> m k | ys \<Rightarrow> Some (g (last ys)))"
  by (induction xs arbitrary: m) (auto split: list.splits)

text \<open>The calls and the final state of a watcher, by induction on the updates.\<close>

lemma watchUpdate_spec:
  "snd (watchUpdate ds c) = notify c (tl (remdups_adj (material (wc_Data c) # map material ds))) \<and>
   material (wc_Data (fst (watchUpdate ds c))) = last (material (wc_Data c) # map material ds)"
proof (induction ds arbitrary: c)
  case Nil
  then show ?case by (simp add: notify_def)
next
  case (Cons d ds)
  obtain c1 calls1 where w: "watch_one d c = (c1, calls1)" by fastforce
  have n: "notify c1 = notify c" and m: "material (wc_Data c1) = material d"
    using watch_one_frame [of d c] by (auto simp: w intro: notify_cong)
  have "calls1 = notify c (if material d = material (wc_Data c) then [] else [material d])"
    using watch_one_calls [of d c] by (simp add: w)
  then show ?case
    using Cons.IH [of c1] tl_remdups_adj_Cons [of "material (wc_Data c)" "material d" "map material ds"]
    by (auto simp: w n m notify_append [symmetric] case_prod_beta Let_def)
qed

section \<open>Properties\<close>

text \<open>
  C14: The handlers of a watched certificate are called exactly for the changes: for a sequence of
  updates, each handler is called once, in the order of registration, for every update whose chain
  or key differs from the one before it, starting from what was loaded from disk, with the new
  chain and key. At the end the daemon holds the last update. So a client that is restarted and
  fetches the certificate it had saved writes nothing and reloads nothing.
\<close>

theorem handlers_called_on_change:
  "snd (watchUpdate ds c) = notify c (tl (remdups_adj (material (wc_Data c) # map material ds))) \<and>
   material (wc_Data (fst (watchUpdate ds c))) = last (material (wc_Data c) # map material ds)"
  by (rule watchUpdate_spec)

text \<open>
  C31: What the client wrote it serves after a restart: when the handler has written a certificate
  without an error and a new daemon is initialised over the resulting files, then the daemon serves
  exactly that chain and key for the bundle, and fetching the same certificate again calls no
  handler.
\<close>

theorem restart_serves_saved:
  assumes "writeCertAndDoCommand fw io fullchain key c fs = (tr, fs', None, cmd)"
    and "GetFullChainAndKeyPath c = Inr (certPath, keyPath)"
    and "temps_ok (hi_certTmp io) (hi_keyTmp io) certPath keyPath fs"
    and "filter (\<lambda>x. AsKey lw (cf_Domains x) = AsKey lw (cf_Domains c)) (cl_Certifications (dm_Config r)) = [c]"
    and "\<not> readErr certPath" "\<not> readErr keyPath"
    and "material d = (fullchain, key)"
  shows "GetCertificate pair (AsKey lw (cf_Domains c)) (ClientInit lw readErr fs' writer r) = pair fullchain key \<and>
    (\<exists>wc. dm_certs (ClientInit lw readErr fs' writer r) (AsKey lw (cf_Domains c)) = Some wc \<and>
       watchUpdate [d] wc = (wc, []))"
proof -
  have w: "writeCertKeyPairAtomic (hi_certTmp io) (hi_keyTmp io) (hi_renameCertErr io) (hi_renameKeyErr io)
      certPath fullchain keyPath key fs = (tr, fs', None)"
    using assms(1,2) by (auto simp: writeCertAndDoCommand_def split: sum.splits prod.splits option.splits)
  have "fs' certPath = Some (fullchain, 420)" "fs' keyPath = Some (key, 384)"
    using atomic_success [OF w assms(3)] assms(3) by (auto simp: temps_ok_def)
  then have "loadSavedCert readErr fs' c = Some (fullchain, key)"
    using assms(2,5,6) by (simp add: loadSavedCert_def)
  then have "dm_certs (ClientInit lw readErr fs' writer r) (AsKey lw (cf_Domains c)) =
      Some \<lparr>wc_Data = \<lparr>cd_Domains = cf_Domains c, cd_Fullchain = fullchain, cd_Key = key\<rparr>,
       wc_Config = c, wc_UpdateHandlers = [writer]\<rparr>"
    using assms(4) by (simp add: ClientInit_def foldl_upd_at init_cert_def)
  then show ?thesis
    using assms(7) by (simp add: GetCertificate_def watch_one_def material_def)
qed

definition example_client_config :: ClientConfig where
  "example_client_config =
     \<lparr>cl_Common = \<lparr>cc_RetryCount = 5, cc_Mode = ''http'', cc_ReconnectInterval = ''10m'', cc_ReconnectDuration = 10 * Minute\<rparr>,
      cl_HttpMain = \<lparr>ch_Url = ''http://h/'', ch_AuthMethod = ''token'', ch_Token = ''s3cr3t'', ch_PEM = []\<rparr>,
      cl_HttpStandby = \<lparr>ch_Url = [], ch_AuthMethod = ''token'', ch_Token = [], ch_PEM = []\<rparr>,
      cl_GRPCMain = \<lparr>cg_Server = [], cg_PEM = []\<rparr>, cl_GRPCStandby = \<lparr>cg_Server = [], cg_PEM = []\<rparr>,
      cl_Certifications = [example_certification]\<rparr>"

theorem restart_serves_saved_witness:
  "\<exists>fs'. (\<exists>tr. writeCertAndDoCommand (\<lambda>_. []) example_handler_io ''C'' ''K'' example_certification Map.empty
      = (tr, fs', None, Some [''svc'', ''reload''])) \<and>
    GetCertificate (\<lambda>f k. Some (f, k)) (AsKey id (cf_Domains example_certification))
      (ClientInit id (\<lambda>_. False) fs' ()
        \<lparr>dm_Config = example_client_config, dm_certs = Map.empty, dm_stopped = False\<rparr>) = Some (''C'', ''K'')"
proof -
  let ?r = "\<lparr>dm_Config = example_client_config, dm_certs = Map.empty, dm_stopped = False\<rparr> :: unit CertDXClientDaemon"
  have "\<exists>tr fs'. writeCertAndDoCommand (\<lambda>_. []) example_handler_io ''C'' ''K'' example_certification Map.empty
      = (tr, fs', None, Some [''svc'', ''reload''])"
    by (simp add: writeCertAndDoCommand_def example_paths example_handler_io_def ensureParentDir_def
        writeCertKeyPairAtomic_def prepareTempFile_def example_temp_def Let_def Fields_def
        example_ascii example_fields)
  then obtain tr fs' where w: "writeCertAndDoCommand (\<lambda>_. []) example_handler_io ''C'' ''K''
      example_certification Map.empty = (tr, fs', None, Some [''svc'', ''reload''])"
    by blast
  have t: "temps_ok (hi_certTmp example_handler_io) (hi_keyTmp example_handler_io) ''/s/n.pem'' ''/s/n.key'' Map.empty"
    by (simp add: temps_ok_def fresh_name_def example_handler_io_def example_temp_def)
  have "GetCertificate (\<lambda>f k. Some (f, k)) (AsKey id (cf_Domains example_certification))
      (ClientInit id (\<lambda>_. False) fs' () ?r) = Some (''C'', ''K'')"
    using restart_serves_saved [OF w example_paths t, of id ?r "\<lambda>_. False"
        "\<lparr>cd_Domains = [], cd_Fullchain = ''C'', cd_Key = ''K''\<rparr>" "\<lambda>f k. Some (f, k)" "()"]
    by (simp add: example_client_config_def material_def)
  then show ?thesis using w by blast
qed

end
