(* ===== verification/Cert_Store.thy ===== *)
theory Cert_Store
  imports Cert_Entry Paths
begin

text \<open>
  \<open>pkg/server/cert_store.go\<close>: the certificates kept in \<open>cache.json\<close>.

  The text that \<open>encoding/json\<close> writes is identified with the value it stands for: a file holds
  unreadable content, text that is not a store, or a map from keys to entries, where an entry may
  be JSON \<open>null\<close>. \<open>json.Marshal\<close> fails on a time outside the years 0 to 9999 and otherwise keeps
  every value of these types (a time to the nanosecond, bytes in base64; names of hosts are UTF-8).
  Go iterates over a map in an arbitrary order: \<open>Load\<close> takes it as an argument.
\<close>

section \<open>Data\<close>

record certStoreEntry =
  se_Domains :: "string list"
  se_Cert :: CertT

datatype store_file =
    Unreadable
  | NotJson
  | JsonStore "Key \<rightharpoonup> certStoreEntry option"

record CertStore =
  st_path :: string
  st_entries :: "Key \<rightharpoonup> certStoreEntry"
  st_update :: "certStoreEntry list"

datatype store_error =
    ResolvePath string
  | NotExist
  | OpenStore
  | UnmarshalStore
  | MarshalStore
  | WriteStore

text \<open>What a call of \<open>os.WriteFile\<close> does: it succeeds, or fails and leaves some content.\<close>

datatype write_result = WriteOk | WriteFailed "store_file option"

section \<open>JSON\<close>

definition json_time_ok :: "time \<Rightarrow> bool" where
  "json_time_ok t \<longleftrightarrow> - 366 * 24 * Hour \<le> t \<and> t < 3652059 * 24 * Hour"

definition json_entry_ok :: "certStoreEntry \<Rightarrow> bool" where
  "json_entry_ok e \<longleftrightarrow> json_time_ok (c_ValidBefore (se_Cert e)) \<and> json_time_ok (c_RenewAt (se_Cert e))"

definition json_Marshal :: "Key list \<Rightarrow> (Key \<rightharpoonup> certStoreEntry) \<Rightarrow> store_file option" where
  "json_Marshal ks m =
     (if list_all (\<lambda>k. case m k of None \<Rightarrow> True | Some e \<Rightarrow> json_entry_ok e) ks
      then Some (JsonStore (\<lambda>k. map_option Some (m k))) else None)"

section \<open>Operations\<close>

definition NewCertStore :: "os_env \<Rightarrow> store_error + CertStore" where
  "NewCertStore os =
     (case ServerCachePath os of
        Inl e \<Rightarrow> Inl (ResolvePath e)
      | Inr path \<Rightarrow> Inr \<lparr>st_path = path, st_entries = Map.empty, st_update = []\<rparr>)"

text \<open>The loop of \<open>Load\<close> over the decoded map in the order \<open>ks\<close>; a \<open>null\<close> entry is dereferenced.\<close>

fun Load_loop ::
    "(string \<Rightarrow> string) \<Rightarrow> time \<Rightarrow> (Key \<rightharpoonup> certStoreEntry option) \<Rightarrow> Key list \<Rightarrow>
     (Key \<rightharpoonup> certStoreEntry) \<Rightarrow> (store_error, Key \<rightharpoonup> certStoreEntry) outcome" where
  "Load_loop lw now raw [] m = Return m"
| "Load_loop lw now raw (k # ks) m =
     (case raw k of
        None \<Rightarrow> Load_loop lw now raw ks m
      | Some None \<Rightarrow> Panic
      | Some (Some entry) \<Rightarrow>
          if \<not> IsValid now (se_Cert entry) then Load_loop lw now raw ks m
          else Load_loop lw now raw ks (m(AsKey lw (se_Domains entry) \<mapsto> entry)))"

definition Load ::
    "(string \<Rightarrow> string) \<Rightarrow> time \<Rightarrow> Key list \<Rightarrow> store_file option \<Rightarrow> CertStore \<Rightarrow> (store_error, CertStore) outcome" where
  "Load lw now order file s =
     (case file of
        None \<Rightarrow> Fail NotExist
      | Some Unreadable \<Rightarrow> Fail OpenStore
      | Some NotJson \<Rightarrow> Fail UnmarshalStore
      | Some (JsonStore raw) \<Rightarrow>
          (case Load_loop lw now raw order (st_entries s) of
             Return m \<Rightarrow> Return (s\<lparr>st_entries := m\<rparr>)
           | Fail e \<Rightarrow> Fail e
           | Panic \<Rightarrow> Panic))"

text \<open>\<open>ks\<close> enumerates the keys of the store: the order in which \<open>json.Marshal\<close> visits them.\<close>

definition save ::
    "Key list \<Rightarrow> write_result \<Rightarrow> CertStore \<Rightarrow> store_file option \<Rightarrow> store_file option \<times> store_error option" where
  "save ks wr s file =
     (case json_Marshal ks (st_entries s) of
        None \<Rightarrow> (file, Some MarshalStore)
      | Some bytes \<Rightarrow>
          (case wr of WriteOk \<Rightarrow> (Some bytes, None) | WriteFailed left \<Rightarrow> (left, Some WriteStore)))"

definition saveEntry ::
    "(string \<Rightarrow> string) \<Rightarrow> Key list \<Rightarrow> write_result \<Rightarrow> certStoreEntry \<Rightarrow> CertStore \<Rightarrow> store_file option \<Rightarrow>
     CertStore \<times> store_file option \<times> store_error option" where
  "saveEntry lw ks wr fe s file =
     (let s' = s\<lparr>st_entries := (st_entries s)(AsKey lw (se_Domains fe) \<mapsto> fe)\<rparr> in
      (s', save (AsKey lw (se_Domains fe) # ks) wr s' file))"

text \<open>
  \<open>listenUpdate\<close> as the steps of its goroutine: it takes one entry off the queue and persists it
  while its context is live, and when the context is done it takes all that are queued and ends.
  Senders add entries at any time while the buffer of ten has room. Three fields are history: the
  entries sent before the listener ended, those it has taken, and the error it logged last.
\<close>

record listener =
  li_store :: CertStore
  li_file :: "store_file option"
  li_keys :: "Key list"
  li_done :: bool
  li_ended :: bool
  li_sent :: "certStoreEntry list"
  li_taken :: "certStoreEntry list"
  li_lastErr :: "store_error option"

definition persist :: "(string \<Rightarrow> string) \<Rightarrow> write_result \<Rightarrow> listener \<Rightarrow> listener" where
  "persist lw wr l =
     (case st_update (li_store l) of
        [] \<Rightarrow> l
      | fe # q \<Rightarrow>
          let (s', f', err) = saveEntry lw (li_keys l) wr fe ((li_store l)\<lparr>st_update := q\<rparr>) (li_file l) in
          l\<lparr>li_store := s', li_file := f', li_keys := AsKey lw (se_Domains fe) # li_keys l,
            li_taken := li_taken l @ [fe], li_lastErr := err\<rparr>)"

inductive listen_step :: "(string \<Rightarrow> string) \<Rightarrow> listener \<Rightarrow> listener \<Rightarrow> bool" for lw where
  send: "length (st_update (li_store l)) < 10 \<Longrightarrow>
    listen_step lw l (l\<lparr>li_store := (li_store l)\<lparr>st_update := st_update (li_store l) @ [fe]\<rparr>,
      li_sent := (if li_ended l then li_sent l else li_sent l @ [fe])\<rparr>)"
| ctx_fires: "listen_step lw l (l\<lparr>li_done := True\<rparr>)"
| recv: "\<not> li_ended l \<Longrightarrow> st_update (li_store l) \<noteq> [] \<Longrightarrow> listen_step lw l (persist lw wr l)"
| finish: "\<not> li_ended l \<Longrightarrow> li_done l \<Longrightarrow> st_update (li_store l) = [] \<Longrightarrow>
    listen_step lw l (l\<lparr>li_ended := True\<rparr>)"

inductive_cases listen_stepE: "listen_step lw l l'"

text \<open>Every entry is stored under the key of its names.\<close>

definition store_wf :: "(string \<Rightarrow> string) \<Rightarrow> (Key \<rightharpoonup> certStoreEntry) \<Rightarrow> bool" where
  "store_wf lw m \<longleftrightarrow> (\<forall>k e. m k = Some e \<longrightarrow> k = AsKey lw (se_Domains e))"

text \<open>The store after a sequence of updates: for each bundle the last one wins.\<close>

definition store_upds ::
    "(string \<Rightarrow> string) \<Rightarrow> (Key \<rightharpoonup> certStoreEntry) \<Rightarrow> certStoreEntry list \<Rightarrow> (Key \<rightharpoonup> certStoreEntry)" where
  "store_upds lw m fes = foldl (\<lambda>m fe. m(AsKey lw (se_Domains fe) \<mapsto> fe)) m fes"

definition listener_init :: "(string \<Rightarrow> string) \<Rightarrow> listener \<Rightarrow> bool" where
  "listener_init lw l \<longleftrightarrow>
     \<not> li_done l \<and> \<not> li_ended l \<and> li_taken l = [] \<and> li_sent l = st_update (li_store l) \<and>
     store_wf lw (st_entries (li_store l))"

section \<open>Lemmas\<close>

lemma store_wf_upd: "store_wf lw m \<Longrightarrow> store_wf lw (m(AsKey lw (se_Domains e) \<mapsto> e))"
  by (auto simp: store_wf_def)

lemma Load_loop_Panic: "Load_loop lw now raw ks m = Panic \<longleftrightarrow> (\<exists>k \<in> set ks. raw k = Some None)"
  by (induction ks arbitrary: m) (auto split: option.splits)

lemma Load_loop_not_Fail: "Load_loop lw now raw ks m \<noteq> Fail e"
  by (induction ks arbitrary: m) (auto split: option.splits)

lemma Load_loop_from:
  "Load_loop lw now raw ks m = Return m' \<Longrightarrow> m' k = Some e \<Longrightarrow>
     m k = Some e \<or> (\<exists>k' \<in> set ks. raw k' = Some (Some e)) \<and> IsValid now (se_Cert e) \<and> k = AsKey lw (se_Domains e)"
proof (induction ks arbitrary: m)
  case (Cons a ks)
  then show ?case
    by (fastforce split: option.splits if_splits)
qed simp

lemma Load_loop_mono:
  "Load_loop lw now raw ks m = Return m' \<Longrightarrow> dom m \<subseteq> dom m'"
  by (induction ks arbitrary: m) (fastforce split: option.splits if_splits)+

lemma Load_loop_keeps:
  "Load_loop lw now raw ks m = Return m' \<Longrightarrow> k' \<in> set ks \<Longrightarrow> raw k' = Some (Some e) \<Longrightarrow>
     IsValid now (se_Cert e) \<Longrightarrow> AsKey lw (se_Domains e) \<in> dom m'"
proof (induction ks arbitrary: m)
  case (Cons a ks)
  show ?case
  proof (cases "k' \<in> set ks")
    case True
    then show ?thesis
      using Cons by (auto split: option.splits if_splits)
  next
    case False
    then show ?thesis
      using Cons.prems Load_loop_mono [of lw now raw ks] by fastforce
  qed
qed simp

lemma save_ok:
  "save ks wr s file = (file', None) \<Longrightarrow> file' = Some (JsonStore (\<lambda>k. map_option Some (st_entries s k)))"
  by (auto simp: save_def json_Marshal_def split: if_splits write_result.splits)

lemma store_upds_snoc [simp]:
  "store_upds lw m (fes @ [fe]) = (store_upds lw m fes)(AsKey lw (se_Domains fe) \<mapsto> fe)"
  by (simp add: store_upds_def)

section \<open>The listener\<close>

definition listener_inv :: "(string \<Rightarrow> string) \<Rightarrow> listener \<Rightarrow> listener \<Rightarrow> bool" where
  "listener_inv lw l\<^sub>0 l \<longleftrightarrow>
     st_entries (li_store l) = store_upds lw (st_entries (li_store l\<^sub>0)) (li_taken l) \<and>
     (if li_ended l then li_sent l = li_taken l else li_sent l = li_taken l @ st_update (li_store l)) \<and>
     (li_taken l \<noteq> [] \<longrightarrow> li_lastErr l = None \<longrightarrow>
        li_file l = Some (JsonStore (\<lambda>k. map_option Some (st_entries (li_store l) k))))"

lemma listener_inv_persist:
  assumes "listener_inv lw l\<^sub>0 l" "\<not> li_ended l" "st_update (li_store l) = fe # q"
  shows "listener_inv lw l\<^sub>0 (persist lw wr l)"
proof -
  obtain s' f' err where sv: "saveEntry lw (li_keys l) wr fe ((li_store l)\<lparr>st_update := q\<rparr>) (li_file l)
      = (s', f', err)" by (metis prod.exhaust)
  then have "s' = (li_store l)\<lparr>st_update := q,
      st_entries := (st_entries (li_store l))(AsKey lw (se_Domains fe) \<mapsto> fe)\<rparr>"
    and "err = None \<Longrightarrow> f' = Some (JsonStore (\<lambda>k. map_option Some (st_entries s' k)))"
    by (auto simp: saveEntry_def Let_def dest: save_ok)
  then show ?thesis
    using assms by (auto simp: persist_def listener_inv_def sv)
qed

lemma listener_inv_step: "listener_inv lw l\<^sub>0 l \<Longrightarrow> listen_step lw l l' \<Longrightarrow> listener_inv lw l\<^sub>0 l'"
proof (erule listen_step.cases, goal_cases)
  case (3 l wr)
  then show ?case
    by (cases "st_update (li_store l)") (auto intro: listener_inv_persist)
qed (auto simp: listener_inv_def)

interpretation listener: step_invariant "\<lambda>l. listener_init lw l \<and> l = l\<^sub>0" "listen_step lw" "listener_inv lw l\<^sub>0"
  for lw l\<^sub>0
proof
  show "listener_inv lw l\<^sub>0 l" if "listener_init lw l \<and> l = l\<^sub>0" for l
    using that by (auto simp: listener_init_def listener_inv_def store_upds_def)
qed (rule listener_inv_step)

section \<open>Properties\<close>

text \<open>
  C39: Loading a store written by an earlier version: \<open>Load\<close> fails only when the file is missing,
  unreadable or not JSON, and panics exactly when the file has a \<open>null\<close> entry. Otherwise every
  entry it adds is one of the file that has not expired, filed under the key of its names whatever
  key the file had, and every bundle with an unexpired entry in the file is present.
\<close>

theorem Load_migrates:
  assumes "set order = dom raw"
  shows "(Load lw now order (Some (JsonStore raw)) s = Panic \<longleftrightarrow> (\<exists>k. raw k = Some None)) \<and>
    (\<forall>e. Load lw now order (Some (JsonStore raw)) s \<noteq> Fail e) \<and>
    (\<forall>s'. Load lw now order (Some (JsonStore raw)) s = Return s' \<longrightarrow>
       (\<forall>k e. st_entries s' k = Some e \<longrightarrow> st_entries s k = Some e \<or>
          Some (Some e) \<in> range raw \<and> IsValid now (se_Cert e) \<and> k = AsKey lw (se_Domains e)) \<and>
       (\<forall>k e. raw k = Some (Some e) \<longrightarrow> IsValid now (se_Cert e) \<longrightarrow>
          AsKey lw (se_Domains e) \<in> dom (st_entries s')))"
proof (cases "Load_loop lw now raw order (st_entries s)")
  case (Return m)
  have origin: "st_entries s k = Some e \<or>
      Some (Some e) \<in> range raw \<and> IsValid now (se_Cert e) \<and> k = AsKey lw (se_Domains e)"
    if "m k = Some e" for k e
    using Load_loop_from [OF Return that] by (metis rangeI)
  have keeps: "AsKey lw (se_Domains e) \<in> dom m" if "raw k = Some (Some e)" "IsValid now (se_Cert e)" for k e
    by (rule Load_loop_keeps [OF Return _ that]) (use assms that in auto)
  have "\<not> (\<exists>k. raw k = Some None)"
    using Load_loop_Panic [of lw now raw order "st_entries s"] Return assms by auto
  then show ?thesis
    using origin keeps Return by (auto simp: Load_def)
next
  case Panic
  then show ?thesis
    using Load_loop_Panic [of lw now raw order "st_entries s"] by (auto simp: Load_def)
qed (simp add: Load_loop_not_Fail)

theorem Load_migrates_witness:
  "\<exists>s'. Load id 100 [3, 4]
      (Some (JsonStore [3 \<mapsto> Some \<lparr>se_Domains = [''a.b''], se_Cert = zero_CertT\<lparr>c_ValidBefore := 200\<rparr>\<rparr>,
                        4 \<mapsto> Some \<lparr>se_Domains = [''c.d''], se_Cert = zero_CertT\<rparr>]))
      \<lparr>st_path = ''p'', st_entries = Map.empty, st_update = []\<rparr> = Return s' \<and>
    AsKey id [''a.b''] \<in> dom (st_entries s')"
proof -
  let ?raw = "[3 \<mapsto> Some \<lparr>se_Domains = [''a.b''], se_Cert = zero_CertT\<lparr>c_ValidBefore := 200\<rparr>\<rparr>,
      4 \<mapsto> Some \<lparr>se_Domains = [''c.d''], se_Cert = zero_CertT\<rparr>] :: Key \<rightharpoonup> certStoreEntry option"
  let ?s = "\<lparr>st_path = ''p'', st_entries = Map.empty, st_update = []\<rparr> :: CertStore"
  have "set [3, 4] = dom ?raw" by auto
  note L = Load_migrates [OF this, of id 100 ?s]
  have "Load id 100 [3, 4] (Some (JsonStore ?raw)) ?s \<noteq> Panic"
    using L by simp
  then obtain s' where s': "Load id 100 [3, 4] (Some (JsonStore ?raw)) ?s = Return s'"
    using L by (metis outcome.exhaust)
  moreover have "?raw 3 = Some (Some \<lparr>se_Domains = [''a.b''], se_Cert = zero_CertT\<lparr>c_ValidBefore := 200\<rparr>\<rparr>)"
    by simp
  then have "AsKey id (se_Domains \<lparr>se_Domains = [''a.b''], se_Cert = zero_CertT\<lparr>c_ValidBefore := 200\<rparr>\<rparr>)
      \<in> dom (st_entries s')"
    by (rule L [THEN conjunct2, THEN conjunct2, rule_format, OF s', THEN conjunct2, rule_format])
      (simp add: IsValid_def)
  then have "AsKey id [''a.b''] \<in> dom (st_entries s')"
    by simp
  ultimately show ?thesis by blast
qed

text \<open>Loading a store that was written.\<close>

lemma Load_stored:
  assumes wf: "store_wf lw es" and order: "set order = dom es" and new: "st_entries s\<^sub>0 = Map.empty"
  shows "Load lw now order (Some (JsonStore (\<lambda>k. map_option Some (es k)))) s\<^sub>0 =
    Return (s\<^sub>0\<lparr>st_entries := (\<lambda>k. case es k of
       Some e \<Rightarrow> if IsValid now (se_Cert e) then Some e else None | None \<Rightarrow> None)\<rparr>)"
proof -
  let ?raw = "\<lambda>k. map_option Some (es k)"
  obtain m where m: "Load_loop lw now ?raw order Map.empty = Return m"
    using Load_loop_Panic [of lw now ?raw order Map.empty] Load_loop_not_Fail [of lw now ?raw order Map.empty]
    by (cases "Load_loop lw now ?raw order Map.empty") auto
  have origin: "es k = Some e \<and> IsValid now (se_Cert e)" if "m k = Some e" for k e
  proof -
    from Load_loop_from [OF m that] obtain k' where "es k' = Some e" "IsValid now (se_Cert e)"
      "k = AsKey lw (se_Domains e)" by auto
    then show ?thesis using wf by (auto simp: store_wf_def)
  qed
  have keeps: "m k = Some e" if "es k = Some e" "IsValid now (se_Cert e)" for k e
  proof -
    have "AsKey lw (se_Domains e) \<in> dom m"
      by (rule Load_loop_keeps [OF m]) (use that order in auto)
    then show ?thesis
      using origin wf that by (fastforce simp: store_wf_def)
  qed
  have "m k = (case es k of
      Some e \<Rightarrow> if IsValid now (se_Cert e) then Some e else None | None \<Rightarrow> None)" for k
    using origin [of k] keeps [of k] by (cases "m k") (auto split: option.splits)
  then have "m = (\<lambda>k. case es k of Some e \<Rightarrow> if IsValid now (se_Cert e) then Some e else None | None \<Rightarrow> None)"
    by blast
  then show ?thesis
    using m new by (simp add: Load_def)
qed

lemma Load_after_save:
  assumes "store_wf lw (st_entries s)" "save ks wr s file = (file', None)"
    and "set order = dom (st_entries s)" "st_entries s\<^sub>0 = Map.empty"
  shows "\<exists>s'. Load lw now order file' s\<^sub>0 = Return s' \<and>
    st_entries s' = (\<lambda>k. case st_entries s k of
       Some e \<Rightarrow> if IsValid now (se_Cert e) then Some e else None | None \<Rightarrow> None)"
  using Load_stored [OF assms(1,3,4)] save_ok [OF assms(2)] by simp

text \<open>
  C10: A restart loses no certificate that is still valid: when \<open>save\<close> succeeds on a store whose
  entries are filed under their keys, then \<open>Load\<close> into a new store, in whatever order the map is
  iterated, gives exactly the entries that have not expired by then, unchanged.
\<close>

theorem restart_recovers:
  assumes "store_wf lw (st_entries s)" "save ks wr s file = (file', None)"
    and "set order = dom (st_entries s)" "st_entries s\<^sub>0 = Map.empty"
  shows "\<exists>s'. Load lw now order file' s\<^sub>0 = Return s' \<and>
    st_entries s' = (\<lambda>k. case st_entries s k of
       Some e \<Rightarrow> if IsValid now (se_Cert e) then Some e else None | None \<Rightarrow> None)"
  by (rule Load_after_save [OF assms])

definition example_store :: CertStore where
  "example_store =
     \<lparr>st_path = ''p'', st_entries = [AsKey id [''a.b''] \<mapsto>
        \<lparr>se_Domains = [''a.b''], se_Cert = zero_CertT\<lparr>c_ValidBefore := 200\<rparr>\<rparr>], st_update = []\<rparr>"

theorem restart_recovers_witness:
  "\<exists>s'. Load id 100 [AsKey id [''a.b'']] (fst (save [AsKey id [''a.b'']] WriteOk example_store None))
      \<lparr>st_path = ''p'', st_entries = Map.empty, st_update = []\<rparr> = Return s' \<and>
    st_entries s' (AsKey id [''a.b'']) =
      Some \<lparr>se_Domains = [''a.b''], se_Cert = zero_CertT\<lparr>c_ValidBefore := 200\<rparr>\<rparr>"
proof -
  let ?ks = "[AsKey id [''a.b'']]"
  have "snd (save ?ks WriteOk example_store None) = None"
    by (simp add: save_def json_Marshal_def example_store_def json_entry_ok_def json_time_ok_def
        zero_CertT_def go_time_simps)
  then obtain file' where sv: "save ?ks WriteOk example_store None = (file', None)"
    by (metis prod.collapse)
  have "store_wf id (st_entries example_store)" "set ?ks = dom (st_entries example_store)"
    by (auto simp: store_wf_def example_store_def)
  from restart_recovers [OF this(1) sv this(2),
      of "\<lparr>st_path = ''p'', st_entries = Map.empty, st_update = []\<rparr>" 100]
  show ?thesis
    unfolding sv fst_conv by (auto simp: example_store_def IsValid_def)
qed

text \<open>
  Every certificate handed to the writer before it ended is persisted, in the order of the
  sends: when the writer has ended and its last write succeeded, the file is the initial store
  updated by everything that was sent, where for each bundle the last one wins. Failed writes in
  between do not matter, and certificates queued when the context fires are not dropped.
\<close>

theorem listenUpdate_persists:
  assumes "listener_init lw l\<^sub>0" "(listen_step lw)\<^sup>*\<^sup>* l\<^sub>0 l"
    and "li_ended l" "li_sent l \<noteq> []" "li_lastErr l = None"
  shows "li_file l = Some (JsonStore (\<lambda>k. map_option Some
    (store_upds lw (st_entries (li_store l\<^sub>0)) (li_sent l) k)))"
  using listener.inv_reachable [of lw l\<^sub>0 l\<^sub>0 l] assms by (simp add: listener_inv_def)

theorem listenUpdate_persists_witness:
  "\<exists>l. (listen_step id)\<^sup>*\<^sup>*
      \<lparr>li_store = example_store, li_file = None, li_keys = [AsKey id [''a.b'']], li_done = False, li_ended = False,
       li_sent = [], li_taken = [], li_lastErr = None\<rparr> l \<and>
    li_file l = Some (JsonStore (\<lambda>k. map_option Some
      (store_upds id (st_entries example_store) [\<lparr>se_Domains = [''c.d''], se_Cert = zero_CertT\<rparr>] k)))"
proof -
  let ?l = "\<lparr>li_store = example_store, li_file = None, li_keys = [AsKey id [''a.b'']], li_done = False,
      li_ended = False, li_sent = [], li_taken = [], li_lastErr = None\<rparr>"
  let ?fe = "\<lparr>se_Domains = [''c.d''], se_Cert = zero_CertT\<rparr> :: certStoreEntry"
  have init: "listener_init id ?l"
    by (auto simp: listener_init_def store_wf_def example_store_def)
  note ev = persist_def saveEntry_def save_def json_Marshal_def example_store_def Let_def
    json_entry_ok_def json_time_ok_def zero_CertT_def go_time_simps
  have "\<exists>l. (listen_step id)\<^sup>*\<^sup>* ?l l \<and> li_ended l \<and> li_sent l = [?fe] \<and> li_lastErr l = None"
    apply (rule exI)
    apply (rule conjI)
     apply (rule converse_rtranclp_into_rtranclp, rule send [where fe = ?fe], simp add: example_store_def)
     apply (rule converse_rtranclp_into_rtranclp, rule ctx_fires)
     apply (rule converse_rtranclp_into_rtranclp, rule recv [where wr = WriteOk], simp, simp)
     apply (rule converse_rtranclp_into_rtranclp, rule finish)
        apply (simp add: ev, simp add: ev, simp add: ev)
     apply (rule rtranclp.rtrancl_refl)
    apply (simp add: ev)
    done
  then obtain l where "(listen_step id)\<^sup>*\<^sup>* ?l l" "li_ended l" "li_sent l = [?fe]" "li_lastErr l = None"
    by blast
  then show ?thesis
    using listenUpdate_persists [OF init, of l] by auto
qed

end
