(* ===== verification/Retry.thy ===== *)
theory Retry
  imports Go_Prelude
begin

text \<open>
  Package \<open>pkg/retry\<close>: the helper \<open>Do\<close> behind every ACME, HTTP and Tencent Cloud retry loop.

  The closure \<open>work\<close> may change the variables it captures, so it is a function on a state of any
  type, with the error it returns (\<open>None\<close> for nil) and the time it took. \<open>fires k\<close> says whether
  the context is done before the timer of the sleep after attempt \<open>k\<close> elapses; when both are
  ready Go's \<open>select\<close> may take either, so \<open>fires\<close> is arbitrary.
\<close>

section \<open>Definitions\<close>

definition Interval :: duration where
  "Interval = 15 * Second"

definition fastFailThreshold :: duration where
  "fastFailThreshold = Second"

datatype 'e retry_error =
    CtxErr          \<comment> \<open>the context was done on entry\<close>
  | TooFast 'e      \<comment> \<open>errored too fast, give up retry\<close>
  | TooMany 'e      \<comment> \<open>errored too many times, give up retry\<close>
  | RetryCancelled  \<comment> \<open>the context fired during a sleep\<close>

type_synonym ('s, 'e) work = "'s \<Rightarrow> 's \<times> 'e option \<times> duration"

function Do_loop ::
    "int \<Rightarrow> ('s, 'e) work \<Rightarrow> (int \<Rightarrow> bool) \<Rightarrow> int \<Rightarrow> 's \<Rightarrow> 's \<times> 'e retry_error option" where
  "Do_loop retryCount work fires attempt s =
     (case work s of (s', err, elapsed) \<Rightarrow>
       (case err of
          None \<Rightarrow> (s', None)
        | Some e \<Rightarrow>
            if elapsed < fastFailThreshold then (s', Some (TooFast e))
            else if retryCount \<le> attempt then (s', Some (TooMany e))
            else if fires attempt then (s', Some RetryCancelled)
            else Do_loop retryCount work fires (attempt + 1) s'))"
  by pat_completeness auto
termination
  by (relation "measure (\<lambda>(n, w, f, k, s). nat (n - k))") auto

definition Do ::
    "bool \<Rightarrow> int \<Rightarrow> ('s, 'e) work \<Rightarrow> (int \<Rightarrow> bool) \<Rightarrow> 's \<Rightarrow> 's \<times> 'e retry_error option" where
  "Do ctxDone retryCount work fires s =
     (if ctxDone then (s, Some CtxErr) else Do_loop retryCount work fires 0 s)"

declare Do_loop.simps [simp del]

section \<open>Specification\<close>

text \<open>The state before attempt \<open>k\<close> when every attempt is made, and the outcome of attempt \<open>k\<close>.\<close>

fun state_at :: "('s, 'e) work \<Rightarrow> nat \<Rightarrow> 's \<Rightarrow> 's" where
  "state_at work 0 s = s"
| "state_at work (Suc k) s = state_at work k (fst (work s))"

definition succeeds_at :: "('s, 'e) work \<Rightarrow> nat \<Rightarrow> 's \<Rightarrow> bool" where
  "succeeds_at work k s \<longleftrightarrow> fst (snd (work (state_at work k s))) = None"

definition slow_failure_at :: "('s, 'e) work \<Rightarrow> nat \<Rightarrow> 's \<Rightarrow> bool" where
  "slow_failure_at work k s \<longleftrightarrow>
     \<not> succeeds_at work k s \<and> fastFailThreshold \<le> snd (snd (work (state_at work k s)))"

definition fast_failure_at :: "('s, 'e) work \<Rightarrow> nat \<Rightarrow> 's \<Rightarrow> 'e \<Rightarrow> bool" where
  "fast_failure_at work k s e \<longleftrightarrow>
     (case work (state_at work k s) of (s', err, elapsed) \<Rightarrow> err = Some e \<and> elapsed < fastFailThreshold)"

text \<open>The closure that also counts its calls.\<close>

definition counted :: "('s, 'e) work \<Rightarrow> (nat \<times> 's, 'e) work" where
  "counted work ks =
     (case work (snd ks) of (s', err, elapsed) \<Rightarrow> ((Suc (fst ks), s'), err, elapsed))"

section \<open>Lemmas\<close>

lemma succeeds_at_Suc: "succeeds_at work (Suc k) s \<longleftrightarrow> succeeds_at work k (fst (work s))"
  by (simp add: succeeds_at_def)

lemma slow_failure_at_Suc:
  "slow_failure_at work (Suc k) s \<longleftrightarrow> slow_failure_at work k (fst (work s))"
  by (simp add: slow_failure_at_def succeeds_at_Suc)

lemmas attempt_simps = succeeds_at_Suc slow_failure_at_Suc

lemma Do_loop_stop:
  "\<not> slow_failure_at work 0 s \<or> retryCount \<le> a \<or> fires a \<Longrightarrow>
     (snd (Do_loop retryCount work fires a s) = None \<longleftrightarrow> succeeds_at work 0 s) \<and>
     fst (Do_loop retryCount work fires a s) = fst (work s)"
  by (cases "work s")
    (auto simp: Do_loop.simps [of retryCount work fires a s] slow_failure_at_def succeeds_at_def
      split: option.splits)

lemma Do_loop_retry:
  "slow_failure_at work 0 s \<Longrightarrow> a < retryCount \<Longrightarrow> \<not> fires a \<Longrightarrow>
     Do_loop retryCount work fires a s = Do_loop retryCount work fires (a + 1) (fst (work s))"
  by (cases "work s")
    (auto simp: Do_loop.simps [of retryCount work fires a s] slow_failure_at_def succeeds_at_def
      split: option.splits)

lemma all_less_Suc_shift: "(\<forall>i < Suc k. P i) \<longleftrightarrow> P 0 \<and> (\<forall>i < k. P (Suc i))"
  by (metis less_Suc_eq_0_disj Suc_less_eq)

lemma ex_nat_split: "(\<exists>k :: nat. P k) \<longleftrightarrow> P 0 \<or> (\<exists>k. P (Suc k))"
  by (metis not0_implies_Suc)

text \<open>The loop succeeds exactly through a first success that only slow failures and uncancelled
  sleeps precede.\<close>

lemma Do_loop_success_iff:
  "Do_loop n work fires a s = (t, None) \<longleftrightarrow>
     (\<exists>k. succeeds_at work k s \<and> (k = 0 \<or> a + int k \<le> n) \<and> t = state_at work (Suc k) s \<and>
        (\<forall>i < k. slow_failure_at work i s \<and> \<not> fires (a + int i)))"
  (is "?lhs \<longleftrightarrow> (\<exists>k. ?rhs a s k)")
proof (induction "nat (n - a)" arbitrary: a s rule: less_induct)
  case (less a s)
  have zero: "?rhs a s 0 \<longleftrightarrow> succeeds_at work 0 s \<and> t = fst (work s)"
    by simp
  have suc: "?rhs a s (Suc k) \<longleftrightarrow>
      slow_failure_at work 0 s \<and> \<not> fires a \<and> a < n \<and> ?rhs (a + 1) (fst (work s)) k" for k
    by (cases k) (auto simp: all_less_Suc_shift attempt_simps algebra_simps)
  have split: "(\<exists>k. ?rhs a s k) \<longleftrightarrow> ?rhs a s 0 \<or> (\<exists>k. ?rhs a s (Suc k))"
    by (rule ex_nat_split)
  show ?case
  proof (cases "slow_failure_at work 0 s \<and> a < n \<and> \<not> fires a")
    case True
    then have "\<not> succeeds_at work 0 s" by (simp add: slow_failure_at_def)
    moreover have "(Do_loop n work fires (a + 1) (fst (work s)) = (t, None)) \<longleftrightarrow>
        (\<exists>k. ?rhs (a + 1) (fst (work s)) k)"
      using True by (intro less) auto
    moreover have "Do_loop n work fires a s = Do_loop n work fires (a + 1) (fst (work s))"
      using True by (simp add: Do_loop_retry)
    ultimately show ?thesis
      using True by (simp only: split zero suc) blast
  next
    case False
    then have "Do_loop n work fires a s = (t, None) \<longleftrightarrow> ?rhs a s 0"
      using Do_loop_stop [of work s n a fires] zero by (auto simp: prod_eq_iff)
    then show ?thesis using False split suc by blast
  qed
qed

lemma state_at_Suc2: "state_at work (Suc k) s = fst (work (state_at work k s))"
  by (induction k arbitrary: s) auto

lemma Do_success_from:
  assumes "Do ctxDone n work fires s = (t, None)"
  shows "\<exists>u elapsed. work u = (t, None, elapsed)"
proof -
  have "Do_loop n work fires 0 s = (t, None)"
    using assms by (simp add: Do_def split: if_splits)
  then obtain k where "succeeds_at work k s" "t = state_at work (Suc k) s"
    by (auto simp: Do_loop_success_iff)
  then have "work (state_at work k s) = (t, None, snd (snd (work (state_at work k s))))"
    by (simp add: succeeds_at_def state_at_Suc2 prod_eq_iff del: state_at.simps)
  then show ?thesis by blast
qed

lemma counted_apply:
  "fst (counted work (k, s)) = (Suc k, fst (work s))"
  "snd (counted work (k, s)) = snd (work s)"
  by (simp_all add: counted_def split: prod.splits)

lemma slow_failure_counted [simp]:
  "slow_failure_at (counted work) 0 (k, s) \<longleftrightarrow> slow_failure_at work 0 s"
  by (simp add: slow_failure_at_def succeeds_at_def counted_apply)

lemma Do_loop_counted_stop:
  assumes "\<not> (slow_failure_at work 0 s \<and> a < n \<and> \<not> fires a)"
  shows "fst (fst (Do_loop n (counted work) fires a (k, s))) = Suc k"
  using assms Do_loop_stop [of "counted work" "(k, s)" n a fires] by (auto simp: counted_apply)

lemma Do_loop_counted_retry:
  assumes "slow_failure_at work 0 s" "a < n" "\<not> fires a"
  shows "Do_loop n (counted work) fires a (k, s) =
     Do_loop n (counted work) fires (a + 1) (Suc k, fst (work s))"
  using assms by (simp add: Do_loop_retry counted_apply)

lemma Do_loop_calls:
  "Suc k \<le> fst (fst (Do_loop n (counted work) fires a (k, s))) \<and>
   fst (fst (Do_loop n (counted work) fires a (k, s))) \<le> k + Suc (nat (n - a))"
proof (induction "nat (n - a)" arbitrary: a k s rule: less_induct)
  case (less a k s)
  show ?case
  proof (cases "slow_failure_at work 0 s \<and> a < n \<and> \<not> fires a")
    case True
    with less [of "a + 1" "Suc k" "fst (work s)"] show ?thesis
      by (simp add: Do_loop_counted_retry) linarith
  qed (simp add: Do_loop_counted_stop)
qed

lemma Do_loop_all_slow:
  "(\<And>i. slow_failure_at work i s) \<Longrightarrow> (\<And>i. \<not> fires i) \<Longrightarrow>
     fst (fst (Do_loop n (counted work) fires a (k, s))) = k + Suc (nat (n - a))"
proof (induction "nat (n - a)" arbitrary: a k s rule: less_induct)
  case (less a k s)
  show ?case
  proof (cases "a < n")
    case True
    have "slow_failure_at work i (fst (work s))" for i
      using less.prems(1) [of "Suc i"] by (simp add: attempt_simps)
    then show ?thesis
      using True less.prems less.hyps [of "a + 1" "fst (work s)" "Suc k"]
      by (simp add: Do_loop_counted_retry)
  qed (simp add: Do_loop_counted_stop)
qed

text \<open>A fast failure ends the loop, whatever is left of the budget.\<close>

lemma Do_loop_fast:
  "fast_failure_at work k s e \<Longrightarrow> k = 0 \<or> a + int k \<le> n \<Longrightarrow>
     (\<And>i. i < k \<Longrightarrow> slow_failure_at work i s \<and> \<not> fires (a + int i)) \<Longrightarrow>
     Do_loop n (counted work) fires a (c, s) = ((c + Suc k, state_at work (Suc k) s), Some (TooFast e))"
proof (induction k arbitrary: a c s)
  case 0
  then obtain s' elapsed where w: "work s = (s', Some e, elapsed)" and "elapsed < fastFailThreshold"
    by (auto simp: fast_failure_at_def)
  moreover have "counted work (c, s) = ((Suc c, s'), Some e, elapsed)"
    using w by (simp add: counted_def)
  ultimately show ?case
    by (simp add: Do_loop.simps [of n "counted work" fires a "(c, s)"])
next
  case (Suc k)
  have "slow_failure_at work i (fst (work s)) \<and> \<not> fires (a + 1 + int i)" if "i < k" for i
    using Suc.prems(3) [of "Suc i"] that by (simp add: slow_failure_at_Suc algebra_simps)
  moreover have "fast_failure_at work k (fst (work s)) e"
    using Suc.prems(1) by (simp add: fast_failure_at_def)
  ultimately have "Do_loop n (counted work) fires (a + 1) (Suc c, fst (work s))
      = ((Suc c + Suc k, state_at work (Suc k) (fst (work s))), Some (TooFast e))"
    using Suc.prems(2) by (intro Suc.IH) auto
  moreover have "slow_failure_at work 0 s" "\<not> fires a" "a < n"
    using Suc.prems(2) Suc.prems(3) [of 0] by auto
  ultimately show ?case by (simp add: Do_loop_counted_retry)
qed

text \<open>A successful call ends with a successful attempt, in a state that failed attempts lead to.\<close>

lemma Do_loop_last:
  assumes "Do_loop n work fires a s = (t, None)" "P s"
    and "\<And>s s' e el. P s \<Longrightarrow> work s = (s', Some e, el) \<Longrightarrow> P s'"
  shows "\<exists>s' el. P s' \<and> work s' = (t, None, el)"
  using assms
proof (induction n work fires a s rule: Do_loop.induct)
  case (1 n work fires a s)
  obtain s' err el where w: "work s = (s', err, el)" by (cases "work s")
  show ?case
  proof (cases err)
    case None
    then show ?thesis using 1 w by (auto simp: Do_loop.simps [of n work fires a s])
  next
    case (Some e)
    then have c: "Do_loop n work fires (a + 1) s' = (t, None)"
      "\<not> el < fastFailThreshold" "\<not> n \<le> a" "\<not> fires a"
      using 1(2) w by (auto simp: Do_loop.simps [of n work fires a s] split: if_splits)
    have "P s'" using 1(3,4) w Some by blast
    then show ?thesis
      by (rule 1(1) [OF w [symmetric] refl Some c(2-4) c(1)]) (rule 1(4))
  qed
qed

section \<open>Properties\<close>

text \<open>
  C22: \<open>Do\<close> returns nil exactly when some attempt \<open>k\<close>, not beyond the budget of \<open>retryCount\<close>
  retries (a negative budget still allows the first attempt), succeeds, every earlier attempt
  failed no faster than the threshold, and no earlier sleep was cancelled; the variables the
  closure captures are then as that successful call left them.
\<close>

theorem Do_success_iff:
  "Do False retryCount work fires s = (t, None) \<longleftrightarrow>
     (\<exists>k. succeeds_at work k s \<and> int k \<le> max 0 retryCount \<and> t = state_at work (Suc k) s \<and>
        (\<forall>i < k. slow_failure_at work i s \<and> \<not> fires (int i)))"
  unfolding Do_def by (auto simp: Do_loop_success_iff max_def)

theorem Do_success_iff_witness:
  "Do False 3 (\<lambda>n :: nat. (n + 1, if n < 2 then Some ''busy'' else None, 2 * Second)) (\<lambda>_. False) 0
     = (3, None)"
proof -
  let ?w = "\<lambda>n :: nat. (n + 1, if n < 2 then Some ''busy'' else None, 2 * Second)"
  have "succeeds_at ?w 2 0" "slow_failure_at ?w 0 0" "slow_failure_at ?w (Suc 0) 0"
    by (simp_all add: succeeds_at_def slow_failure_at_def numeral_2_eq_2 fastFailThreshold_def
        go_time_simps)
  moreover have "state_at ?w (Suc 2) 0 = 3" by (simp add: numeral_2_eq_2)
  ultimately show ?thesis
    unfolding Do_success_iff
    by (intro exI [of _ 2]) (auto simp: less_Suc_eq numeral_2_eq_2)
qed

text \<open>
  C40: \<open>Do\<close> calls the closure at least once and at most \<open>retryCount + 1\<close> times (once for a
  negative count), whatever the closure and the context do; when every attempt is a slow
  failure and the context never fires it is called exactly that often. No fast failure is allowed
  for: the first attempt that fails faster than the threshold is the last call, even with budget
  left, and its error is returned as the reason to give up.
\<close>

theorem Do_attempt_bounds:
  fixes work :: "('s, 'e) work"
  defines "calls \<equiv> \<lambda>n fires s. fst (fst (Do False n (counted work) fires (0, s)))"
  shows "1 \<le> calls n fires s \<and> calls n fires s \<le> Suc (nat n) \<and>
    ((\<forall>i. slow_failure_at work i s) \<longrightarrow> calls n (\<lambda>_. False) s = Suc (nat n)) \<and>
    (fast_failure_at work k s e \<and> int k \<le> max 0 n \<and>
     (\<forall>i < k. slow_failure_at work i s \<and> \<not> fires (int i)) \<longrightarrow>
       Do False n (counted work) fires (0, s) = ((Suc k, state_at work (Suc k) s), Some (TooFast e)))"
  using Do_loop_calls [where n = n and fires = fires and a = 0 and k = 0 and s = s and work = work]
    Do_loop_all_slow [where n = n and fires = "\<lambda>_. False" and a = 0 and k = 0 and s = s and work = work]
    Do_loop_fast [where n = n and fires = fires and a = 0 and k = k and c = 0 and s = s and work = work and e = e]
  by (auto simp: calls_def Do_def max_def split: if_splits)

theorem Do_attempt_bounds_witness:
  "fst (fst (Do False 3 (counted (\<lambda>u :: unit. (u, Some ''boom'', Second))) (\<lambda>_. False) (0, ()))) = 4 \<and>
   Do False 3 (counted (\<lambda>m :: nat. (m + 1, Some ''boom'', if m = 0 then Second else 0))) (\<lambda>_. False) (0, 0)
     = ((2, 2), Some (TooFast ''boom''))"
proof
  have "\<forall>i. slow_failure_at (\<lambda>u :: unit. (u, Some ''boom'', Second)) i ()"
    by (simp add: slow_failure_at_def succeeds_at_def fastFailThreshold_def)
  then show "fst (fst (Do False 3 (counted (\<lambda>u :: unit. (u, Some ''boom'', Second))) (\<lambda>_. False) (0, ()))) = 4"
    using Do_attempt_bounds [of 3 "\<lambda>u :: unit. (u, Some ''boom'', Second)" "\<lambda>_. False" "()"] by simp
  let ?w = "\<lambda>m :: nat. (m + 1, Some ''boom'', if m = 0 then Second else 0)"
  have "fast_failure_at ?w 1 0 ''boom''" "\<forall>i < 1. slow_failure_at ?w i 0"
    by (simp_all add: fast_failure_at_def slow_failure_at_def succeeds_at_def fastFailThreshold_def go_time_simps)
  then show "Do False 3 (counted ?w) (\<lambda>_. False) (0, 0) = ((2, 2), Some (TooFast ''boom''))"
    using Do_attempt_bounds [of 3 ?w "\<lambda>_. False" 0 1 "''boom''"] by simp
qed

end
