(* ===== verification/Acme.thy ===== *)
theory Acme
  imports Retry Config_Server
begin

text \<open>
  Package \<open>pkg/acme\<close>: the interface \<open>Obtainer\<close> through which the server fetches certificates, its
  two implementations (\<open>ACME\<close>, backed by the lego client, and \<open>MockACME\<close>), the choice between
  them in \<open>MakeACME\<close> and the choice of a challenge backend in \<open>challenge.go\<close>.

  What lies outside the process is a world of any type \<open>'w\<close>: \<open>ctxErr w\<close> says whether the
  operation's context is done, \<open>now w\<close> is the clock. The lego client, the SDKs of the challenge
  backends, the cryptographic primitives and the PEM encoding are parameters.
\<close>

section \<open>Errors and requests\<close>

datatype acme_error =
    AcmeCtx                               \<comment> \<open>the context was done\<close>
  | ObtainFailed string                   \<comment> \<open>failed obtaining cert\<close>
  | AcmeRetry "acme_error retry_error"    \<comment> \<open>what the retry helper returned\<close>
  | MockNoDomains
  | MockCrypto string

record ObtainRequest =
  or_Domains :: "string list"
  or_Bundle :: bool
  or_NotAfter :: time

type_synonym cert_pair = "bytes \<times> bytes"
type_synonym 'w obtain_fn = "string list \<Rightarrow> time \<Rightarrow> 'w \<Rightarrow> 'w \<times> (acme_error + cert_pair)"
type_synonym 'w lego_client = "ObtainRequest \<Rightarrow> 'w \<Rightarrow> 'w \<times> (string + cert_pair)"

record 'w ACME =
  acme_Client :: "'w lego_client"
  acme_retry :: int
  acme_needNotAfter :: bool

section \<open>The lego-backed obtainer\<close>

definition ACME_Obtain :: "('w \<Rightarrow> bool) \<Rightarrow> 'w ACME \<Rightarrow> 'w obtain_fn" where
  "ACME_Obtain ctxErr a domains deadline w =
     (if ctxErr w then (w, Inl AcmeCtx)
      else
        let request = \<lparr>or_Domains = domains, or_Bundle = True,
              or_NotAfter = (if acme_needNotAfter a then deadline else 0)\<rparr>
        in (case acme_Client a request w of
              (w', Inl e) \<Rightarrow> (w', Inl (ObtainFailed e))
            | (w', Inr p) \<Rightarrow> (w', Inr p)))"

text \<open>The closure of \<open>RetryObtain\<close>: it assigns the captured \<open>fullchain\<close> and \<open>key\<close>.\<close>

definition RetryObtain_work ::
    "('w \<Rightarrow> bool) \<Rightarrow> ('w \<Rightarrow> time) \<Rightarrow> 'w ACME \<Rightarrow> string list \<Rightarrow> time \<Rightarrow>
     ('w \<times> cert_pair, acme_error) work" where
  "RetryObtain_work ctxErr now a domains deadline s =
     (case ACME_Obtain ctxErr a domains deadline (fst s) of
        (w', Inl e) \<Rightarrow> ((w', ([], [])), Some e, now w' - now (fst s))
      | (w', Inr p) \<Rightarrow> ((w', p), None, now w' - now (fst s)))"

definition ACME_RetryObtain ::
    "('w \<Rightarrow> bool) \<Rightarrow> ('w \<Rightarrow> time) \<Rightarrow> (int \<Rightarrow> bool) \<Rightarrow> 'w ACME \<Rightarrow> 'w obtain_fn" where
  "ACME_RetryObtain ctxErr now fires a domains deadline w =
     (case Do (ctxErr w) (acme_retry a) (RetryObtain_work ctxErr now a domains deadline) fires
             (w, ([], [])) of
        ((w', p), None) \<Rightarrow> (w', Inr p)
      | ((w', p), Some e) \<Rightarrow> (w', Inl (AcmeRetry e)))"

section \<open>The mock obtainer\<close>

record x509_template =
  tm_SerialNumber :: int
  tm_CommonName :: string
  tm_OrganizationalUnit :: "string list"
  tm_DNSNames :: "string list"
  tm_IPAddresses :: "bytes list"
  tm_NotBefore :: time
  tm_NotAfter :: time

text \<open>The state of a \<open>MockACME\<close> and the cryptographic primitives it calls.\<close>

record mock_world =
  mw_serial :: int
  mw_now :: time
  mw_ctxErr :: bool

record 'k mock_crypto =
  mc_GenerateKey :: "mock_world \<Rightarrow> string + 'k"
  mc_CreateCertificate :: "x509_template \<Rightarrow> 'k \<Rightarrow> string + bytes"
  mc_MarshalKey :: "'k \<Rightarrow> string + bytes"
  mc_PemEncode :: "string \<Rightarrow> bytes \<Rightarrow> bytes"
  mc_ParseIP :: "string \<Rightarrow> bytes option"

record MockACME =
  mock_lifetime :: duration
  mock_tag :: string

definition NewMockACME :: "string \<Rightarrow> duration \<Rightarrow> MockACME" where
  "NewMockACME tag lifetime =
     \<lparr>mock_lifetime = (if lifetime \<le> 0 then Hour else lifetime), mock_tag = tag\<rparr>"

text \<open>The loop that separates literal IP addresses from DNS names.\<close>

fun split_names :: "(string \<Rightarrow> 'i option) \<Rightarrow> string list \<Rightarrow> string list \<times> 'i list" where
  "split_names parseIP [] = ([], [])"
| "split_names parseIP (d # ds) =
     (let (dns, ips) = split_names parseIP ds in
      (case parseIP d of Some ip \<Rightarrow> (dns, ip # ips) | None \<Rightarrow> (d # dns, ips)))"

definition mock_template ::
    "(string \<Rightarrow> bytes option) \<Rightarrow> MockACME \<Rightarrow> string list \<Rightarrow> time \<Rightarrow> int \<Rightarrow> x509_template" where
  "mock_template parseIP m domains now serial =
     (let (dnsNames, ipAddresses) = split_names parseIP domains in
      \<lparr>tm_SerialNumber = serial, tm_CommonName = hd domains,
       tm_OrganizationalUnit = (if mock_tag m \<noteq> [] then [mock_tag m] else []),
       tm_DNSNames = dnsNames, tm_IPAddresses = ipAddresses,
       tm_NotBefore = now + (- 1) * Minute, tm_NotAfter = now + mock_lifetime m\<rparr>)"

definition MockACME_Obtain :: "'k mock_crypto \<Rightarrow> MockACME \<Rightarrow> mock_world obtain_fn" where
  "MockACME_Obtain cr m domains deadline w =
     (if mw_ctxErr w then (w, Inl AcmeCtx)
      else if length domains = 0 then (w, Inl MockNoDomains)
      else (case mc_GenerateKey cr w of
          Inl e \<Rightarrow> (w, Inl (MockCrypto e))
        | Inr priv \<Rightarrow>
            let serial = mw_serial w + 1;
                w' = w\<lparr>mw_serial := serial\<rparr>;
                tmpl = mock_template (mc_ParseIP cr) m domains (mw_now w) serial
            in (case mc_CreateCertificate cr tmpl priv of
                  Inl e \<Rightarrow> (w', Inl (MockCrypto e))
                | Inr der \<Rightarrow>
                    (case mc_MarshalKey cr priv of
                       Inl e \<Rightarrow> (w', Inl (MockCrypto e))
                     | Inr keyDER \<Rightarrow>
                         (w', Inr (mc_PemEncode cr ''CERTIFICATE'' der,
                                   mc_PemEncode cr ''PRIVATE KEY'' keyDER))))))"

definition MockACME_RetryObtain :: "'k mock_crypto \<Rightarrow> MockACME \<Rightarrow> mock_world obtain_fn" where
  "MockACME_RetryObtain cr m domains deadline w = MockACME_Obtain cr m domains deadline w"

section \<open>Challenge backends and MakeACME\<close>

datatype challenger =
    CloudflareZone string string              \<comment> \<open>zone token, auth token\<close>
  | CloudflareGlobal string string int duration duration
      \<comment> \<open>email, API key, TTL, propagation timeout, polling interval\<close>
  | TencentCloud string string
  | S3Http S3Client

datatype challenge_error =
    UnknownDnsType string
  | UnknownHttpType string
  | UnknownChallengeType string
  | S3BucketRequired
  | SdkError string
  | SetupFailed string
  | UnknownProviderType string
  | MakeUserFailed string
  | LegoClientFailed string

text \<open>The constructors of the SDK clients may fail: \<open>sdk\<close> gives the error, if any.\<close>

type_synonym sdk = "challenger \<Rightarrow> string option"

definition build_challenger :: "sdk \<Rightarrow> challenger \<Rightarrow> (challenge_error, challenger) outcome" where
  "build_challenger sdk ch = (case sdk ch of None \<Rightarrow> Return ch | Some e \<Rightarrow> Fail (SdkError e))"

definition cloudflare_New :: "sdk \<Rightarrow> DnsProvider \<Rightarrow> (challenge_error, challenger) outcome" where
  "cloudflare_New sdk p =
     (if dp_ZoneToken p \<noteq> [] \<and> dp_AuthToken p \<noteq> []
      then build_challenger sdk (CloudflareZone (dp_ZoneToken p) (dp_AuthToken p))
      else build_challenger sdk
        (CloudflareGlobal (dp_Email p) (dp_APIKey p) 120 (30 * Second) (2 * Second)))"

definition tencentcloud_New :: "sdk \<Rightarrow> DnsProvider \<Rightarrow> (challenge_error, challenger) outcome" where
  "tencentcloud_New sdk p = build_challenger sdk (TencentCloud (dp_SecretID p) (dp_SecretKey p))"

definition s3_NewHTTPProvider :: "sdk \<Rightarrow> S3Client \<Rightarrow> (challenge_error, challenger) outcome" where
  "s3_NewHTTPProvider sdk cfg =
     (if s3_Bucket cfg = [] then Fail S3BucketRequired else build_challenger sdk (S3Http cfg))"

fun with_type ::
    "string \<Rightarrow> (challenge_error, challenger) outcome \<Rightarrow> (challenge_error, string \<times> challenger) outcome" where
  "with_type typ (Return c) = Return (typ, c)"
| "with_type typ (Fail e) = Fail e"
| "with_type typ Panic = Panic"

text \<open>Selecting a field of a nil \<open>DnsProvider\<close>, \<open>HttpProvider\<close> or \<open>S3\<close> pointer panics.\<close>

definition getChallenger :: "sdk \<Rightarrow> ServerConfig \<Rightarrow> (challenge_error, string \<times> challenger) outcome" where
  "getChallenger sdk p =
     (if ac_ChallengeType (sc_ACME p) = ChallengeTypeDns01 then
        (case sc_DnsProvider p of
           None \<Rightarrow> Panic
         | Some d \<Rightarrow>
             if dp_Type d = DnsProviderTypeCloudflare
               then with_type ChallengeTypeDns01 (cloudflare_New sdk d)
             else if dp_Type d = DnsProviderTypeTencentCloud
               then with_type ChallengeTypeDns01 (tencentcloud_New sdk d)
             else Fail (UnknownDnsType (dp_Type d)))
      else if ac_ChallengeType (sc_ACME p) = ChallengeTypeHttp01 then
        (case sc_HttpProvider p of
           None \<Rightarrow> Panic
         | Some h \<Rightarrow>
             if hp_Type h = HttpProviderTypeS3 then
               (case hp_S3 h of
                  None \<Rightarrow> Panic
                | Some s \<Rightarrow> with_type ChallengeTypeHttp01 (s3_NewHTTPProvider sdk s))
             else Fail (UnknownHttpType (hp_Type h)))
      else Fail (UnknownChallengeType (ac_ChallengeType (sc_ACME p))))"

text \<open>What \<open>SetChallenger\<close> installs on the lego client: the challenge and, for DNS-01, whether
  the propagation check is disabled. \<open>installF\<close> is the error of the lego call, if any.\<close>

definition SetChallenger ::
    "sdk \<Rightarrow> (challenger \<Rightarrow> string option) \<Rightarrow> ServerConfig \<Rightarrow>
     (challenge_error, challenger \<times> bool) outcome" where
  "SetChallenger sdk installF p =
     (case getChallenger sdk p of
        Panic \<Rightarrow> Panic
      | Fail e \<Rightarrow> Fail e
      | Return (typ, clg) \<Rightarrow>
          if typ = ChallengeTypeDns01 then
            (case sc_DnsProvider p of
               None \<Rightarrow> Panic
             | Some d \<Rightarrow>
                 (case installF clg of
                    Some e \<Rightarrow> Fail (SetupFailed e)
                  | None \<Rightarrow> Return (clg, dp_DisableCompletePropagationRequirement d)))
          else if typ = ChallengeTypeHttp01 then
            (case installF clg of
               Some e \<Rightarrow> Fail (SetupFailed e)
             | None \<Rightarrow> Return (clg, False))
          else Fail (UnknownProviderType typ))"

datatype 'w obtainer_impl = LegoACME "'w ACME" string challenger bool | MockImpl MockACME

text \<open>
  \<open>makeUser\<close> is the result of \<open>makeACMEUser\<close> (the error, if any), \<open>newClient url\<close> the lego client
  for a directory, or its error, and \<open>tag\<close> the value of the environment variable of the mock.
\<close>

definition MakeACME ::
    "string \<Rightarrow> string option \<Rightarrow> (string \<Rightarrow> string + 'w lego_client) \<Rightarrow> sdk \<Rightarrow> (challenger \<Rightarrow> string option) \<Rightarrow>
     ServerConfig \<Rightarrow> (challenge_error, 'w obtainer_impl) outcome" where
  "MakeACME tag makeUser newClient sdk installF c =
     (if IsMock (ac_Provider (sc_ACME c))
      then Return (MockImpl (NewMockACME tag (ac_CertLifeTimeDuration (sc_ACME c))))
      else (case makeUser of
          Some e \<Rightarrow> Fail (MakeUserFailed e)
        | None \<Rightarrow>
            (case newClient (URL (ac_Provider (sc_ACME c))) of
               Inl e \<Rightarrow> Fail (LegoClientFailed e)
             | Inr client \<Rightarrow>
                 (case SetChallenger sdk installF c of
                    Panic \<Rightarrow> Panic
                  | Fail e \<Rightarrow> Fail e
                  | Return (clg, disableCP) \<Rightarrow>
                      Return (LegoACME
                        \<lparr>acme_Client = client, acme_retry = ac_RetryCount (sc_ACME c),
                         acme_needNotAfter = IsGoogle (ac_Provider (sc_ACME c))\<rparr>
                        (URL (ac_Provider (sc_ACME c))) clg disableCP)))))"

section \<open>The contract of an Obtainer\<close>

text \<open>
  What the server relies on: with a done context nothing is contacted (the world is unchanged)
  and an error is returned, and \<open>RetryObtain\<close> succeeds only with what one call of \<open>Obtain\<close> with
  the same arguments returned.
\<close>

locale obtainer =
  fixes ctxErr :: "'w \<Rightarrow> bool"
    and obtainF :: "'w obtain_fn"
    and retryF :: "'w obtain_fn"
  assumes obtain_done: "ctxErr w \<Longrightarrow> \<exists>e. obtainF ds dl w = (w, Inl e)"
    and retry_done: "ctxErr w \<Longrightarrow> \<exists>e. retryF ds dl w = (w, Inl e)"
    and retry_sound: "retryF ds dl w = (w', Inr p) \<Longrightarrow> \<exists>u. obtainF ds dl u = (w', Inr p)"
begin

text \<open>The call the server makes: with or without retries.\<close>

definition fetch :: "bool \<Rightarrow> 'w obtain_fn" where
  "fetch retry ds dl w = (if retry then retryF ds dl w else obtainF ds dl w)"

lemma fetch_done: "ctxErr w \<Longrightarrow> \<exists>e. fetch retry ds dl w = (w, Inl e)"
  using obtain_done retry_done by (simp add: fetch_def)

lemma fetch_sound: "fetch retry ds dl w = (w', Inr p) \<Longrightarrow> \<exists>u. obtainF ds dl u = (w', Inr p)"
  using retry_sound by (auto simp: fetch_def split: if_splits)

end

lemma RetryObtain_work_success:
  "RetryObtain_work ctxErr now a ds dl s = ((w', p), None, el) \<Longrightarrow>
     ACME_Obtain ctxErr a ds dl (fst s) = (w', Inr p)"
  by (auto simp: RetryObtain_work_def split: prod.splits sum.splits)

interpretation lego: obtainer ctxErr "ACME_Obtain ctxErr a" "ACME_RetryObtain ctxErr now fires a"
  for ctxErr :: "'w \<Rightarrow> bool" and a now fires
proof unfold_locales
  fix ds dl w assume "ctxErr w"
  then show "\<exists>e. ACME_Obtain ctxErr a ds dl w = (w, Inl e)"
    by (simp add: ACME_Obtain_def)
  show "\<exists>e. ACME_RetryObtain ctxErr now fires a ds dl w = (w, Inl e)"
    using \<open>ctxErr w\<close> by (simp add: ACME_RetryObtain_def Do_def)
next
  fix ds dl w w' p
  assume "ACME_RetryObtain ctxErr now fires a ds dl w = (w', Inr p)"
  then have "Do (ctxErr w) (acme_retry a) (RetryObtain_work ctxErr now a ds dl) fires (w, ([], []))
      = ((w', p), None)"
    by (auto simp: ACME_RetryObtain_def split: prod.splits option.splits)
  from Do_success_from [OF this] obtain s el
    where "RetryObtain_work ctxErr now a ds dl s = ((w', p), None, el)"
    by auto
  then show "\<exists>u. ACME_Obtain ctxErr a ds dl u = (w', Inr p)"
    by (blast dest: RetryObtain_work_success)
qed

interpretation mock: obtainer "mw_ctxErr :: mock_world \<Rightarrow> bool" "MockACME_Obtain cr m" "MockACME_RetryObtain cr m"
  for cr :: "'k mock_crypto" and m
proof unfold_locales
  fix ds dl and w :: mock_world assume "mw_ctxErr w"
  then show "\<exists>e. MockACME_Obtain cr m ds dl w = (w, Inl e)"
    and "\<exists>e. MockACME_RetryObtain cr m ds dl w = (w, Inl e)"
    by (simp_all add: MockACME_RetryObtain_def MockACME_Obtain_def)
next
  fix ds dl w w' p
  assume "MockACME_RetryObtain cr m ds dl w = (w', Inr p)"
  then show "\<exists>u. MockACME_Obtain cr m ds dl u = (w', Inr p)"
    by (auto simp: MockACME_RetryObtain_def)
qed

section \<open>Lemmas\<close>

lemma split_names_spec:
  "fst (split_names parseIP ds) = filter (\<lambda>d. parseIP d = None) ds \<and>
   snd (split_names parseIP ds) = List.map_filter parseIP ds"
  by (induction ds) (auto simp: case_prod_beta Let_def List.map_filter_simps split: option.splits)

lemma build_challenger_not_Panic [simp]: "build_challenger sdk c \<noteq> Panic"
  by (simp add: build_challenger_def split: option.splits)

lemma challenger_New_not_Panic [simp]:
  "cloudflare_New sdk d \<noteq> Panic" "tencentcloud_New sdk d \<noteq> Panic" "s3_NewHTTPProvider sdk s \<noteq> Panic"
  by (simp_all add: cloudflare_New_def tencentcloud_New_def s3_NewHTTPProvider_def)

lemma build_challenger_Fail: "build_challenger sdk c = Fail e \<Longrightarrow> \<exists>m. e = SdkError m"
  by (auto simp: build_challenger_def split: option.splits)

lemma challenger_New_Fail:
  "cloudflare_New sdk d = Fail e \<Longrightarrow> \<exists>m. e = SdkError m"
  "tencentcloud_New sdk d = Fail e \<Longrightarrow> \<exists>m. e = SdkError m"
  "s3_NewHTTPProvider sdk s = Fail e \<Longrightarrow> e = S3BucketRequired \<or> (\<exists>m. e = SdkError m)"
  by (auto simp: cloudflare_New_def tencentcloud_New_def s3_NewHTTPProvider_def split: if_splits
      dest: build_challenger_Fail)

lemma with_type_not_Panic [simp]: "with_type typ o' = Panic \<longleftrightarrow> o' = Panic"
  by (cases o') auto

lemma with_type_Fail [simp]: "with_type typ o' = Fail e \<longleftrightarrow> o' = Fail e"
  by (cases o') auto

lemma with_type_Return [simp]: "with_type typ o' = Return r \<longleftrightarrow> (\<exists>c. o' = Return c \<and> r = (typ, c))"
  by (cases o') auto

lemma challenge_types_distinct [simp]:
  "ChallengeTypeHttp01 \<noteq> ChallengeTypeDns01" "DnsProviderTypeTencentCloud \<noteq> DnsProviderTypeCloudflare"
  by (simp_all add: server_const_defs)

text \<open>A validated challenge reaches one of the three backends.\<close>

lemma getChallenger_backend:
  assumes "challenge_ok c"
  obtains (dns) d new where "ac_ChallengeType (sc_ACME c) = ChallengeTypeDns01" "sc_DnsProvider c = Some d"
      "new \<in> {cloudflare_New sdk d, tencentcloud_New sdk d}"
      "getChallenger sdk c = with_type ChallengeTypeDns01 new"
    | (http) h s where "ac_ChallengeType (sc_ACME c) = ChallengeTypeHttp01" "sc_HttpProvider c = Some h" "hp_S3 h = Some s"
      "getChallenger sdk c = with_type ChallengeTypeHttp01 (s3_NewHTTPProvider sdk s)"
proof -
  consider (d) d where "ac_ChallengeType (sc_ACME c) = ChallengeTypeDns01" "sc_DnsProvider c = Some d"
      "dp_Type d = DnsProviderTypeCloudflare \<or> dp_Type d = DnsProviderTypeTencentCloud"
    | (h) h s where "ac_ChallengeType (sc_ACME c) = ChallengeTypeHttp01" "sc_HttpProvider c = Some h"
      "hp_Type h = HttpProviderTypeS3" "hp_S3 h = Some s"
    using assms unfolding challenge_ok_def dns_credentials_ok_def server_const_defs by blast
  then show thesis
  proof cases
    case d
    show thesis
      by (rule dns [OF d(1,2), of "if dp_Type d = DnsProviderTypeCloudflare
            then cloudflare_New sdk d else tencentcloud_New sdk d"])
        (use d in \<open>auto simp: getChallenger_def\<close>)
  next
    case h
    show thesis
      by (rule http [OF h(1,2,4)]) (simp add: getChallenger_def h)
  qed
qed

text \<open>An error of the account, of an SDK or of lego; and the one error of the configuration that its
  validation leaves to the backend.\<close>

definition environment_error :: "challenge_error \<Rightarrow> bool" where
  "environment_error e \<longleftrightarrow>
     (case e of SdkError _ \<Rightarrow> True | SetupFailed _ \<Rightarrow> True | MakeUserFailed _ \<Rightarrow> True | LegoClientFailed _ \<Rightarrow> True
      | _ \<Rightarrow> False)"

definition bucket_missing :: "ServerConfig \<Rightarrow> bool" where
  "bucket_missing c \<longleftrightarrow> ac_ChallengeType (sc_ACME c) = ChallengeTypeHttp01 \<and>
     (case sc_HttpProvider c of None \<Rightarrow> False
      | Some h \<Rightarrow> (case hp_S3 h of None \<Rightarrow> False | Some s \<Rightarrow> s3_Bucket s = []))"

definition obtainer_error :: "ServerConfig \<Rightarrow> challenge_error \<Rightarrow> bool" where
  "obtainer_error c e \<longleftrightarrow> environment_error e \<or> e = S3BucketRequired \<and> bucket_missing c"

lemma obtainer_error_simps [simp]:
  "obtainer_error c (SdkError m)" "obtainer_error c (SetupFailed m)"
  "obtainer_error c (MakeUserFailed m)" "obtainer_error c (LegoClientFailed m)"
  by (simp_all add: obtainer_error_def environment_error_def)

lemma SetChallenger_ok:
  assumes "challenge_ok c"
  shows "SetChallenger sdk installF c \<noteq> Panic \<and> (\<forall>e. SetChallenger sdk installF c = Fail e \<longrightarrow> obtainer_error c e)"
  using assms
proof (cases rule: getChallenger_backend [where sdk = sdk])
  case (dns d new)
  have "new \<noteq> Panic \<and> (\<forall>e. new = Fail e \<longrightarrow> obtainer_error c e)"
    using dns(3) challenger_New_not_Panic(1,2) [of sdk d] challenger_New_Fail(1,2) [of sdk d]
    by (metis empty_iff obtainer_error_simps(1) insert_iff)
  then show ?thesis
    by (cases new) (auto simp: SetChallenger_def dns split: option.splits)
next
  case (http h s)
  have "obtainer_error c e" if "s3_NewHTTPProvider sdk s = Fail e" for e
  proof (cases "s3_Bucket s = []")
    case True
    then show ?thesis
      using that http by (simp add: s3_NewHTTPProvider_def obtainer_error_def bucket_missing_def)
  next
    case False
    then show ?thesis
      using that build_challenger_Fail [of sdk "S3Http s" e] by (auto simp: s3_NewHTTPProvider_def)
  qed
  then show ?thesis
    by (cases "s3_NewHTTPProvider sdk s") (auto simp: SetChallenger_def http split: option.splits)
qed

lemma MakeACME_ok:
  assumes "IsMock (ac_Provider (sc_ACME c)) \<or> challenge_ok c"
  shows "MakeACME tag user client sdk installF c \<noteq> Panic \<and>
    (\<forall>e. MakeACME tag user client sdk installF c = Fail e \<longrightarrow> obtainer_error c e)"
  using assms SetChallenger_ok [of c sdk installF]
  by (auto simp: MakeACME_def split: option.splits sum.splits outcome.splits)

lemma Validate_keeps_challenge:
  "challenge_ok (fst (ServerConfig_Validate parse exists c)) = challenge_ok c"
  "ac_Provider (sc_ACME (fst (ServerConfig_Validate parse exists c))) = ac_Provider (sc_ACME c)"
  "obtainer_error (fst (ServerConfig_Validate parse exists c)) = obtainer_error c"
  by (simp_all add: ServerConfig_Validate_fst ServerConfig_parseDuration_def challenge_ok_def obtainer_error_def
      bucket_missing_def fun_eq_iff Let_def
      split: option.splits)

section \<open>Properties\<close>

text \<open>
  Building the obtainer from a configuration that passed validation never dereferences a nil
  provider, and fails only with an SDK, lego or account error, or because the configured S3 bucket
  is empty, which validation does not look at; never for an unknown provider, challenge or backend
  type.
\<close>

theorem validated_MakeACME_safe:
  assumes "snd (ServerConfig_Validate parse exists c) = []"
  shows "MakeACME tag user client sdk installF (fst (ServerConfig_Validate parse exists c)) \<noteq> Panic \<and>
    (\<forall>e. MakeACME tag user client sdk installF (fst (ServerConfig_Validate parse exists c)) = Fail e
       \<longrightarrow> environment_error e \<or> e = S3BucketRequired \<and> bucket_missing c)"
proof -
  have "IsMock (ac_Provider (sc_ACME c)) \<or> challenge_ok c"
    using assms unfolding Validate_ok_iff by (simp add: config_ok_def)
  then show ?thesis
    using MakeACME_ok [of "fst (ServerConfig_Validate parse exists c)" tag user client sdk installF]
    by (simp add: Validate_keeps_challenge obtainer_error_def)
qed

theorem validated_MakeACME_safe_witness:
  "MakeACME [] None (\<lambda>_. Inr (\<lambda>r w :: unit. (w, Inl ''down''))) (\<lambda>_. None) (\<lambda>_. None)
     (fst (ServerConfig_Validate example_parse (\<lambda>_. False) example_config)) \<noteq> Panic"
  by (rule validated_MakeACME_safe [THEN conjunct1]) (simp add: Validate_ok_iff example_config_ok)

text \<open>
  A certificate that \<open>RetryObtain\<close> returns is exactly what one call of the lego client
  returned for a bundle request with the same domains, whose \<open>NotAfter\<close> is the deadline for a
  provider that needs one and unset otherwise; on an error no certificate is returned.
\<close>

theorem RetryObtain_sound:
  assumes "ACME_RetryObtain ctxErr now fires a ds dl w = (w', Inr p)"
  shows "\<exists>u. acme_Client a \<lparr>or_Domains = ds, or_Bundle = True,
     or_NotAfter = (if acme_needNotAfter a then dl else 0)\<rparr> u = (w', Inr p) \<and> \<not> ctxErr u"
  using lego.retry_sound [OF assms]
  by (force simp: ACME_Obtain_def Let_def split: if_splits prod.splits sum.splits)

theorem RetryObtain_sound_witness:
  "\<exists>u. (\<lambda>(r :: ObtainRequest) (n :: nat). (n + 1, if n = 0 then Inl ''busy'' else Inr (''c'', ''k'')))
     \<lparr>or_Domains = [''a.b''], or_Bundle = True, or_NotAfter = 7\<rparr> u = (2, Inr (''c'', ''k'')) \<and> \<not> False"
proof -
  let ?a = "\<lparr>acme_Client = \<lambda>(r :: ObtainRequest) (n :: nat).
      (n + 1, if n = 0 then Inl ''busy'' else Inr (''c'', ''k'')),
      acme_retry = 3, acme_needNotAfter = True\<rparr>"
  have "ACME_RetryObtain (\<lambda>_. False) (\<lambda>n. int n * 2 * Second) (\<lambda>_. False) ?a [''a.b''] 7 0
      = (2, Inr (''c'', ''k''))"
    by (simp add: ACME_RetryObtain_def Do_def Do_loop.simps RetryObtain_work_def ACME_Obtain_def
        Let_def fastFailThreshold_def go_time_simps)
  from RetryObtain_sound [OF this] show ?thesis by simp
qed

text \<open>
  The mock returns the PEM encoding of the certificate it creates, which is valid at its time
  of issue and for the configured lifetime (one hour when that is not positive), names every
  requested domain in order, split into literal addresses and DNS names, and carries the next
  serial number, which is then used up.
\<close>

theorem mock_certificate:
  assumes "MockACME_Obtain cr (NewMockACME tag lifetime) ds dl w = (w', Inr (fullchain, key))"
  shows "\<exists>t priv der. mc_CreateCertificate cr t priv = Inr der \<and>
    fullchain = mc_PemEncode cr ''CERTIFICATE'' der \<and>
    tm_NotBefore t < mw_now w \<and> mw_now w < tm_NotAfter t \<and>
    tm_NotAfter t - mw_now w = (if lifetime \<le> 0 then Hour else lifetime) \<and>
    tm_CommonName t = hd ds \<and> ds \<noteq> [] \<and>
    tm_DNSNames t = filter (\<lambda>d. mc_ParseIP cr d = None) ds \<and>
    tm_IPAddresses t = List.map_filter (mc_ParseIP cr) ds \<and>
    tm_SerialNumber t = mw_serial w + 1 \<and> w' = w\<lparr>mw_serial := mw_serial w + 1\<rparr>"
proof -
  let ?t = "mock_template (mc_ParseIP cr) (NewMockACME tag lifetime) ds (mw_now w) (mw_serial w + 1)"
  obtain priv der where "mc_CreateCertificate cr ?t priv = Inr der"
    and "fullchain = mc_PemEncode cr ''CERTIFICATE'' der" "ds \<noteq> []"
    and "w' = w\<lparr>mw_serial := mw_serial w + 1\<rparr>"
    using assms by (auto simp: MockACME_Obtain_def Let_def split: if_splits sum.splits)
  then show ?thesis
    by (intro exI [of _ ?t] exI [of _ priv] exI [of _ der])
      (auto simp: mock_template_def NewMockACME_def split_names_spec Let_def case_prod_beta go_time_simps)
qed

definition example_mock_crypto :: "unit mock_crypto" where
  "example_mock_crypto =
     \<lparr>mc_GenerateKey = \<lambda>_. Inr (), mc_CreateCertificate = \<lambda>t _. Inr (tm_CommonName t),
      mc_MarshalKey = \<lambda>_. Inr ''k'', mc_PemEncode = \<lambda>t b. t @ b,
      mc_ParseIP = \<lambda>s. if s = ''1.2.3.4'' then Some ''ip'' else None\<rparr>"

theorem mock_certificate_witness:
  "\<exists>t priv der. mc_CreateCertificate example_mock_crypto t priv = Inr der \<and>
     tm_NotAfter t = 1000 + Hour \<and> tm_DNSNames t = [''a.b''] \<and> tm_IPAddresses t = [''ip''] \<and>
     tm_SerialNumber t = 6"
proof -
  let ?w = "\<lparr>mw_serial = 5, mw_now = 1000, mw_ctxErr = False\<rparr>"
  have "MockACME_Obtain example_mock_crypto (NewMockACME [] 0) [''a.b'', ''1.2.3.4''] 0 ?w
      = (?w\<lparr>mw_serial := 6\<rparr>, Inr (''CERTIFICATE'' @ ''a.b'', ''PRIVATE KEY'' @ ''k''))"
    by (simp add: MockACME_Obtain_def Let_def example_mock_crypto_def mock_template_def case_prod_beta)
  from mock_certificate [OF this] obtain t priv der where
    "mc_CreateCertificate example_mock_crypto t priv = Inr der" "tm_NotAfter t - 1000 = Hour"
    "tm_DNSNames t = filter (\<lambda>d. mc_ParseIP example_mock_crypto d = None) [''a.b'', ''1.2.3.4'']"
    "tm_IPAddresses t = List.map_filter (mc_ParseIP example_mock_crypto) [''a.b'', ''1.2.3.4'']"
    "tm_SerialNumber t = 5 + 1"
    by (auto simp del: filter.simps)
  then show ?thesis
    by (intro exI [of _ t] exI [of _ priv] exI [of _ der])
      (simp add: example_mock_crypto_def List.map_filter_simps)
qed

end
