(* ===== verification/Server.thy ===== *)
theory Server
  imports Cert_Store Acme
begin

text \<open>
  \<open>pkg/server/server.go\<close>: the server's state, its start from the certificate store, and \<open>renew\<close>
  as one call that is not interleaved with others (the interleavings are in
  \<open>Entry_Concurrency\<close>). The obtainer is a parameter, as it is an interface in the code: the
  definitions take its two methods, and the lemmas on them are proved in the locale of its contract
  and hold for the lego-backed obtainer and the mock by interpretation.
\<close>

section \<open>State\<close>

record 'w CertDXServer =
  sv_Config :: ServerConfig
  sv_cache :: certCache
  sv_certStore :: CertStore
  sv_chans :: nat                \<comment> \<open>channels made so far\<close>
  sv_ctxs :: nat                 \<comment> \<open>renewal contexts made so far\<close>
  sv_stopped :: bool             \<comment> \<open>the root context is done\<close>
  sv_world :: 'w

definition MakeCertDXServer :: "os_env \<Rightarrow> ServerConfig \<Rightarrow> 'w \<Rightarrow> store_error + 'w CertDXServer" where
  "MakeCertDXServer os zero w =
     (case NewCertStore os of
        Inl e \<Rightarrow> Inl e
      | Inr store \<Rightarrow>
          Inr \<lparr>sv_Config = ServerConfig_SetDefault zero, sv_cache = makeCertCache, sv_certStore = store,
            sv_chans = 0, sv_ctxs = 0, sv_stopped = False, sv_world = w\<rparr>)"

definition Stop :: "'w CertDXServer \<Rightarrow> 'w CertDXServer" where
  "Stop s = s\<lparr>sv_stopped := True\<rparr>"

text \<open>Whether \<open>Wait\<close> returns.\<close>

definition Wait :: "'w CertDXServer \<Rightarrow> bool" where
  "Wait s = sv_stopped s"

section \<open>Loading the store\<close>

text \<open>The body of the loop: look the bundle up and set its certificate.\<close>

definition load_entry :: "(string \<Rightarrow> string) \<Rightarrow> certStoreEntry \<Rightarrow> 'w CertDXServer \<Rightarrow> 'w CertDXServer" where
  "load_entry lw c s =
     (let (k, m) = getNoLock lw (sv_chans s) (se_Domains c) (sv_cache s) in
      s\<lparr>sv_cache := m(k := map_option (\<lambda>e. e\<lparr>e_cert := se_Cert c\<rparr>) (m k)), sv_chans := sv_chans s + 1\<rparr>)"

text \<open>The loop over \<open>certStore.entries\<close> in the order \<open>ks\<close>.\<close>

fun load_entries ::
    "(string \<Rightarrow> string) \<Rightarrow> (Key \<rightharpoonup> certStoreEntry) \<Rightarrow> Key list \<Rightarrow> 'w CertDXServer \<Rightarrow> 'w CertDXServer" where
  "load_entries lw es [] s = s"
| "load_entries lw es (k # ks) s =
     load_entries lw es ks (case es k of None \<Rightarrow> s | Some c \<Rightarrow> load_entry lw c s)"

definition loadCertStore ::
    "(string \<Rightarrow> string) \<Rightarrow> time \<Rightarrow> Key list \<Rightarrow> Key list \<Rightarrow> store_file option \<Rightarrow> 'w CertDXServer \<Rightarrow>
     (store_error, 'w CertDXServer) outcome" where
  "loadCertStore lw now order ks file s =
     (case Load lw now order file (sv_certStore s) of
        Panic \<Rightarrow> Panic
      | Fail e \<Rightarrow> if e = NotExist then Return s else Fail e
      | Return store \<Rightarrow> Return (load_entries lw (st_entries store) ks (s\<lparr>sv_certStore := store\<rparr>)))"

text \<open>
  \<open>Init\<close>: \<open>made\<close> is the result of \<open>MakeACME\<close> on the configuration. A store that cannot be loaded
  is only logged.
\<close>

definition Init ::
    "(challenge_error, 'o) outcome \<Rightarrow> (string \<Rightarrow> string) \<Rightarrow> time \<Rightarrow> Key list \<Rightarrow> Key list \<Rightarrow> store_file option \<Rightarrow>
     'w CertDXServer \<Rightarrow> (challenge_error, 'o \<times> 'w CertDXServer) outcome" where
  "Init made lw now order ks file s =
     (case made of
        Panic \<Rightarrow> Panic
      | Fail e \<Rightarrow> Fail e
      | Return acme \<Rightarrow>
          (case loadCertStore lw now order ks file s of
             Panic \<Rightarrow> Panic
           | Fail _ \<Rightarrow> Return (acme, s)
           | Return s' \<Rightarrow> Return (acme, s')))"

section \<open>renew\<close>

datatype renew_result =
    RenewOk bool
  | RenewErr acme_error
  | RenewBlocked      \<comment> \<open>at the select: the writer's buffer is full and the context is live\<close>
  | RenewNil          \<comment> \<open>no such entry: a nil pointer\<close>

text \<open>\<open>pick\<close> is Go's choice at the select when both the buffer has room and the context is done. The
  clock moves with the world, so the test of the current certificate and the new deadline, which the
  code computes one after the other before it calls the obtainer, read the same time.\<close>

definition renew ::
    "('w \<Rightarrow> bool) \<Rightarrow> ('w \<Rightarrow> time) \<Rightarrow> 'w obtain_fn \<Rightarrow> 'w obtain_fn \<Rightarrow> bool \<Rightarrow> Key \<Rightarrow> bool \<Rightarrow>
     'w CertDXServer \<Rightarrow> renew_result \<times> 'w CertDXServer" where
  "renew ctxErr now obtainF retryF pick k retry s =
     (if ctxErr (sv_world s) then (RenewErr AcmeCtx, s)
      else (case sv_cache s k of
          None \<Rightarrow> (RenewNil, s)
        | Some c \<Rightarrow>
            let current = fst (Snapshot c) in
            if IsValid (now (sv_world s)) current then (RenewOk False, s)
            else
              let vb = newValidBefore (ac_CertLifeTimeDuration (sc_ACME (sv_Config s))) (now (sv_world s));
                  dl = vb + ac_RenewTimeLeftDuration (sc_ACME (sv_Config s))
              in (case (if retry then retryF (e_domains c) dl (sv_world s)
                        else obtainF (e_domains c) dl (sv_world s)) of
                    (w', Inl err) \<Rightarrow> (RenewErr err, s\<lparr>sv_world := w'\<rparr>)
                  | (w', Inr (fullchain, key)) \<Rightarrow>
                      let newCert = \<lparr>c_FullChain = fullchain, c_Key = key, c_ValidBefore = vb, c_RenewAt = now w'\<rparr>;
                          (old, c') = publish newCert (sv_chans s) c;
                          s' = s\<lparr>sv_cache := (sv_cache s)(k \<mapsto> c'), sv_chans := sv_chans s + 1, sv_world := w'\<rparr>;
                          st = sv_certStore s;
                          sent = s'\<lparr>sv_certStore := st\<lparr>st_update :=
                            st_update st @ [\<lparr>se_Domains = e_domains c, se_Cert = newCert\<rparr>]\<rparr>\<rparr>;
                          room = (length (st_update st) < 10)
                      in if room \<and> (pick \<or> \<not> ctxErr w') then (RenewOk True, sent)
                         else if ctxErr w' then (RenewOk True, s')
                         else (RenewBlocked, s'))))"

text \<open>\<open>subscribe\<close> and \<open>release\<close> on an entry of the cache; the first component is the context of the
  goroutine that is started or cancelled.\<close>

definition server_subscribe :: "Key \<Rightarrow> 'w CertDXServer \<Rightarrow> nat option \<times> 'w CertDXServer" where
  "server_subscribe k s =
     (case sv_cache s k of
        None \<Rightarrow> (None, s)
      | Some c \<Rightarrow> let (st, c') = subscribe (sv_ctxs s) c in
          (st, s\<lparr>sv_cache := (sv_cache s)(k \<mapsto> c'), sv_ctxs := sv_ctxs s + 1\<rparr>))"

definition server_release :: "Key \<Rightarrow> 'w CertDXServer \<Rightarrow> nat option \<times> 'w CertDXServer" where
  "server_release k s =
     (case sv_cache s k of
        None \<Rightarrow> (None, s)
      | Some c \<Rightarrow> let (cn, c') = release c in (cn, s\<lparr>sv_cache := (sv_cache s)(k \<mapsto> c')\<rparr>))"

text \<open>
  One iteration of \<open>subscribeCertCacheEntry\<close>: renew, then wait for a quarter of the configured time
  or for the context. \<open>fires\<close> says that the context ends the wait, \<open>sleep\<close> lets the time pass. The
  first component says whether the loop goes on.
\<close>

definition renew_iteration ::
    "('w \<Rightarrow> bool) \<Rightarrow> ('w \<Rightarrow> time) \<Rightarrow> 'w obtain_fn \<Rightarrow> 'w obtain_fn \<Rightarrow> bool \<Rightarrow> ('w \<Rightarrow> bool) \<Rightarrow>
     (duration \<Rightarrow> 'w \<Rightarrow> 'w) \<Rightarrow> Key \<Rightarrow> 'w CertDXServer \<Rightarrow> bool \<times> 'w CertDXServer" where
  "renew_iteration ctxErr now obtainF retryF pick fires sleep k s =
     (case renew ctxErr now obtainF retryF pick k True s of
        (r, s') \<Rightarrow>
          if (case r of RenewErr _ \<Rightarrow> ctxErr (sv_world s') | _ \<Rightarrow> False) then (False, s')
          else if fires (sv_world s') then (False, s')
          else (True, s'\<lparr>sv_world := sleep
            (ac_RenewTimeLeftDuration (sc_ACME (sv_Config s')) sdiv 4) (sv_world s')\<rparr>))"

section \<open>Lemmas on renew\<close>

context obtainer begin

lemma renew_done: "ctxErr (sv_world s) \<Longrightarrow> renew ctxErr now obtainF retryF pick k retry s = (RenewErr AcmeCtx, s)"
  by (simp add: renew_def)

lemma renew_valid:
  "\<not> ctxErr (sv_world s) \<Longrightarrow> sv_cache s k = Some c \<Longrightarrow> IsValid (now (sv_world s)) (e_cert c) \<Longrightarrow>
     renew ctxErr now obtainF retryF pick k retry s = (RenewOk False, s)"
  by (simp add: renew_def Snapshot_def)

text \<open>Errors leave the cached certificates and the store alone.\<close>

lemma renew_err:
  "renew ctxErr now obtainF retryF pick k retry s = (RenewErr e, s') \<Longrightarrow>
     sv_cache s' = sv_cache s \<and> sv_certStore s' = sv_certStore s"
  by (auto simp: renew_def publish_def Let_def split: if_splits option.splits prod.splits sum.splits)

lemma renew_new:
  assumes "renew ctxErr now obtainF retryF pick k retry s = (r, s')" "r = RenewOk True \<or> r = RenewBlocked"
  shows "\<exists>c u w' fullchain key. sv_cache s k = Some c \<and> \<not> IsValid (now (sv_world s)) (e_cert c) \<and>
    obtainF (e_domains c) (newValidBefore (ac_CertLifeTimeDuration (sc_ACME (sv_Config s))) (now (sv_world s))
       + ac_RenewTimeLeftDuration (sc_ACME (sv_Config s))) u = (w', Inr (fullchain, key)) \<and>
    sv_cache s' = (sv_cache s)(k \<mapsto> c\<lparr>e_cert := \<lparr>c_FullChain = fullchain, c_Key = key,
       c_ValidBefore = newValidBefore (ac_CertLifeTimeDuration (sc_ACME (sv_Config s))) (now (sv_world s)),
       c_RenewAt = now w'\<rparr>, e_version := e_version c + 1, e_updated := sv_chans s\<rparr>)"
proof -
  obtain c where c: "sv_cache s k = Some c" "\<not> IsValid (now (sv_world s)) (e_cert c)" "\<not> ctxErr (sv_world s)"
    using assms by (auto simp: renew_def Snapshot_def split: if_splits option.splits)
  let ?vb = "newValidBefore (ac_CertLifeTimeDuration (sc_ACME (sv_Config s))) (now (sv_world s))"
  let ?dl = "?vb + ac_RenewTimeLeftDuration (sc_ACME (sv_Config s))"
  obtain w' fullchain key where
    f: "fetch retry (e_domains c) ?dl (sv_world s) = (w', Inr (fullchain, key))"
    using assms c by (auto simp: renew_def fetch_def Snapshot_def Let_def split: if_splits prod.splits sum.splits)
  obtain u where "obtainF (e_domains c) ?dl u = (w', Inr (fullchain, key))"
    using fetch_sound [OF f] by blast
  moreover have "sv_cache s' = (sv_cache s)(k \<mapsto> c\<lparr>e_cert := \<lparr>c_FullChain = fullchain, c_Key = key,
       c_ValidBefore = ?vb, c_RenewAt = now w'\<rparr>, e_version := e_version c + 1, e_updated := sv_chans s\<rparr>)"
    using assms c f by (auto simp: renew_def fetch_def Snapshot_def publish_def Let_def split: if_splits)
  ultimately show ?thesis using c by blast
qed

end

section \<open>Lemmas on loading\<close>

lemma load_entry_cert:
  "map_option e_cert (sv_cache (load_entry lw c s) k) =
     (if k = AsKey lw (se_Domains c) then Some (se_Cert c) else map_option e_cert (sv_cache s k))"
  by (auto simp: load_entry_def getNoLock_def Let_def split: option.splits)

lemma load_entries_cert:
  assumes "store_wf lw es"
  shows "map_option e_cert (sv_cache (load_entries lw es ks s) k) =
    (case (if k \<in> set ks then es k else None) of
       Some c \<Rightarrow> Some (se_Cert c) | None \<Rightarrow> map_option e_cert (sv_cache s k))"
proof (induction ks arbitrary: s)
  case (Cons a ks)
  have "k = a" if "es a = Some c" "k = AsKey lw (se_Domains c)" for c
    using assms that by (simp add: store_wf_def)
  then show ?case
    using Cons assms by (auto simp: load_entry_cert store_wf_def split: option.splits)
qed simp

lemma load_entries_frame [simp]:
  "sv_world (load_entries lw es ks s) = sv_world s" "sv_Config (load_entries lw es ks s) = sv_Config s"
  "sv_stopped (load_entries lw es ks s) = sv_stopped s"
  by (induction ks arbitrary: s) (auto simp: load_entry_def Let_def case_prod_beta split: option.splits)

text \<open>The cache after the start from a stored file.\<close>

lemma Init_stored:
  assumes wf: "store_wf lw es" and order: "set order = dom es"
    and ks: "set ks = {k. \<exists>e. es k = Some e \<and> IsValid now (se_Cert e)}"
    and new: "st_entries (sv_certStore s) = Map.empty" "sv_cache s = Map.empty"
    and made: "made = Return ob"
  shows "\<exists>s'. Init made lw now order ks (Some (JsonStore (\<lambda>k. map_option Some (es k)))) s = Return (ob, s') \<and>
    sv_Config s' = sv_Config s \<and> sv_stopped s' = sv_stopped s \<and>
    (\<forall>k. map_option e_cert (sv_cache s' k) =
       (case es k of Some e \<Rightarrow> if IsValid now (se_Cert e) then Some (se_Cert e) else None | None \<Rightarrow> None))"
proof -
  let ?es = "\<lambda>k. case es k of Some e \<Rightarrow> if IsValid now (se_Cert e) then Some e else None | None \<Rightarrow> None"
  let ?s = "s\<lparr>sv_certStore := (sv_certStore s)\<lparr>st_entries := ?es\<rparr>\<rparr>"
  have wf': "store_wf lw ?es"
    using wf by (auto simp: store_wf_def split: option.splits if_splits)
  have "map_option e_cert (sv_cache (load_entries lw ?es ks ?s) k) =
      (case es k of Some e \<Rightarrow> if IsValid now (se_Cert e) then Some (se_Cert e) else None | None \<Rightarrow> None)" for k
    using load_entries_cert [OF wf', of ks ?s k] ks new(2) by (auto split: option.splits)
  then show ?thesis
    by (simp add: Init_def loadCertStore_def Load_stored [OF wf order new(1)] made)
qed

text \<open>What a cache holds of a file: nothing of one that is missing, unreadable or not JSON, and of the
  others the unexpired entries, each under the key of its names, with one for every bundle.\<close>

definition cache_from :: "(string \<Rightarrow> string) \<Rightarrow> time \<Rightarrow> store_file option \<Rightarrow> certCache \<Rightarrow> bool" where
  "cache_from lw now file m \<longleftrightarrow>
     (case file of
        Some (JsonStore raw) \<Rightarrow>
          (\<forall>k e. m k = Some e \<longrightarrow> (\<exists>k' f. raw k' = Some (Some f) \<and> IsValid now (se_Cert f) \<and>
             k = AsKey lw (se_Domains f) \<and> e_cert e = se_Cert f)) \<and>
          (\<forall>k' f. raw k' = Some (Some f) \<longrightarrow> IsValid now (se_Cert f) \<longrightarrow> AsKey lw (se_Domains f) \<in> dom m)
      | _ \<Rightarrow> m = Map.empty)"

lemma cache_from_stored:
  assumes "cache_from lw now (Some (JsonStore (\<lambda>k. map_option Some (es k)))) m" "store_wf lw es"
  shows "map_option e_cert (m k) =
    (case es k of Some e \<Rightarrow> if IsValid now (se_Cert e) then Some (se_Cert e) else None | None \<Rightarrow> None)"
proof -
  have "\<exists>f. es k = Some f \<and> IsValid now (se_Cert f) \<and> e_cert e = se_Cert f" if "m k = Some e" for e
    using assms that by (fastforce simp: cache_from_def store_wf_def)
  moreover have "k \<in> dom m" if "es k = Some f" "IsValid now (se_Cert f)" for f
    using assms that by (fastforce simp: cache_from_def store_wf_def)
  ultimately show ?thesis
    by (cases "m k") (fastforce split: option.splits)+
qed

text \<open>The start from whatever is at the path of the cache; \<open>order\<close> and \<open>ks\<close> are the orders in which
  the loops visit the decoded map and the loaded one.\<close>

lemma Init_file:
  assumes order: "\<And>raw. file = Some (JsonStore raw) \<Longrightarrow> set order = dom raw"
    and ks: "\<And>st. Load lw now order file (sv_certStore s) = Return st \<Longrightarrow> set ks = dom (st_entries st)"
    and new: "st_entries (sv_certStore s) = Map.empty" "sv_cache s = Map.empty"
  shows "((\<exists>raw k. file = Some (JsonStore raw) \<and> raw k = Some None) \<longrightarrow> Init (Return ob) lw now order ks file s = Panic) \<and>
    (\<not> (\<exists>raw k. file = Some (JsonStore raw) \<and> raw k = Some None) \<longrightarrow>
      (\<exists>s'. Init (Return ob) lw now order ks file s = Return (ob, s') \<and> sv_Config s' = sv_Config s \<and>
        sv_stopped s' = sv_stopped s \<and> cache_from lw now file (sv_cache s')))"
proof (cases "\<exists>raw. file = Some (JsonStore raw)")
  case True
  then obtain raw where f: "file = Some (JsonStore raw)" by blast
  have o': "set order = dom raw" by (rule order [OF f])
  show ?thesis
  proof (cases "Load_loop lw now raw order Map.empty")
    case (Return m)
    have no: "\<not> (\<exists>k. raw k = Some None)"
      using Load_loop_Panic [of lw now raw order Map.empty] Return o' by auto
    have from_file: "(\<exists>k'. raw k' = Some (Some e)) \<and> IsValid now (se_Cert e) \<and> k = AsKey lw (se_Domains e)"
      if "m k = Some e" for k e
      using Load_loop_from [OF Return that] by auto
    then have wf: "store_wf lw m" by (auto simp: store_wf_def)
    have k: "set ks = dom m"
      using ks [of "(sv_certStore s)\<lparr>st_entries := m\<rparr>"] Return new(1) by (simp add: Load_def f)
    let ?s = "load_entries lw m ks (s\<lparr>sv_certStore := (sv_certStore s)\<lparr>st_entries := m\<rparr>\<rparr>)"
    have cert: "map_option e_cert (sv_cache ?s k) = map_option se_Cert (m k)" for k
      using load_entries_cert [OF wf, of ks "s\<lparr>sv_certStore := (sv_certStore s)\<lparr>st_entries := m\<rparr>\<rparr>" k] k new(2)
      by (cases "m k") auto
    have src: "\<exists>k' f. raw k' = Some (Some f) \<and> IsValid now (se_Cert f) \<and> k = AsKey lw (se_Domains f) \<and> e_cert e = se_Cert f"
      if cached: "sv_cache ?s k = Some e" for k e
    proof -
      obtain g where "m k = Some g" "e_cert e = se_Cert g"
        using cert [of k] cached by (cases "m k") auto
      then show ?thesis using from_file [of k g] by auto
    qed
    have kept: "AsKey lw (se_Domains g) \<in> dom (sv_cache ?s)" if "raw k' = Some (Some g)" "IsValid now (se_Cert g)" for k' g
    proof -
      have "AsKey lw (se_Domains g) \<in> dom m"
        by (rule Load_loop_keeps [OF Return _ that]) (use o' that in auto)
      then show ?thesis using cert [of "AsKey lw (se_Domains g)"] by (cases "sv_cache ?s (AsKey lw (se_Domains g))") auto
    qed
    have "cache_from lw now file (sv_cache ?s)"
      using src kept by (simp add: cache_from_def f)
    then show ?thesis
      using no Return new(1) by (simp add: Init_def loadCertStore_def Load_def f)
  next
    case Panic
    then show ?thesis
      using Load_loop_Panic [of lw now raw order Map.empty] new(1) f
      by (auto simp: Init_def loadCertStore_def Load_def)
  qed (simp add: Load_loop_not_Fail)
next
  case False
  then show ?thesis
    using new(2) by (cases "file") (auto simp: Init_def loadCertStore_def Load_def cache_from_def split: store_file.splits)
qed

lemma MakeCertDXServer_new:
  "MakeCertDXServer os zero w = Inr s \<Longrightarrow>
     st_entries (sv_certStore s) = Map.empty \<and> sv_cache s = Map.empty \<and> \<not> sv_stopped s"
  by (auto simp: MakeCertDXServer_def NewCertStore_def makeCertCache_def split: sum.splits)

lemma newValidBefore_valid_iff:
  "IsValid t \<lparr>c_FullChain = f, c_Key = k, c_ValidBefore = newValidBefore lifetime t, c_RenewAt = r\<rparr> \<longleftrightarrow>
     t mod Hour < lifetime"
  by (simp add: IsValid_def newValidBefore_def Truncate_def) (use Hour_pos in linarith)

section \<open>Properties\<close>

text \<open>
  C25: With the lego-backed obtainer, when \<open>renew\<close> reports a new certificate, then the cached one
  was not valid, and the entry now holds exactly the chain and key that one call of the lego client
  returned for the names of the entry, under the next version; no other entry changes. The new
  certificate is valid at the time of the check exactly when the configured lifetime exceeds the
  time since the last full hour: a lifetime of at least an hour always gives a valid certificate, a
  shorter one need not.
\<close>

theorem renew_publishes:
  assumes "renew ctxErr now (ACME_Obtain ctxErr a) (ACME_RetryObtain ctxErr now fires a) pick k retry s
      = (RenewOk True, s')"
  shows "\<exists>c c' u w' request. sv_cache s k = Some c \<and> \<not> IsValid (now (sv_world s)) (e_cert c) \<and>
    or_Domains request = e_domains c \<and> or_Bundle request \<and>
    acme_Client a request u = (w', Inr (c_FullChain (e_cert c'), c_Key (e_cert c'))) \<and>
    sv_cache s' = (sv_cache s)(k \<mapsto> c') \<and> e_domains c' = e_domains c \<and> e_version c' = e_version c + 1 \<and>
    e_subscribing c' = e_subscribing c \<and> e_cancelRenew c' = e_cancelRenew c \<and>
    (IsValid (now (sv_world s)) (e_cert c') \<longleftrightarrow>
       now (sv_world s) mod Hour < ac_CertLifeTimeDuration (sc_ACME (sv_Config s)))"
proof -
  let ?vb = "newValidBefore (ac_CertLifeTimeDuration (sc_ACME (sv_Config s))) (now (sv_world s))"
  let ?dl = "?vb + ac_RenewTimeLeftDuration (sc_ACME (sv_Config s))"
  from lego.renew_new [OF assms] obtain c u w' fullchain key where
    c: "sv_cache s k = Some c" "\<not> IsValid (now (sv_world s)) (e_cert c)"
    and o: "ACME_Obtain ctxErr a (e_domains c) ?dl u = (w', Inr (fullchain, key))"
    and s': "sv_cache s' = (sv_cache s)(k \<mapsto> c\<lparr>e_cert := \<lparr>c_FullChain = fullchain, c_Key = key,
       c_ValidBefore = ?vb, c_RenewAt = now w'\<rparr>, e_version := e_version c + 1, e_updated := sv_chans s\<rparr>)"
    by auto
  let ?request = "\<lparr>or_Domains = e_domains c, or_Bundle = True,
      or_NotAfter = (if acme_needNotAfter a then ?dl else 0)\<rparr>"
  have "acme_Client a ?request u = (w', Inr (fullchain, key))"
    using o by (auto simp: ACME_Obtain_def Let_def split: if_splits prod.splits sum.splits)
  then show ?thesis
    using c s' newValidBefore_valid_iff
    by (intro exI [of _ c] exI [of _ "the (sv_cache s' k)"] exI [of _ u] exI [of _ w'] exI [of _ ?request]) simp
qed

definition example_server :: "nat CertDXServer" where
  "example_server =
     \<lparr>sv_Config = example_config\<lparr>sc_ACME := (sc_ACME example_config)\<lparr>ac_CertLifeTimeDuration := Hour,
        ac_RenewTimeLeftDuration := Minute\<rparr>\<rparr>,
      sv_cache = snd (get id 0 [''a.b''] makeCertCache), sv_certStore = example_store\<lparr>st_entries := Map.empty\<rparr>,
      sv_chans = 1, sv_ctxs = 0, sv_stopped = False, sv_world = 7\<rparr>"

definition example_lego :: "nat ACME" where
  "example_lego = \<lparr>acme_Client = \<lambda>r n. (n + 1, Inr (''c'', ''k'')), acme_retry = 2, acme_needNotAfter = False\<rparr>"

lemma example_renew:
  "\<exists>s'. renew (\<lambda>_. False) (\<lambda>n. int n * Second) (ACME_Obtain (\<lambda>_. False) example_lego)
      (ACME_RetryObtain (\<lambda>_. False) (\<lambda>n. int n * Second) (\<lambda>_. False) example_lego) True (AsKey id [''a.b'']) False
      example_server = (RenewOk True, s')"
  by (simp add: renew_def example_server_def get_def getNoLock_def makeCertCache_def newCertEntry_def Let_def
      Snapshot_def zero_CertT_def IsValid_def example_lego_def ACME_Obtain_def publish_def example_store_def
      go_time_simps)

theorem renew_publishes_witness:
  "\<exists>s' c'. renew (\<lambda>_. False) (\<lambda>n. int n * Second) (ACME_Obtain (\<lambda>_. False) example_lego)
      (ACME_RetryObtain (\<lambda>_. False) (\<lambda>n. int n * Second) (\<lambda>_. False) example_lego) True (AsKey id [''a.b'']) False
      example_server = (RenewOk True, s') \<and>
    sv_cache s' (AsKey id [''a.b'']) = Some c' \<and> c_FullChain (e_cert c') = ''c'' \<and> IsValid (7 * Second) (e_cert c')"
proof -
  obtain s' where s': "renew (\<lambda>_. False) (\<lambda>n. int n * Second) (ACME_Obtain (\<lambda>_. False) example_lego)
      (ACME_RetryObtain (\<lambda>_. False) (\<lambda>n. int n * Second) (\<lambda>_. False) example_lego) True (AsKey id [''a.b'']) False
      example_server = (RenewOk True, s')"
    using example_renew by blast
  from renew_publishes [OF s'] obtain c' where
    "sv_cache s' (AsKey id [''a.b'']) = Some c'" "c_FullChain (e_cert c') = ''c''"
    "IsValid (int (sv_world example_server) * Second) (e_cert c') \<longleftrightarrow>
       int (sv_world example_server) * Second mod Hour
         < ac_CertLifeTimeDuration (sc_ACME (sv_Config example_server))"
    by (auto simp: example_lego_def)
  moreover have "int (sv_world example_server) = 7"
    "ac_CertLifeTimeDuration (sc_ACME (sv_Config example_server)) = Hour"
    by (simp_all add: example_server_def)
  ultimately show ?thesis
    using s' by (simp add: go_time_simps)
qed

text \<open>
  A restart needs no ACME: after the store was saved and a new server has loaded it, a \<open>renew\<close>
  of any bundle whose persisted certificate is still valid returns at once, with the outside world
  and the server unchanged, whatever obtainer is configured.
\<close>

theorem restart_without_ACME:
  assumes "store_wf lw (st_entries st)" "save ks wr st file = (file', None)"
    and "set order = dom (st_entries st)"
    and "set order' = {k. \<exists>e. st_entries st k = Some e \<and> IsValid t (se_Cert e)}"
    and "st_entries (sv_certStore s) = Map.empty"
    and "st_entries st k = Some e" "IsValid t (se_Cert e)"
    and "\<not> ctxErr (sv_world s)" "IsValid (now (sv_world s)) (se_Cert e)"
  shows "\<exists>s'. loadCertStore lw t order order' file' s = Return s' \<and>
    renew ctxErr now obtainF retryF pick (AsKey lw (se_Domains e)) retry s' = (RenewOk False, s')"
proof -
  let ?es = "\<lambda>k. case st_entries st k of
       Some e \<Rightarrow> if IsValid t (se_Cert e) then Some e else None | None \<Rightarrow> None"
  have k: "k = AsKey lw (se_Domains e)"
    using assms(1,6) by (simp add: store_wf_def)
  have wf: "store_wf lw ?es"
    using assms(1) by (auto simp: store_wf_def split: option.splits if_splits)
  obtain store where ld: "Load lw t order file' (sv_certStore s) = Return store" and es: "st_entries store = ?es"
    using Load_after_save [OF assms(1,2,3,5)] by blast
  let ?s = "load_entries lw ?es order' (s\<lparr>sv_certStore := store\<rparr>)"
  have "k \<in> set order'"
    using assms(4,6,7) by blast
  then have "map_option e_cert (sv_cache ?s k) = Some (se_Cert e)"
    using load_entries_cert [OF wf, of order' "s\<lparr>sv_certStore := store\<rparr>" k] assms(6,7) by simp
  then obtain c where "sv_cache ?s k = Some c" "e_cert c = se_Cert e" by blast
  then have "renew ctxErr now obtainF retryF pick k retry ?s = (RenewOk False, ?s)"
    using assms(8,9) by (simp add: renew_def Snapshot_def)
  then show ?thesis
    using ld es k by (simp add: loadCertStore_def)
qed

theorem restart_without_ACME_witness:
  "\<exists>s'. loadCertStore id 100 [AsKey id [''a.b'']] [AsKey id [''a.b'']]
      (fst (save [AsKey id [''a.b'']] WriteOk example_store None)) (example_server\<lparr>sv_cache := Map.empty\<rparr>) = Return s' \<and>
    renew (\<lambda>_. False) (\<lambda>_. 150) (ACME_Obtain (\<lambda>_. False) example_lego)
      (ACME_RetryObtain (\<lambda>_. False) (\<lambda>_. 150) (\<lambda>_. False) example_lego) True (AsKey id [''a.b'']) False s'
      = (RenewOk False, s')"
proof -
  let ?k = "AsKey id [''a.b'']"
  let ?e = "\<lparr>se_Domains = [''a.b''], se_Cert = zero_CertT\<lparr>c_ValidBefore := 200\<rparr>\<rparr>"
  have "snd (save [?k] WriteOk example_store None) = None"
    by (simp add: save_def json_Marshal_def example_store_def json_entry_ok_def json_time_ok_def
        zero_CertT_def go_time_simps)
  then obtain file' where sv: "save [?k] WriteOk example_store None = (file', None)"
    by (metis prod.collapse)
  have "\<exists>s'. loadCertStore id 100 [?k] [?k] file' (example_server\<lparr>sv_cache := Map.empty\<rparr>) = Return s' \<and>
    renew (\<lambda>_. False) (\<lambda>_. 150) (ACME_Obtain (\<lambda>_. False) example_lego)
      (ACME_RetryObtain (\<lambda>_. False) (\<lambda>_. 150) (\<lambda>_. False) example_lego) True (AsKey id (se_Domains ?e)) False s'
      = (RenewOk False, s')"
    by (rule restart_without_ACME [OF _ sv, where k = ?k])
      (auto simp: store_wf_def example_store_def example_server_def IsValid_def)
  then show ?thesis
    unfolding sv by simp
qed

end
