(* ===== verification/Http_Server.thy ===== *)
theory Http_Server
  imports Server
begin

text \<open>
  \<open>pkg/server/http.go\<close> and the wire types of \<open>pkg/api/http.go\<close>: the HTTP endpoint. The JSON bodies
  are identified with the values they stand for. The handlers run without interleaving; a handler
  that waits inside \<open>renew\<close> for the cache-file writer has no response yet. The multiplexer sends
  every path to the one handler that \<open>HttpSrv\<close> registers.
\<close>

section \<open>Requests and responses\<close>

record HttpCertReq =
  hq_Domains :: "string list"

record HttpCertResp =
  hr_RenewTimeLeft :: duration
  hr_FullChain :: bytes
  hr_Key :: bytes
  hr_Err :: string

datatype req_body = NoBody | BadJson | JsonReq HttpCertReq

record http_request =
  rq_Path :: string
  rq_Method :: string
  rq_Authorization :: string      \<comment> \<open>empty when the header is missing\<close>
  rq_Body :: req_body

datatype resp_body = ErrorText string | JsonResp HttpCertResp

record http_response =
  rs_Status :: nat
  rs_ContentType :: string
  rs_Body :: resp_body

definition http_Error :: "string \<Rightarrow> nat \<Rightarrow> http_response" where
  "http_Error msg code =
     \<lparr>rs_Status = code, rs_ContentType = ''text/plain; charset=utf-8'', rs_Body = ErrorText msg\<rparr>"

definition http_json :: "HttpCertResp \<Rightarrow> http_response" where
  "http_json r = \<lparr>rs_Status = 200, rs_ContentType = ''application/json'', rs_Body = JsonResp r\<rparr>"

section \<open>Handlers\<close>

definition checkAuthorizationToken :: "ServerConfig \<Rightarrow> http_request \<Rightarrow> bool" where
  "checkAuthorizationToken c r \<longleftrightarrow>
     hs_Token (sc_HttpServer c) = [] \<or>
     (rq_Authorization r \<noteq> [] \<and> HasPrefix (rq_Authorization r) ''Token '' \<and>
      TrimPrefix (rq_Authorization r) ''Token '' = hs_Token (sc_HttpServer c))"

text \<open>The parameters of a call: the lowering of non-ASCII names, the request's context, the clock,
  the obtainer, and the choice at the select of \<open>renew\<close>.\<close>

record 'w call_env =
  ce_lw :: "string \<Rightarrow> string"
  ce_ctxErr :: "'w \<Rightarrow> bool"
  ce_now :: "'w \<Rightarrow> time"
  ce_obtain :: "'w obtain_fn"
  ce_retry :: "'w obtain_fn"
  ce_pick :: bool

abbreviation env_renew :: "'w call_env \<Rightarrow> Key \<Rightarrow> bool \<Rightarrow> 'w CertDXServer \<Rightarrow> renew_result \<times> 'w CertDXServer" where
  "env_renew E \<equiv> renew (ce_ctxErr E) (ce_now E) (ce_obtain E) (ce_retry E) (ce_pick E)"

definition cert_response :: "'w CertDXServer \<Rightarrow> Key \<Rightarrow> http_response option" where
  "cert_response s k =
     (case sv_cache s k of
        None \<Rightarrow> None
      | Some c \<Rightarrow> Some (http_json
          \<lparr>hr_RenewTimeLeft = ac_RenewTimeLeftDuration (sc_ACME (sv_Config s)),
           hr_FullChain = c_FullChain (Cert c), hr_Key = c_Key (Cert c), hr_Err = []\<rparr>))"

definition handleCertReq ::
    "'w call_env \<Rightarrow> http_request \<Rightarrow> 'w CertDXServer \<Rightarrow> http_response option \<times> 'w CertDXServer" where
  "handleCertReq E r s =
     (case rq_Body r of
        NoBody \<Rightarrow> (Some (http_Error [] 500), s)
      | BadJson \<Rightarrow> (Some (http_Error [] 500), s)
      | JsonReq req \<Rightarrow>
          if \<not> AllAllowed (ce_lw E) (ac_AllowedDomains (sc_ACME (sv_Config s))) (hq_Domains req)
          then (Some (http_json \<lparr>hr_RenewTimeLeft = 0, hr_FullChain = [], hr_Key = [],
                 hr_Err = ''Domains not allowed''\<rparr>), s)
          else
            let (k, m) = get (ce_lw E) (sv_chans s) (hq_Domains req) (sv_cache s);
                s1 = s\<lparr>sv_cache := m, sv_chans := sv_chans s + 1\<rparr>
            in (case m k of
                  None \<Rightarrow> (None, s1)
                | Some c \<Rightarrow>
                    if \<not> isSubscribing c then
                      (case env_renew E k False s1 of
                         (RenewErr e, s2) \<Rightarrow> (Some (http_Error [] 500), s2)
                       | (RenewOk b, s2) \<Rightarrow> (cert_response s2 k, s2)
                       | (_, s2) \<Rightarrow> (None, s2))
                    else (cert_response s1 k, s1)))"

definition apiHandler ::
    "'w call_env \<Rightarrow> http_request \<Rightarrow> 'w CertDXServer \<Rightarrow> http_response option \<times> 'w CertDXServer" where
  "apiHandler E r s =
     (if rq_Path r = hs_APIPath (sc_HttpServer (sv_Config s)) \<and> rq_Method r = ''POST''
      then handleCertReq E r s
      else (Some (http_Error [] 404), s))"

definition apiWithTokenHandler ::
    "'w call_env \<Rightarrow> http_request \<Rightarrow> 'w CertDXServer \<Rightarrow> http_response option \<times> 'w CertDXServer" where
  "apiWithTokenHandler E r s =
     (if checkAuthorizationToken (sv_Config s) r then apiHandler E r s
      else (Some (http_Error [] 404), s))"

section \<open>HttpSrv\<close>

datatype http_listener = ServeHttps | ServeHttp | ServeHttpMtls

definition HttpSrv :: "ServerConfig \<Rightarrow> string + http_listener" where
  "HttpSrv c =
     (if hs_AuthMethod (sc_HttpServer c) = HTTP_AUTH_TOKEN then
        Inr (if hs_Secure (sc_HttpServer c) then ServeHttps else ServeHttp)
      else if hs_AuthMethod (sc_HttpServer c) = HTTP_AUTH_MTLS then Inr ServeHttpMtls
      else Inl (hs_AuthMethod (sc_HttpServer c)))"

text \<open>The handler a listener runs for a request that reached it.\<close>

definition listener_handler ::
    "http_listener \<Rightarrow> 'w call_env \<Rightarrow> http_request \<Rightarrow> 'w CertDXServer \<Rightarrow>
     http_response option \<times> 'w CertDXServer" where
  "listener_handler l =
     (case l of ServeHttps \<Rightarrow> apiWithTokenHandler | ServeHttp \<Rightarrow> apiWithTokenHandler
      | ServeHttpMtls \<Rightarrow> apiHandler)"

text \<open>
  \<open>runHTTPServer\<close>: the value it returns for what \<open>listen\<close> returned; \<open>http.ErrServerClosed\<close> is the
  result of the shutdown that the done context triggers.
\<close>

datatype listen_result = ListenNil | ErrServerClosed | ListenErr string

definition runHTTPServer :: "listen_result \<Rightarrow> string option" where
  "runHTTPServer r = (case r of ListenErr e \<Rightarrow> Some e | _ \<Rightarrow> None)"

section \<open>Lemmas\<close>

lemma get_entry: "get lw ch ds m = (k, m') \<Longrightarrow> k = AsKey lw ds \<and> m' k \<noteq> None"
  by (auto simp: get_def getNoLock_def Let_def split: option.splits)

lemma renew_config: "renew ctxErr now ob re pick k retry s = (r, s') \<Longrightarrow> sv_Config s' = sv_Config s"
  by (auto simp: renew_def Let_def publish_def split: if_splits option.splits prod.splits sum.splits)

lemma cert_response_fields:
  "cert_response s k = Some resp \<Longrightarrow> \<exists>c. sv_cache s k = Some c \<and>
     resp = http_json \<lparr>hr_RenewTimeLeft = ac_RenewTimeLeftDuration (sc_ACME (sv_Config s)),
       hr_FullChain = c_FullChain (e_cert c), hr_Key = c_Key (e_cert c), hr_Err = []\<rparr>"
  by (auto simp: cert_response_def Cert_def Snapshot_def split: option.splits)

text \<open>A response that carries key material.\<close>

definition discloses :: "http_response \<Rightarrow> bytes \<Rightarrow> bool" where
  "discloses resp key \<longleftrightarrow> (\<exists>r. rs_Body resp = JsonResp r \<and> hr_Key r = key \<and> key \<noteq> [])"

lemma handleCertReq_discloses:
  assumes "handleCertReq E r s = (Some resp, s')" "discloses resp key"
  shows "\<exists>req c. rq_Body r = JsonReq req \<and>
    AllAllowed (ce_lw E) (ac_AllowedDomains (sc_ACME (sv_Config s))) (hq_Domains req) \<and>
    sv_cache s' (AsKey (ce_lw E) (hq_Domains req)) = Some c \<and> key = c_Key (e_cert c)"
proof -
  obtain req where req: "rq_Body r = JsonReq req"
    "AllAllowed (ce_lw E) (ac_AllowedDomains (sc_ACME (sv_Config s))) (hq_Domains req)"
    using assms by (auto simp: handleCertReq_def discloses_def http_Error_def http_json_def
        split: req_body.splits if_splits)
  obtain k m where g: "get (ce_lw E) (sv_chans s) (hq_Domains req) (sv_cache s) = (k, m)" by fastforce
  then have k: "k = AsKey (ce_lw E) (hq_Domains req)"
    by (auto dest: get_entry)
  have "cert_response s' k = Some resp"
    using assms req g
    by (auto simp: handleCertReq_def discloses_def http_Error_def Let_def
        split: option.splits if_splits renew_result.splits prod.splits)
  then show ?thesis
    using assms(2) req k by (auto dest!: cert_response_fields simp: discloses_def http_json_def)
qed

lemma renew_ok_cert:
  assumes "renew ctxErr now ob re pick k retry s = (RenewOk b, s')"
  shows "\<exists>c c'. sv_cache s k = Some c \<and> sv_cache s' k = Some c' \<and> e_subscribing c' = e_subscribing c \<and>
    (IsValid (now (sv_world s)) (e_cert c') \<longleftrightarrow>
       \<not> b \<or> now (sv_world s) mod Hour < ac_CertLifeTimeDuration (sc_ACME (sv_Config s)))"
  using assms newValidBefore_valid_iff
  by (auto simp: renew_def Let_def publish_def Snapshot_def
      split: if_splits option.splits prod.splits sum.splits)

lemma handleCertReq_cases:
  assumes "rq_Body r = JsonReq req" "handleCertReq E r s = (Some resp, s')" "rs_Status resp = 200"
    and "AllAllowed (ce_lw E) (ac_AllowedDomains (sc_ACME (sv_Config s))) (hq_Domains req)"
  obtains (subscribed) c where "sv_cache s' (AsKey (ce_lw E) (hq_Domains req)) = Some c" "isSubscribing c"
      "cert_response s' (AsKey (ce_lw E) (hq_Domains req)) = Some resp"
      "sv_cache s (AsKey (ce_lw E) (hq_Domains req)) = Some c" "sv_world s' = sv_world s"
    | (renewed) c b s1 where "sv_cache s1 (AsKey (ce_lw E) (hq_Domains req)) = Some c" "\<not> isSubscribing c"
      "env_renew E (AsKey (ce_lw E) (hq_Domains req)) False s1 = (RenewOk b, s')"
      "sv_world s1 = sv_world s" "sv_Config s1 = sv_Config s"
      "cert_response s' (AsKey (ce_lw E) (hq_Domains req)) = Some resp"
proof -
  let ?k = "AsKey (ce_lw E) (hq_Domains req)"
  obtain m where g: "get (ce_lw E) (sv_chans s) (hq_Domains req) (sv_cache s) = (?k, m)"
    by (metis get_entry prod.exhaust)
  obtain c where c: "m ?k = Some c"
    using get_entry [OF g] by blast
  let ?s1 = "s\<lparr>sv_cache := m, sv_chans := sv_chans s + 1\<rparr>"
  show thesis
  proof (cases "isSubscribing c")
    case True
    have "sv_cache s ?k = Some c"
      using g c True by (auto simp: get_def getNoLock_def Let_def newCertEntry_def isSubscribing_def
          split: option.splits)
    then show thesis
      using subscribed [of c] assms g c True by (auto simp: handleCertReq_def Let_def)
  next
    case False
    then show thesis
      using renewed [of ?s1 c] assms g c
      by (auto simp: handleCertReq_def Let_def http_Error_def split: prod.splits renew_result.splits)
  qed
qed

text \<open>A successful answer carries the certificate of the entry.\<close>

lemma answer_entry:
  assumes "rq_Body r = JsonReq req" "handleCertReq E r s = (Some resp, s')" "rs_Status resp = 200"
    and "AllAllowed (ce_lw E) (ac_AllowedDomains (sc_ACME (sv_Config s))) (hq_Domains req)"
  shows "\<exists>c. sv_cache s' (AsKey (ce_lw E) (hq_Domains req)) = Some c \<and>
    resp = http_json \<lparr>hr_RenewTimeLeft = ac_RenewTimeLeftDuration (sc_ACME (sv_Config s)),
      hr_FullChain = c_FullChain (e_cert c), hr_Key = c_Key (e_cert c), hr_Err = []\<rparr>"
proof -
  have "sv_Config s' = sv_Config s"
    using assms by (auto simp: handleCertReq_def Let_def dest: renew_config
        split: prod.splits option.splits if_splits renew_result.splits)
  moreover have "cert_response s' (AsKey (ce_lw E) (hq_Domains req)) = Some resp"
    using assms by (cases rule: handleCertReq_cases)
  ultimately show ?thesis
    by (auto dest: cert_response_fields)
qed

section \<open>Properties\<close>

text \<open>
  C1: The HTTP endpoint discloses a private key only in answer to a \<open>POST\<close> on the configured path
  whose body asks for names that all lie under the allow-list, and, on the token listeners with a
  configured token, whose \<open>Authorization\<close> header is exactly that token after \<open>Token \<close>; the key is
  that of the entry for the requested bundle. (The mTLS listener authenticates in the TLS
  handshake.)
\<close>

theorem http_discloses_only_to_authorised:
  assumes "HttpSrv (sv_Config s) = Inr l" "listener_handler l E r s = (Some resp, s')" "discloses resp key"
  shows "rq_Method r = ''POST'' \<and> rq_Path r = hs_APIPath (sc_HttpServer (sv_Config s)) \<and>
    (hs_AuthMethod (sc_HttpServer (sv_Config s)) = HTTP_AUTH_TOKEN \<longrightarrow>
       hs_Token (sc_HttpServer (sv_Config s)) \<noteq> [] \<longrightarrow>
       rq_Authorization r = ''Token '' @ hs_Token (sc_HttpServer (sv_Config s))) \<and>
    (\<exists>req c. rq_Body r = JsonReq req \<and>
       AllAllowed (ce_lw E) (ac_AllowedDomains (sc_ACME (sv_Config s))) (hq_Domains req) \<and>
       sv_cache s' (AsKey (ce_lw E) (hq_Domains req)) = Some c \<and> key = c_Key (e_cert c))"
proof -
  have no: "\<not> discloses (http_Error [] n) key" for n
    by (simp add: discloses_def http_Error_def)
  have token: "l \<noteq> ServeHttpMtls \<Longrightarrow> checkAuthorizationToken (sv_Config s) r"
    and api: "apiHandler E r s = (Some resp, s')"
    using assms(2,3) no
    by (auto simp: listener_handler_def apiWithTokenHandler_def split: http_listener.splits if_splits)
  have "rq_Method r = ''POST'' \<and> rq_Path r = hs_APIPath (sc_HttpServer (sv_Config s))"
    and "handleCertReq E r s = (Some resp, s')"
    using api assms(3) no by (auto simp: apiHandler_def split: if_splits)
  moreover have "rq_Authorization r = ''Token '' @ hs_Token (sc_HttpServer (sv_Config s))"
    if "hs_AuthMethod (sc_HttpServer (sv_Config s)) = HTTP_AUTH_TOKEN" "hs_Token (sc_HttpServer (sv_Config s)) \<noteq> []"
  proof -
    have "l \<noteq> ServeHttpMtls"
      using assms(1) that(1) by (auto simp: HttpSrv_def split: if_splits)
    then show ?thesis
      using token that(2) HasPrefix_TrimPrefix [of "rq_Authorization r" "''Token ''"]
      by (simp add: checkAuthorizationToken_def)
  qed
  ultimately show ?thesis
    using handleCertReq_discloses assms(3) by blast
qed

definition example_env :: "nat call_env" where
  "example_env = \<lparr>ce_lw = id, ce_ctxErr = \<lambda>_. False, ce_now = \<lambda>n. int n * Second,
     ce_obtain = ACME_Obtain (\<lambda>_. False) example_lego,
     ce_retry = ACME_RetryObtain (\<lambda>_. False) (\<lambda>n. int n * Second) (\<lambda>_. False) example_lego, ce_pick = True\<rparr>"

definition example_http_config :: ServerConfig where
  "example_http_config = (sv_Config example_server)
     \<lparr>sc_ACME := (sc_ACME (sv_Config example_server))\<lparr>ac_AllowedDomains := [''b'']\<rparr>,
      sc_HttpServer := (sc_HttpServer (sv_Config example_server))\<lparr>hs_AuthMethod := ''token'',
        hs_Secure := False, hs_Token := ''s3cr3t'', hs_APIPath := ''/''\<rparr>\<rparr>"

definition example_request :: http_request where
  "example_request = \<lparr>rq_Path = ''/'', rq_Method = ''POST'', rq_Authorization = ''Token s3cr3t'',
     rq_Body = JsonReq \<lparr>hq_Domains = [''a.b'']\<rparr>\<rparr>"

lemma example_request_allowed [simp]: "IsSubdomain id ''a.b'' [''b'']" "AllAllowed id [''b''] [''a.b'']"
  by code_simp+

lemma example_response:
  "\<exists>resp s'. listener_handler ServeHttp example_env example_request
      (example_server\<lparr>sv_Config := example_http_config\<rparr>) = (Some resp, s') \<and> discloses resp ''k'' \<and>
    rs_Status resp = 200"
proof -
  let ?s = "example_server\<lparr>sv_Config := example_http_config\<rparr>"
  have g: "get id (sv_chans ?s) [''a.b''] (sv_cache ?s) = (AsKey id [''a.b''], sv_cache ?s)"
    by (simp add: example_server_def get_def getNoLock_def makeCertCache_def Let_def)
  have r: "\<exists>s'. env_renew example_env (AsKey id [''a.b'']) False (?s\<lparr>sv_cache := sv_cache ?s, sv_chans := sv_chans ?s + 1\<rparr>)
      = (RenewOk True, s') \<and> (\<exists>c. sv_cache s' (AsKey id [''a.b'']) = Some c \<and> c_Key (e_cert c) = ''k'')"
    by (simp add: renew_def example_env_def example_server_def get_def getNoLock_def makeCertCache_def
        newCertEntry_def Let_def Snapshot_def zero_CertT_def IsValid_def example_lego_def ACME_Obtain_def
        publish_def example_store_def go_time_simps)
  have "\<exists>c. sv_cache ?s (AsKey id [''a.b'']) = Some c \<and> \<not> isSubscribing c"
    by (simp add: example_server_def get_def getNoLock_def makeCertCache_def newCertEntry_def Let_def
        isSubscribing_def)
  then show ?thesis
    using g r
    by (auto simp: listener_handler_def apiWithTokenHandler_def checkAuthorizationToken_def apiHandler_def
        handleCertReq_def example_request_def example_http_config_def Let_def example_env_def HasPrefix_def
        TrimPrefix_def cert_response_def Cert_def Snapshot_def discloses_def http_json_def)
qed

theorem http_discloses_only_to_authorised_witness:
  "\<exists>resp s' c. listener_handler ServeHttp example_env example_request
      (example_server\<lparr>sv_Config := example_http_config\<rparr>) = (Some resp, s') \<and> discloses resp ''k'' \<and>
    sv_cache s' (AsKey id [''a.b'']) = Some c \<and> c_Key (e_cert c) = ''k''"
proof -
  let ?s = "example_server\<lparr>sv_Config := example_http_config\<rparr>"
  obtain resp s' where r: "listener_handler ServeHttp example_env example_request ?s = (Some resp, s')"
    "discloses resp ''k''"
    using example_response by blast
  have "HttpSrv (sv_Config ?s) = Inr ServeHttp"
    by (simp add: HttpSrv_def example_http_config_def HTTP_AUTH_TOKEN_def)
  from http_discloses_only_to_authorised [OF this r]
  show ?thesis
    using r by (auto simp: example_request_def example_env_def)
qed

text \<open>
  C32: What a successful answer to an allowed request carries: the certificate that the entry of
  the bundle holds. When the entry has no consumer and the configured lifetime is at least an hour,
  that certificate is valid at the time of the request. When it has one, it is the cached
  certificate as it is, without a check of its validity and without contacting ACME.
\<close>

theorem handleCertReq_answer:
  assumes "rq_Body r = JsonReq req" "handleCertReq E r s = (Some resp, s')" "rs_Status resp = 200"
    and "AllAllowed (ce_lw E) (ac_AllowedDomains (sc_ACME (sv_Config s))) (hq_Domains req)"
  shows "\<exists>c. sv_cache s' (AsKey (ce_lw E) (hq_Domains req)) = Some c \<and>
    resp = http_json \<lparr>hr_RenewTimeLeft = ac_RenewTimeLeftDuration (sc_ACME (sv_Config s)),
      hr_FullChain = c_FullChain (e_cert c), hr_Key = c_Key (e_cert c), hr_Err = []\<rparr> \<and>
    (\<not> isSubscribing c \<and> Hour \<le> ac_CertLifeTimeDuration (sc_ACME (sv_Config s)) \<longrightarrow>
       IsValid (ce_now E (sv_world s)) (e_cert c)) \<and>
    (isSubscribing c \<longrightarrow> sv_cache s (AsKey (ce_lw E) (hq_Domains req)) = Some c \<and> sv_world s' = sv_world s)"
  using assms
proof (cases rule: handleCertReq_cases)
  case (subscribed c)
  moreover have "sv_Config s' = sv_Config s"
    using assms subscribed
    by (auto simp: handleCertReq_def Let_def dest: renew_config
        split: prod.splits option.splits if_splits renew_result.splits)
  ultimately show ?thesis
    by (auto dest: cert_response_fields)
next
  case (renewed c b s1)
  from renew_ok_cert [OF renewed(3)] obtain c' where c':
    "sv_cache s' (AsKey (ce_lw E) (hq_Domains req)) = Some c'" "e_subscribing c' = e_subscribing c"
    "IsValid (ce_now E (sv_world s)) (e_cert c') \<longleftrightarrow>
       \<not> b \<or> ce_now E (sv_world s) mod Hour < ac_CertLifeTimeDuration (sc_ACME (sv_Config s))"
    using renewed by auto
  have "Hour \<le> ac_CertLifeTimeDuration (sc_ACME (sv_Config s)) \<longrightarrow>
      ce_now E (sv_world s) mod Hour < ac_CertLifeTimeDuration (sc_ACME (sv_Config s))"
    using pos_mod_bound [OF Hour_pos, of "ce_now E (sv_world s)"] by linarith
  then show ?thesis
    using c' renewed renew_config [OF renewed(3)] cert_response_fields [OF renewed(6)]
    by (auto simp: isSubscribing_def)
qed

text \<open>A consumer has subscribed and the first renewal is still under way: the answer is empty.\<close>

theorem handleCertReq_answer_witness:
  "\<exists>s' c. handleCertReq example_env example_request
      (example_server\<lparr>sv_Config := example_http_config,
         sv_cache := [AsKey id [''a.b''] \<mapsto> snd (subscribe 0 (newCertEntry 0 [''a.b'']))]\<rparr>)
    = (Some (http_json \<lparr>hr_RenewTimeLeft = Minute, hr_FullChain = [], hr_Key = [], hr_Err = []\<rparr>), s') \<and>
    sv_cache s' (AsKey id [''a.b'']) = Some c \<and> isSubscribing c \<and> \<not> IsValid (7 * Second) (e_cert c)"
proof -
  let ?s = "example_server\<lparr>sv_Config := example_http_config,
         sv_cache := [AsKey id [''a.b''] \<mapsto> snd (subscribe 0 (newCertEntry 0 [''a.b'']))]\<rparr>"
  obtain resp s' where h: "handleCertReq example_env example_request ?s = (Some resp, s')" "rs_Status resp = 200"
    by (simp add: handleCertReq_def example_request_def example_env_def example_http_config_def get_def
        getNoLock_def Let_def subscribe_def newCertEntry_def isSubscribing_def cert_response_def http_json_def)
  have "\<exists>c. sv_cache ?s (AsKey id [''a.b'']) = Some c \<and> e_cert c = zero_CertT \<and> isSubscribing c \<and>
      sv_cache s' (AsKey id [''a.b'']) = Some c"
    using h(1)
    by (auto simp: handleCertReq_def example_request_def example_env_def example_http_config_def get_def
        getNoLock_def Let_def subscribe_def newCertEntry_def isSubscribing_def cert_response_def)
  moreover have "rq_Body example_request = JsonReq \<lparr>hq_Domains = [''a.b'']\<rparr>" "ce_lw example_env = id"
    "ac_AllowedDomains (sc_ACME (sv_Config ?s)) = [''b'']" "ac_RenewTimeLeftDuration (sc_ACME (sv_Config ?s)) = Minute"
    by (simp_all add: example_request_def example_env_def example_http_config_def example_server_def)
  ultimately show ?thesis
    using handleCertReq_answer [OF _ h] h(1)
    by (auto simp: zero_CertT_def IsValid_def go_time_simps)
qed

end
