(* ===== verification/Http_Client.thy ===== *)
theory Http_Client
  imports Client_Daemon Http_Server
begin

text \<open>
  \<open>pkg/client/http.go\<close> and \<open>pkg/client/http_poller.go\<close>: the HTTP client and its polling loop. The
  network is a function from a transport and a request to a response on a world of any type; the
  server's handler is one instance of it.
\<close>

section \<open>The client\<close>

datatype transport = DefaultTransport | MtlsTransport string | InsecureTransport

record CertDXHttpClient =
  hl_Server :: "ClientHttpServer option"
  hl_Transport :: transport

text \<open>An option either changes the client or ends the process (\<open>logging.Fatal\<close>). \<open>loadOk\<close> says
  whether \<open>mtls.LoadClient\<close> succeeds on a bundle.\<close>

type_synonym CertDXHttpClientOption = "CertDXHttpClient \<Rightarrow> CertDXHttpClient option"

definition WithCertDXServerInfo :: "(string \<Rightarrow> bool) \<Rightarrow> ClientHttpServer \<Rightarrow> CertDXHttpClientOption" where
  "WithCertDXServerInfo loadOk server client =
     (let client' = client\<lparr>hl_Server := Some server\<rparr> in
      if ch_AuthMethod server = HTTP_AUTH_MTLS then
        (if loadOk (ch_PEM server) then Some (client'\<lparr>hl_Transport := MtlsTransport (ch_PEM server)\<rparr>) else None)
      else Some client')"

definition WithCertDXInsecure :: CertDXHttpClientOption where
  "WithCertDXInsecure client = Some (client\<lparr>hl_Transport := InsecureTransport\<rparr>)"

fun apply_options :: "CertDXHttpClientOption list \<Rightarrow> CertDXHttpClient \<Rightarrow> CertDXHttpClient option" where
  "apply_options [] c = Some c"
| "apply_options (it # its) c = (case it c of None \<Rightarrow> None | Some c' \<Rightarrow> apply_options its c')"

definition MakeCertDXHttpClient :: "CertDXHttpClientOption list \<Rightarrow> CertDXHttpClient option" where
  "MakeCertDXHttpClient s = apply_options s \<lparr>hl_Server = None, hl_Transport = DefaultTransport\<rparr>"

datatype get_error = NilServer | BadUrl | TransportErr string | BadStatus nat | DecodeErr

text \<open>\<open>urlPath\<close> parses the URL and gives its path, or fails.\<close>

definition makeGetCertRequest ::
    "(string \<Rightarrow> string option) \<Rightarrow> CertDXHttpClient \<Rightarrow> string list \<Rightarrow> get_error + http_request" where
  "makeGetCertRequest urlPath c domains =
     (case hl_Server c of
        None \<Rightarrow> Inl NilServer
      | Some srv \<Rightarrow>
          (case urlPath (ch_Url srv) of
             None \<Rightarrow> Inl BadUrl
           | Some p \<Rightarrow>
               Inr \<lparr>rq_Path = p, rq_Method = ''POST'',
                    rq_Authorization = (if ch_AuthMethod srv = HTTP_AUTH_TOKEN \<and> ch_Token srv \<noteq> []
                                        then ''Token '' @ ch_Token srv else []),
                    rq_Body = JsonReq \<lparr>hq_Domains = domains\<rparr>\<rparr>))"

type_synonym 'w network = "transport \<Rightarrow> http_request \<Rightarrow> 'w \<Rightarrow> 'w \<times> (string + http_response)"

definition GetCertCtx ::
    "'w network \<Rightarrow> (string \<Rightarrow> string option) \<Rightarrow> CertDXHttpClient \<Rightarrow> string list \<Rightarrow> 'w \<Rightarrow>
     'w \<times> (get_error + HttpCertResp)" where
  "GetCertCtx net urlPath c domains w =
     (case makeGetCertRequest urlPath c domains of
        Inl e \<Rightarrow> (w, Inl e)
      | Inr req \<Rightarrow>
          (case net (hl_Transport c) req w of
             (w', Inl e) \<Rightarrow> (w', Inl (TransportErr e))
           | (w', Inr resp) \<Rightarrow>
               if rs_Status resp \<noteq> 200 then (w', Inl (BadStatus (rs_Status resp)))
               else (case rs_Body resp of
                   ErrorText _ \<Rightarrow> (w', Inl DecodeErr)
                 | JsonResp r \<Rightarrow> (w', Inr r))))"

section \<open>The poller\<close>

text \<open>The closure that \<open>httpRequestCert\<close> hands to the retry helper, for one server.\<close>

definition request_work ::
    "('w \<Rightarrow> 'w \<times> (get_error + HttpCertResp)) \<Rightarrow> ('w \<Rightarrow> time) \<Rightarrow> ('w \<times> HttpCertResp option, get_error) work" where
  "request_work call now s =
     (case call (fst s) of
        (w', Inl e) \<Rightarrow> ((w', None), Some e, now w' - now (fst s))
      | (w', Inr r) \<Rightarrow> ((w', Some r), None, now w' - now (fst s)))"

text \<open>\<open>mainCall\<close> and \<open>standbyCall\<close> are \<open>GetCertCtx\<close> of the clients of the two servers.\<close>

definition httpRequestCert ::
    "('w \<Rightarrow> bool) \<Rightarrow> ('w \<Rightarrow> time) \<Rightarrow> (int \<Rightarrow> bool) \<Rightarrow> (int \<Rightarrow> bool) \<Rightarrow> ClientConfig \<Rightarrow>
     ('w \<Rightarrow> 'w \<times> (get_error + HttpCertResp)) \<Rightarrow> ('w \<Rightarrow> 'w \<times> (get_error + HttpCertResp)) \<Rightarrow> 'w \<Rightarrow>
     'w \<times> HttpCertResp option" where
  "httpRequestCert ctxErr now fires fires' cfg mainCall standbyCall w =
     (case Do (ctxErr w) (cc_RetryCount (cl_Common cfg)) (request_work mainCall now) fires (w, None) of
        ((w1, resp), None) \<Rightarrow> (w1, resp)
      | ((w1, _), Some _) \<Rightarrow>
          if ch_Url (cl_HttpStandby cfg) \<noteq> [] then
            (case Do (ctxErr w1) (cc_RetryCount (cl_Common cfg)) (request_work standbyCall now) fires' (w1, None) of
               ((w2, resp), None) \<Rightarrow> (w2, resp)
             | ((w2, _), Some _) \<Rightarrow> (w2, None))
          else (w1, None))"

text \<open>One round of \<open>httpPollingCert\<close>: what is sent to the watcher, and how long the loop sleeps.\<close>

definition poll_round ::
    "ClientCertification \<Rightarrow> HttpCertResp option \<Rightarrow> duration \<Rightarrow> certData option \<times> duration" where
  "poll_round c resp sleepTime =
     (case resp of
        None \<Rightarrow> (None, sleepTime)
      | Some r \<Rightarrow>
          if hr_Err r \<noteq> [] then (None, sleepTime)
          else (Some \<lparr>cd_Domains = cf_Domains c, cd_Fullchain = hr_FullChain r, cd_Key = hr_Key r\<rparr>,
                hr_RenewTimeLeft r sdiv 4))"

fun poll_rounds ::
    "ClientCertification \<Rightarrow> HttpCertResp option list \<Rightarrow> duration \<Rightarrow> certData list \<times> duration list" where
  "poll_rounds c [] sleepTime = ([], [])"
| "poll_rounds c (resp # resps) sleepTime =
     (let (upd, sleep') = poll_round c resp sleepTime; (us, ds) = poll_rounds c resps sleep' in
      ((case upd of None \<Rightarrow> us | Some u \<Rightarrow> u # us), sleep' # ds))"

text \<open>The loop with its first sleep of an hour.\<close>

definition httpPollingCert ::
    "ClientCertification \<Rightarrow> HttpCertResp option list \<Rightarrow> certData list \<times> duration list" where
  "httpPollingCert c resps = poll_rounds c resps (1 * Hour)"

section \<open>Lemmas\<close>

lemma request_work_success:
  "request_work call now s = ((w', r'), None, el) \<Longrightarrow> \<exists>r. r' = Some r \<and> call (fst s) = (w', Inr r)"
  by (auto simp: request_work_def split: prod.splits sum.splits)

lemma request_Do:
  assumes "Do ctxDone n (request_work call now) fires s = ((w', r'), None)"
  shows "\<exists>u r. r' = Some r \<and> call u = (w', Inr r)"
proof -
  from Do_success_from [OF assms] obtain u el where "request_work call now u = ((w', r'), None, el)"
    by auto
  from request_work_success [OF this] show ?thesis by blast
qed

text \<open>The network that reaches a server with token authentication: its handler is called with the
  request. A handler that has no answer yet is a time-out.\<close>

definition server_network :: "'w call_env \<Rightarrow> ('w CertDXServer) network" where
  "server_network E tr req s =
     (case apiWithTokenHandler E req s of
        (Some resp, s') \<Rightarrow> (s', Inr resp)
      | (None, s') \<Rightarrow> (s', Inl ''timeout''))"

lemma client_request_authorised:
  assumes "makeGetCertRequest urlPath c domains = Inr req" "hl_Server c = Some srv"
    and "ch_AuthMethod srv = HTTP_AUTH_TOKEN" "ch_Token srv = hs_Token (sc_HttpServer cfg)"
  shows "checkAuthorizationToken cfg req"
  using assms HasPrefix_append [of "''Token ''" "ch_Token srv"] TrimPrefix_append [of "''Token ''" "ch_Token srv"]
  by (auto simp: makeGetCertRequest_def checkAuthorizationToken_def split: option.splits)

section \<open>Properties\<close>

text \<open>
  The two ends fit together. A client whose server URL has the server's path and whose token is
  the server's (both may be empty) gets, for names under the allow-list, either an error of the
  transport or a status, or exactly the chain and key of the server's entry for the bundle of these
  names; for other names it gets the error message and no certificate.
\<close>

theorem http_client_gets_entry:
  assumes "hl_Server c = Some srv" "urlPath (ch_Url srv) = Some (hs_APIPath (sc_HttpServer (sv_Config s)))"
    and "ch_AuthMethod srv = HTTP_AUTH_TOKEN" "ch_Token srv = hs_Token (sc_HttpServer (sv_Config s))"
    and "GetCertCtx (server_network E) urlPath c domains s = (s', Inr r)"
  shows "if AllAllowed (ce_lw E) (ac_AllowedDomains (sc_ACME (sv_Config s))) domains
    then \<exists>e. sv_cache s' (AsKey (ce_lw E) domains) = Some e \<and> hr_FullChain r = c_FullChain (e_cert e) \<and>
      hr_Key r = c_Key (e_cert e) \<and> hr_Err r = [] \<and>
      hr_RenewTimeLeft r = ac_RenewTimeLeftDuration (sc_ACME (sv_Config s))
    else s' = s \<and> hr_Err r = ''Domains not allowed'' \<and> hr_FullChain r = [] \<and> hr_Key r = []"
proof -
  obtain req where req: "makeGetCertRequest urlPath c domains = Inr req" "rq_Body req = JsonReq \<lparr>hq_Domains = domains\<rparr>"
    "rq_Path req = hs_APIPath (sc_HttpServer (sv_Config s))" "rq_Method req = ''POST''"
    using assms(1,2) by (simp add: makeGetCertRequest_def)
  have "checkAuthorizationToken (sv_Config s) req"
    using client_request_authorised [OF req(1) assms(1,3,4)] .
  then obtain resp where h: "handleCertReq E req s = (Some resp, s')" "rs_Status resp = 200" "rs_Body resp = JsonResp r"
    using assms(5) req
    by (auto simp: GetCertCtx_def server_network_def apiWithTokenHandler_def apiHandler_def
        split: prod.splits option.splits sum.splits if_splits resp_body.splits)
  show ?thesis
  proof (cases "AllAllowed (ce_lw E) (ac_AllowedDomains (sc_ACME (sv_Config s))) domains")
    case True
    then show ?thesis
      using answer_entry [OF req(2) h(1,2)] h(3) by (auto simp: http_json_def)
  next
    case False
    then show ?thesis
      using h req(2) by (auto simp: handleCertReq_def http_json_def)
  qed
qed

definition example_http_client :: CertDXHttpClient where
  "example_http_client = \<lparr>hl_Server = Some (cl_HttpMain example_client_config), hl_Transport = DefaultTransport\<rparr>"

theorem http_client_gets_entry_witness:
  "\<exists>s' r e. GetCertCtx (server_network example_env) (\<lambda>_. Some ''/'') example_http_client [''a.b'']
      (example_server\<lparr>sv_Config := example_http_config\<rparr>) = (s', Inr r) \<and>
    sv_cache s' (AsKey id [''a.b'']) = Some e \<and> hr_Key r = c_Key (e_cert e)"
proof -
  let ?s = "example_server\<lparr>sv_Config := example_http_config\<rparr>"
  obtain resp s' where r: "apiWithTokenHandler example_env example_request ?s = (Some resp, s')"
    "discloses resp ''k''" "rs_Status resp = 200"
    using example_response by (auto simp: listener_handler_def)
  then obtain b where b: "rs_Body resp = JsonResp b"
    by (auto simp: discloses_def)
  have req: "makeGetCertRequest (\<lambda>_. Some ''/'') example_http_client [''a.b''] = Inr example_request"
    by (simp add: makeGetCertRequest_def example_http_client_def example_client_config_def example_request_def
        HTTP_AUTH_TOKEN_def)
  have g: "GetCertCtx (server_network example_env) (\<lambda>_. Some ''/'') example_http_client [''a.b''] ?s = (s', Inr b)"
    using r b by (simp add: GetCertCtx_def req server_network_def)
  have "ce_lw example_env = id" "ac_AllowedDomains (sc_ACME (sv_Config ?s)) = [''b'']"
    by (simp_all add: example_env_def example_http_config_def)
  then show ?thesis
    using http_client_gets_entry [OF _ _ _ _ g, of "cl_HttpMain example_client_config"] g
    by (auto simp: example_http_client_def example_client_config_def example_http_config_def HTTP_AUTH_TOKEN_def)
qed

text \<open>
  The standby server is a fallback: what \<open>httpRequestCert\<close> returns was returned by a call to
  the main server, or, only when a standby is configured and the attempts at the main server failed,
  by a call to the standby. It returns nothing exactly when the main server's attempts failed and
  the standby's did too, or there is none.
\<close>

theorem standby_is_fallback:
  assumes "httpRequestCert ctxErr now fires fires' cfg mainCall standbyCall w = (w', res)"
    and "Do (ctxErr w) (cc_RetryCount (cl_Common cfg)) (request_work mainCall now) fires (w, None) = ((w1, r1), err)"
  shows "(err = None \<longrightarrow> (\<exists>u r. res = Some r \<and> mainCall u = (w', Inr r)) \<and>
      (\<forall>other. httpRequestCert ctxErr now fires fires' cfg mainCall other w = (w', res))) \<and>
    (err \<noteq> None \<longrightarrow> (res = None \<or> ch_Url (cl_HttpStandby cfg) \<noteq> [] \<and>
        (\<exists>u r. res = Some r \<and> standbyCall u = (w', Inr r))) \<and>
      (res = None \<longleftrightarrow> ch_Url (cl_HttpStandby cfg) = [] \<or>
        snd (Do (ctxErr w1) (cc_RetryCount (cl_Common cfg)) (request_work standbyCall now) fires' (w1, None)) \<noteq> None))"
proof (cases err)
  case None
  then have d: "Do (ctxErr w) (cc_RetryCount (cl_Common cfg)) (request_work mainCall now) fires (w, None) = ((w1, r1), None)"
    using assms(2) by simp
  then have "w' = w1" "res = r1"
    using assms(1) by (auto simp: httpRequestCert_def)
  then show ?thesis
    using request_Do [OF d] None d by (auto simp: httpRequestCert_def)
next
  case (Some e)
  let ?d = "Do (ctxErr w1) (cc_RetryCount (cl_Common cfg)) (request_work standbyCall now) fires' (w1, None)"
  obtain w2 r2 e2 where d: "?d = ((w2, r2), e2)" by (metis prod.exhaust)
  have found: "\<exists>u r. r2 = Some r \<and> standbyCall u = (w2, Inr r)" if "e2 = None"
    using request_Do d that by metis
  show ?thesis
    using assms Some d found by (cases e2) (auto simp: httpRequestCert_def split: if_splits)
qed

theorem standby_is_fallback_witness:
  "httpRequestCert (\<lambda>_. False) (\<lambda>n :: nat. int n * 2 * Second) (\<lambda>_. False) (\<lambda>_. False)
      (example_client_config\<lparr>cl_Common := (cl_Common example_client_config)\<lparr>cc_RetryCount := 1\<rparr>,
         cl_HttpStandby := (cl_HttpStandby example_client_config)\<lparr>ch_Url := ''u''\<rparr>\<rparr>)
      (\<lambda>n. (n + 1, Inl BadUrl))
      (\<lambda>n. (n + 1, Inr \<lparr>hr_RenewTimeLeft = 0, hr_FullChain = ''c'', hr_Key = ''k'', hr_Err = []\<rparr>)) 0
    = (3, Some \<lparr>hr_RenewTimeLeft = 0, hr_FullChain = ''c'', hr_Key = ''k'', hr_Err = []\<rparr>)"
proof -
  let ?cfg = "example_client_config\<lparr>cl_Common := (cl_Common example_client_config)\<lparr>cc_RetryCount := 1\<rparr>,
         cl_HttpStandby := (cl_HttpStandby example_client_config)\<lparr>ch_Url := ''u''\<rparr>\<rparr>"
  let ?m = "\<lambda>n :: nat. (n + 1, Inl BadUrl) :: nat \<times> (get_error + HttpCertResp)"
  let ?s = "\<lambda>n :: nat. (n + 1, Inr \<lparr>hr_RenewTimeLeft = 0, hr_FullChain = ''c'', hr_Key = ''k'', hr_Err = []\<rparr>)
      :: nat \<times> (get_error + HttpCertResp)"
  let ?now = "\<lambda>n :: nat. int n * 2 * Second"
  obtain w1 r1 err where d: "Do False (cc_RetryCount (cl_Common ?cfg)) (request_work ?m ?now) (\<lambda>_. False) (0, None)
      = ((w1, r1), err)" by (metis prod.exhaust)
  have w1: "w1 = 2" "err \<noteq> None"
    using d by (auto simp: Do_def Do_loop.simps request_work_def fastFailThreshold_def go_time_simps)
  have "Do False (cc_RetryCount (cl_Common ?cfg)) (request_work ?s ?now) (\<lambda>_. False) (2, None)
      = ((3, Some \<lparr>hr_RenewTimeLeft = 0, hr_FullChain = ''c'', hr_Key = ''k'', hr_Err = []\<rparr>), None)"
    by (simp add: Do_def Do_loop.simps request_work_def)
  then have h: "httpRequestCert (\<lambda>_. False) ?now (\<lambda>_. False) (\<lambda>_. False) ?cfg ?m ?s 0
      = (3, Some \<lparr>hr_RenewTimeLeft = 0, hr_FullChain = ''c'', hr_Key = ''k'', hr_Err = []\<rparr>)"
    using d w1 by (auto simp: httpRequestCert_def)
  show ?thesis
    using standby_is_fallback [OF h d] h by simp
qed

end
