(* ===== verification/Http_Main.thy ===== *)
theory Http_Main
  imports Http_Client
begin

text \<open>
  \<open>HttpMain\<close> of \<open>pkg/client/http_poller.go\<close> with \<open>startWatchers\<close> of \<open>daemon.go\<close>: the goroutines of a
  client in HTTP mode. For every certificate there is a poller (\<open>httpPollingCert\<close>) and a watcher
  (\<open>watchUpdate\<close>), joined by a channel with one place; \<open>HttpMain\<close> itself starts them, waits for the
  root context and then for the wait group. What a poller is answered is nondeterministic: \<open>ans k r\<close>
  says whether \<open>httpRequestCert\<close> may return \<open>r\<close> for the certificate \<open>k\<close>. A handler is one step. The timer
  of a sleep wins against a done context only when it fires at once: a sleep of a positive time that
  starts with the context done ends by it.
\<close>

section \<open>State and steps\<close>

datatype poll_pc = PollOff | PollRequest | PollSend certData | PollSleep | PollEnded
datatype 'h watch_pc = WatchOff | WatchSelect | WatchHandle certData "'h list" | WatchEnded
datatype main_pc = StartWatchers | StartPollers | WaitCtx | WaitGroup | MainDone

text \<open>The last three fields are history: the calls of the handlers, and the updates that a poller has
  put into its channel and a watcher has taken out.\<close>

record 'h http_main =
  hm_certs :: "Key \<rightharpoonup> 'h watchingCert"
  hm_ctxDone :: bool
  hm_main :: main_pc
  hm_wg :: int
  hm_poll :: "Key \<Rightarrow> poll_pc"
  hm_sleep :: "Key \<Rightarrow> duration"
  hm_chan :: "Key \<Rightarrow> certData list"
  hm_watch :: "Key \<Rightarrow> 'h watch_pc"
  hm_calls :: "Key \<Rightarrow> 'h handler_call list"
  hm_sent :: "Key \<Rightarrow> certData list"
  hm_taken :: "Key \<Rightarrow> certData list"

definition call_of :: "certData \<Rightarrow> ClientCertification \<Rightarrow> 'h \<Rightarrow> 'h handler_call" where
  "call_of d cfg h = \<lparr>hc_handler = h, hc_fullchain = cd_Fullchain d, hc_key = cd_Key d, hc_cert = cfg\<rparr>"

definition changed :: "'h watchingCert \<Rightarrow> certData \<Rightarrow> bool" where
  "changed c d \<longleftrightarrow> cd_Fullchain (wc_Data c) \<noteq> cd_Fullchain d \<or> cd_Key (wc_Data c) \<noteq> cd_Key d"

inductive http_step :: "(Key \<Rightarrow> HttpCertResp option \<Rightarrow> bool) \<Rightarrow> 'h http_main \<Rightarrow> 'h http_main \<Rightarrow> bool" for ans where
  stop: "\<not> hm_ctxDone p \<Longrightarrow> http_step ans p (p\<lparr>hm_ctxDone := True\<rparr>)"
| launch_watcher: "hm_main p = StartWatchers \<Longrightarrow> k \<in> dom (hm_certs p) \<Longrightarrow> hm_watch p k = WatchOff \<Longrightarrow>
    http_step ans p (p\<lparr>hm_wg := hm_wg p + 1, hm_watch := (hm_watch p)(k := WatchSelect)\<rparr>)"
| watchers_started: "hm_main p = StartWatchers \<Longrightarrow> (\<forall>k \<in> dom (hm_certs p). hm_watch p k \<noteq> WatchOff) \<Longrightarrow>
    http_step ans p (p\<lparr>hm_main := StartPollers\<rparr>)"
| launch_poller: "hm_main p = StartPollers \<Longrightarrow> k \<in> dom (hm_certs p) \<Longrightarrow> hm_poll p k = PollOff \<Longrightarrow>
    http_step ans p (p\<lparr>hm_wg := hm_wg p + 1, hm_poll := (hm_poll p)(k := PollRequest), hm_sleep := (hm_sleep p)(k := 1 * Hour)\<rparr>)"
| pollers_started: "hm_main p = StartPollers \<Longrightarrow> (\<forall>k \<in> dom (hm_certs p). hm_poll p k \<noteq> PollOff) \<Longrightarrow>
    http_step ans p (p\<lparr>hm_main := WaitCtx\<rparr>)"
| main_stops: "hm_main p = WaitCtx \<Longrightarrow> hm_ctxDone p \<Longrightarrow> http_step ans p (p\<lparr>hm_main := WaitGroup\<rparr>)"
| main_returns: "hm_main p = WaitGroup \<Longrightarrow> hm_wg p = 0 \<Longrightarrow> http_step ans p (p\<lparr>hm_main := MainDone\<rparr>)"
| answered: "hm_poll p k = PollRequest \<Longrightarrow> hm_certs p k = Some c \<Longrightarrow> ans k resp \<Longrightarrow>
    poll_round (wc_Config c) resp (hm_sleep p k) = (upd, sleep') \<Longrightarrow>
    http_step ans p (p\<lparr>hm_poll := (hm_poll p)(k := (case upd of None \<Rightarrow> PollSleep | Some d \<Rightarrow> PollSend d)),
      hm_sleep := (hm_sleep p)(k := sleep')\<rparr>)"
| sends: "hm_poll p k = PollSend d \<Longrightarrow> hm_chan p k = [] \<Longrightarrow>
    http_step ans p (p\<lparr>hm_poll := (hm_poll p)(k := PollSleep), hm_chan := (hm_chan p)(k := [d]),
      hm_sent := (hm_sent p)(k := hm_sent p k @ [d])\<rparr>)"
| send_ends: "hm_poll p k = PollSend d \<Longrightarrow> hm_ctxDone p \<Longrightarrow>
    http_step ans p (p\<lparr>hm_poll := (hm_poll p)(k := PollEnded), hm_wg := hm_wg p - 1\<rparr>)"
| timer: "hm_poll p k = PollSleep \<Longrightarrow> \<not> hm_ctxDone p \<or> hm_sleep p k \<le> 0 \<Longrightarrow>
    http_step ans p (p\<lparr>hm_poll := (hm_poll p)(k := PollRequest)\<rparr>)"
| sleep_ends: "hm_poll p k = PollSleep \<Longrightarrow> hm_ctxDone p \<Longrightarrow>
    http_step ans p (p\<lparr>hm_poll := (hm_poll p)(k := PollEnded), hm_wg := hm_wg p - 1\<rparr>)"
| takes: "hm_watch p k = WatchSelect \<Longrightarrow> hm_chan p k = d # rest \<Longrightarrow> hm_certs p k = Some c \<Longrightarrow>
    http_step ans p (p\<lparr>hm_chan := (hm_chan p)(k := rest), hm_taken := (hm_taken p)(k := hm_taken p k @ [d]),
      hm_certs := (hm_certs p)(k \<mapsto> (if changed c d then c\<lparr>wc_Data := d\<rparr> else c)),
      hm_watch := (hm_watch p)(k := (if changed c d then WatchHandle d (wc_UpdateHandlers c) else WatchSelect))\<rparr>)"
| handles: "hm_watch p k = WatchHandle d (h # hs) \<Longrightarrow> hm_certs p k = Some c \<Longrightarrow>
    http_step ans p (p\<lparr>hm_watch := (hm_watch p)(k := WatchHandle d hs),
      hm_calls := (hm_calls p)(k := hm_calls p k @ [call_of d (wc_Config c) h])\<rparr>)"
| handled: "hm_watch p k = WatchHandle d [] \<Longrightarrow>
    http_step ans p (p\<lparr>hm_watch := (hm_watch p)(k := WatchSelect)\<rparr>)"
| watch_ends: "hm_watch p k = WatchSelect \<Longrightarrow> hm_ctxDone p \<Longrightarrow>
    http_step ans p (p\<lparr>hm_watch := (hm_watch p)(k := WatchEnded), hm_wg := hm_wg p - 1\<rparr>)"

definition http_init :: "(Key \<rightharpoonup> 'h watchingCert) \<Rightarrow> 'h http_main \<Rightarrow> bool" where
  "http_init certs p \<longleftrightarrow> finite (dom certs) \<and> hm_certs p = certs \<and> hm_main p = StartWatchers \<and> hm_wg p = 0 \<and>
     (\<forall>k. hm_poll p k = PollOff \<and> hm_watch p k = WatchOff \<and> hm_chan p k = [] \<and> hm_calls p k = [] \<and>
        hm_sent p k = [] \<and> hm_taken p k = [])"

section \<open>Invariants\<close>

text \<open>The calls that are still to be made for the change a watcher is handling.\<close>

definition pending :: "'h http_main \<Rightarrow> Key \<Rightarrow> 'h watchingCert \<Rightarrow> 'h handler_call list" where
  "pending p k c = (case hm_watch p k of WatchHandle d hs \<Rightarrow> map (call_of d (wc_Config c)) hs | _ \<Rightarrow> [])"

definition cert_inv :: "(Key \<rightharpoonup> 'h watchingCert) \<Rightarrow> 'h http_main \<Rightarrow> Key \<Rightarrow> bool" where
  "cert_inv certs p k \<longleftrightarrow>
     hm_sent p k = hm_taken p k @ hm_chan p k \<and> length (hm_chan p k) \<le> 1 \<and>
     (case certs k of
        None \<Rightarrow> hm_certs p k = None \<and> hm_poll p k = PollOff \<and> hm_watch p k = WatchOff
      | Some c\<^sub>0 \<Rightarrow> \<exists>c. hm_certs p k = Some c \<and> watchUpdate (hm_taken p k) c\<^sub>0 = (c, hm_calls p k @ pending p k c))"

definition running_pollers :: "'h http_main \<Rightarrow> Key set" where
  "running_pollers p = {k \<in> dom (hm_certs p). hm_poll p k \<noteq> PollOff \<and> hm_poll p k \<noteq> PollEnded}"

definition running_watchers :: "'h http_main \<Rightarrow> Key set" where
  "running_watchers p = {k \<in> dom (hm_certs p). hm_watch p k \<noteq> WatchOff \<and> hm_watch p k \<noteq> WatchEnded}"

definition group_inv :: "'h http_main \<Rightarrow> bool" where
  "group_inv p \<longleftrightarrow> finite (dom (hm_certs p)) \<and>
     hm_wg p = int (card (running_pollers p)) + int (card (running_watchers p)) \<and>
     (hm_main p \<noteq> StartWatchers \<longrightarrow> (\<forall>k \<in> dom (hm_certs p). hm_watch p k \<noteq> WatchOff)) \<and>
     (hm_main p \<notin> {StartWatchers, StartPollers} \<longrightarrow> (\<forall>k \<in> dom (hm_certs p). hm_poll p k \<noteq> PollOff)) \<and>
     (hm_main p = MainDone \<longrightarrow> hm_wg p = 0) \<and>
     (hm_main p \<in> {WaitGroup, MainDone} \<longrightarrow> hm_ctxDone p)"

definition http_inv :: "(Key \<rightharpoonup> 'h watchingCert) \<Rightarrow> 'h http_main \<Rightarrow> bool" where
  "http_inv certs p \<longleftrightarrow> dom (hm_certs p) = dom certs \<and> (\<forall>k. cert_inv certs p k) \<and> group_inv p"

lemma watchUpdate_snoc:
  "watchUpdate (ds @ [d]) c = (let (c1, calls1) = watchUpdate ds c; (c2, calls2) = watch_one d c1 in (c2, calls1 @ calls2))"
  by (induction ds arbitrary: c) (auto simp: Let_def case_prod_beta)

lemma watch_one_changed:
  "watch_one d c = (if changed c d then (c\<lparr>wc_Data := d\<rparr>, map (call_of d (wc_Config c)) (wc_UpdateHandlers c)) else (c, []))"
  by (simp add: watch_one_def changed_def call_of_def Let_def)

definition same_at :: "Key \<Rightarrow> 'h http_main \<Rightarrow> 'h http_main \<Rightarrow> bool" where
  "same_at k p q \<longleftrightarrow> hm_certs q k = hm_certs p k \<and> hm_poll q k = hm_poll p k \<and> hm_watch q k = hm_watch p k \<and>
     hm_chan q k = hm_chan p k \<and> hm_calls q k = hm_calls p k \<and> hm_sent q k = hm_sent p k \<and> hm_taken q k = hm_taken p k"

lemma cert_inv_same: "cert_inv certs p k \<Longrightarrow> same_at k p q \<Longrightarrow> cert_inv certs q k"
  unfolding cert_inv_def pending_def same_at_def by (auto split: option.splits)

lemma cert_inv_one:
  assumes "\<forall>k. cert_inv certs p k" "\<And>k'. k' \<noteq> k \<Longrightarrow> same_at k' p q" "cert_inv certs q k"
  shows "\<forall>k. cert_inv certs q k"
  using assms cert_inv_same by metis

lemma cert_inv_known:
  "cert_inv certs p k \<Longrightarrow> hm_poll p k \<noteq> PollOff \<or> hm_watch p k \<noteq> WatchOff \<or> k \<in> dom (hm_certs p) \<Longrightarrow>
     \<exists>c\<^sub>0 c. certs k = Some c\<^sub>0 \<and> hm_certs p k = Some c \<and> watchUpdate (hm_taken p k) c\<^sub>0 = (c, hm_calls p k @ pending p k c)"
  by (auto simp: cert_inv_def split: option.splits)

lemma cert_inv_queue: "cert_inv certs p k \<Longrightarrow> hm_sent p k = hm_taken p k @ hm_chan p k \<and> length (hm_chan p k) \<le> 1"
  by (simp add: cert_inv_def)

lemma cert_inv_takes:
  assumes inv: "cert_inv certs p k" and s: "hm_watch p k = WatchSelect" "hm_chan p k = d # rest" "hm_certs p k = Some c"
  shows "cert_inv certs (p\<lparr>hm_chan := (hm_chan p)(k := rest), hm_taken := (hm_taken p)(k := hm_taken p k @ [d]),
      hm_certs := (hm_certs p)(k \<mapsto> (if changed c d then c\<lparr>wc_Data := d\<rparr> else c)),
      hm_watch := (hm_watch p)(k := (if changed c d then WatchHandle d (wc_UpdateHandlers c) else WatchSelect))\<rparr>) k"
proof -
  obtain c\<^sub>0 where "certs k = Some c\<^sub>0" "watchUpdate (hm_taken p k) c\<^sub>0 = (c, hm_calls p k)"
    using cert_inv_known [OF inv] s by (auto simp: pending_def)
  then show ?thesis
    using cert_inv_queue [OF inv] s(2) by (simp add: cert_inv_def pending_def watchUpdate_snoc watch_one_changed)
qed

lemma cert_inv_handles:
  assumes inv: "cert_inv certs p k" and s: "hm_watch p k = WatchHandle d (h # hs)" "hm_certs p k = Some c"
  shows "cert_inv certs (p\<lparr>hm_watch := (hm_watch p)(k := WatchHandle d hs),
      hm_calls := (hm_calls p)(k := hm_calls p k @ [call_of d (wc_Config c) h])\<rparr>) k"
proof -
  obtain c\<^sub>0 where "certs k = Some c\<^sub>0" "watchUpdate (hm_taken p k) c\<^sub>0 = (c, hm_calls p k @ call_of d (wc_Config c) h # map (call_of d (wc_Config c)) hs)"
    using cert_inv_known [OF inv] s by (auto simp: pending_def)
  then show ?thesis
    using cert_inv_queue [OF inv] s by (simp add: cert_inv_def pending_def)
qed

text \<open>A change of the goroutines of one certificate that makes no call and changes no data.\<close>

lemma cert_inv_local:
  assumes "\<forall>k. cert_inv certs p k" "hm_poll p k \<noteq> PollOff \<or> hm_watch p k \<noteq> WatchOff \<or> k \<in> dom (hm_certs p)"
    and "\<And>k'. k' \<noteq> k \<Longrightarrow> same_at k' p q" "hm_certs q k = hm_certs p k" "pending q k = pending p k"
    and "hm_sent q k = hm_taken q k @ hm_chan q k" "length (hm_chan q k) \<le> 1" "hm_calls q k = hm_calls p k" "hm_taken q k = hm_taken p k"
  shows "\<forall>k. cert_inv certs q k"
proof (rule cert_inv_one [OF assms(1,3)])
  obtain c\<^sub>0 c where "certs k = Some c\<^sub>0" "hm_certs p k = Some c"
      "watchUpdate (hm_taken p k) c\<^sub>0 = (c, hm_calls p k @ pending p k c)"
    using cert_inv_known [OF spec [OF assms(1)] assms(2)] by blast
  then show "cert_inv certs q k"
    using assms(4-9) by (simp add: cert_inv_def)
qed

lemma cert_inv_step:
  assumes "http_step ans p q" "\<forall>k. cert_inv certs p k"
  shows "\<forall>k. cert_inv certs q k"
  using assms(1)
proof cases
  case (takes k d rest c)
  have "cert_inv certs q k" unfolding takes(1) by (rule cert_inv_takes [OF _ takes(2-4)]) (use assms(2) in blast)
  then show ?thesis
    by (rule cert_inv_one [OF assms(2), rotated]) (simp add: takes same_at_def)
next
  case (handles k d h hs c)
  have "cert_inv certs q k" unfolding handles(1) by (rule cert_inv_handles [OF _ handles(2,3)]) (use assms(2) in blast)
  then show ?thesis
    by (rule cert_inv_one [OF assms(2), rotated]) (simp add: handles same_at_def)
next
  case (launch_watcher k)
  show ?thesis
    by (rule cert_inv_local [OF assms(2), of k]) (use launch_watcher cert_inv_queue [of certs p k] assms(2) in \<open>auto simp: same_at_def pending_def fun_eq_iff\<close>)
next
  case (launch_poller k)
  show ?thesis
    by (rule cert_inv_local [OF assms(2), of k]) (use launch_poller cert_inv_queue [of certs p k] assms(2) in \<open>auto simp: same_at_def pending_def fun_eq_iff\<close>)
next
  case (answered k c resp upd sleep')
  show ?thesis
    by (rule cert_inv_local [OF assms(2), of k]) (use answered cert_inv_queue [of certs p k] assms(2) in \<open>auto simp: same_at_def pending_def fun_eq_iff\<close>)
next
  case (sends k d)
  show ?thesis
    by (rule cert_inv_local [OF assms(2), of k]) (use sends cert_inv_queue [of certs p k] assms(2) in \<open>auto simp: same_at_def pending_def fun_eq_iff\<close>)
next
  case (send_ends k d)
  show ?thesis
    by (rule cert_inv_local [OF assms(2), of k]) (use send_ends cert_inv_queue [of certs p k] assms(2) in \<open>auto simp: same_at_def pending_def fun_eq_iff\<close>)
next
  case (timer k)
  show ?thesis
    by (rule cert_inv_local [OF assms(2), of k]) (use timer cert_inv_queue [of certs p k] assms(2) in \<open>auto simp: same_at_def pending_def fun_eq_iff\<close>)
next
  case (sleep_ends k)
  show ?thesis
    by (rule cert_inv_local [OF assms(2), of k]) (use sleep_ends cert_inv_queue [of certs p k] assms(2) in \<open>auto simp: same_at_def pending_def fun_eq_iff\<close>)
next
  case (handled k d)
  show ?thesis
    by (rule cert_inv_local [OF assms(2), of k]) (use handled cert_inv_queue [of certs p k] assms(2) in \<open>auto simp: same_at_def pending_def fun_eq_iff\<close>)
next
  case (watch_ends k)
  show ?thesis
    by (rule cert_inv_local [OF assms(2), of k]) (use watch_ends cert_inv_queue [of certs p k] assms(2) in \<open>auto simp: same_at_def pending_def fun_eq_iff\<close>)
qed (use assms(2) in \<open>auto intro: cert_inv_same simp: same_at_def\<close>)

subsection \<open>The wait group\<close>

lemma card_move:
  assumes "finite D" "k \<in> D"
  shows "int (card {x \<in> D. P ((f(k := v)) x)}) =
    int (card {x \<in> D. P (f x)}) + (if P v then 1 else 0) - (if P (f k) then 1 else 0)"
proof -
  define A where "A = {x \<in> D. P (f x)} - {k}"
  have A: "finite A" "k \<notin> A" using assms(1) by (auto simp: A_def)
  have "{x \<in> D. P ((f(k := v)) x)} = (if P v then insert k A else A)"
    "{x \<in> D. P (f x)} = (if P (f k) then insert k A else A)"
    using assms(2) by (auto simp: A_def split: if_splits)
  then show ?thesis using A by (simp add: card_insert_disjoint)
qed

definition poll_runs :: "poll_pc \<Rightarrow> bool" where
  "poll_runs pc \<longleftrightarrow> pc \<noteq> PollOff \<and> pc \<noteq> PollEnded"

definition watch_runs :: "'h watch_pc \<Rightarrow> bool" where
  "watch_runs pc \<longleftrightarrow> pc \<noteq> WatchOff \<and> pc \<noteq> WatchEnded"

lemma running_sets:
  "running_pollers p = {x \<in> dom (hm_certs p). poll_runs (hm_poll p x)}"
  "running_watchers p = {x \<in> dom (hm_certs p). watch_runs (hm_watch p x)}"
  by (simp_all add: running_pollers_def running_watchers_def poll_runs_def watch_runs_def)

lemma poll_moves:
  assumes "finite (dom (hm_certs p))" "k \<in> dom (hm_certs p)" "dom (hm_certs q) = dom (hm_certs p)" "hm_poll q = (hm_poll p)(k := v)"
  shows "int (card (running_pollers q)) =
    int (card (running_pollers p)) + (if poll_runs v then 1 else 0) - (if poll_runs (hm_poll p k) then 1 else 0)"
  using card_move [OF assms(1,2), of poll_runs "hm_poll p" v] by (simp only: running_sets assms(3,4))

lemma watch_moves:
  assumes "finite (dom (hm_certs p))" "k \<in> dom (hm_certs p)" "dom (hm_certs q) = dom (hm_certs p)" "hm_watch q = (hm_watch p)(k := v)"
  shows "int (card (running_watchers q)) =
    int (card (running_watchers p)) + (if watch_runs v then 1 else 0) - (if watch_runs (hm_watch p k) then 1 else 0)"
  using card_move [OF assms(1,2), of watch_runs "hm_watch p" v] by (simp only: running_sets assms(3,4))

lemma running_same:
  "dom (hm_certs q) = dom (hm_certs p) \<Longrightarrow> hm_poll q = hm_poll p \<Longrightarrow> running_pollers q = running_pollers p"
  "dom (hm_certs q) = dom (hm_certs p) \<Longrightarrow> hm_watch q = hm_watch p \<Longrightarrow> running_watchers q = running_watchers p"
  by (simp_all add: running_sets)

lemma wg_zero:
  assumes "group_inv p" "hm_wg p = 0"
  shows "running_pollers p = {}" "running_watchers p = {}"
proof -
  have "finite (dom (hm_certs p))" "int (card (running_pollers p)) + int (card (running_watchers p)) = 0"
    using assms unfolding group_inv_def by simp_all
  moreover from this have "finite (running_pollers p)" "finite (running_watchers p)"
    by (simp_all add: running_sets)
  moreover have "m = 0 \<and> n = 0" if "int m + int n = 0" for m n :: nat using that by simp
  ultimately have "finite (running_pollers p)" "finite (running_watchers p)" "card (running_pollers p) = 0" "card (running_watchers p) = 0"
    by blast+
  then show "running_pollers p = {}" "running_watchers p = {}" by simp_all
qed

lemma wg_main: "group_inv p \<Longrightarrow> hm_main p = MainDone \<Longrightarrow> hm_wg p = 0"
  by (simp add: group_inv_def)

text \<open>A step of a poller or a watcher: the counter changes with the goroutine.\<close>

lemma group_inv_poll:
  assumes inv: "group_inv p" and k: "k \<in> dom (hm_certs p)" and v: "v \<noteq> PollOff"
    and q: "dom (hm_certs q) = dom (hm_certs p)" "hm_poll q = (hm_poll p)(k := v)" "hm_watch q = hm_watch p"
      "hm_main q = hm_main p" "hm_ctxDone q = hm_ctxDone p"
    and wg: "hm_wg q = hm_wg p + (if poll_runs v then 1 else 0) - (if poll_runs (hm_poll p k) then 1 else 0)"
    and "poll_runs (hm_poll p k) \<or> hm_main p = StartPollers"
  shows "group_inv q"
proof -
  have fin: "finite (dom (hm_certs p))" using inv by (simp add: group_inv_def)
  have "hm_main p \<noteq> MainDone"
    using wg_zero(1) [OF inv wg_main [OF inv]] assms(10) k unfolding running_sets(1) by auto
  then show ?thesis
    using inv v poll_moves [OF fin k q(1,2)] running_same(2) [OF q(1,3)] by (simp add: group_inv_def q wg)
qed

lemma group_inv_watch:
  assumes inv: "group_inv p" and k: "k \<in> dom (hm_certs p)" and v: "v \<noteq> WatchOff"
    and q: "dom (hm_certs q) = dom (hm_certs p)" "hm_watch q = (hm_watch p)(k := v)" "hm_poll q = hm_poll p"
      "hm_main q = hm_main p" "hm_ctxDone q = hm_ctxDone p"
    and wg: "hm_wg q = hm_wg p + (if watch_runs v then 1 else 0) - (if watch_runs (hm_watch p k) then 1 else 0)"
    and "watch_runs (hm_watch p k) \<or> hm_main p = StartWatchers"
  shows "group_inv q"
proof -
  have fin: "finite (dom (hm_certs p))" using inv by (simp add: group_inv_def)
  have "hm_main p \<noteq> MainDone"
    using wg_zero(2) [OF inv wg_main [OF inv]] assms(10) k unfolding running_sets(2) by auto
  then show ?thesis
    using inv v watch_moves [OF fin k q(1,2)] running_same(1) [OF q(1,3)] by (simp add: group_inv_def q wg)
qed

lemma group_inv_step:
  assumes "http_step ans p q" "group_inv p" and c: "\<forall>k. cert_inv certs p k"
  shows "group_inv q"
proof -
  have known: "k \<in> dom (hm_certs p)" if "hm_poll p k \<noteq> PollOff \<or> hm_watch p k \<noteq> WatchOff" for k
    using cert_inv_known [OF spec [OF c], of k] that by blast
  note local = group_inv_poll [OF assms(2)] group_inv_watch [OF assms(2)]
  from assms(1) show ?thesis
  proof cases
    case (launch_watcher k)
    then show ?thesis by (intro local(2) [of k WatchSelect]) (auto simp: watch_runs_def)
  next
    case (launch_poller k)
    then show ?thesis by (intro local(1) [of k PollRequest]) (auto simp: poll_runs_def)
  next
    case (answered k c resp upd sleep')
    then show ?thesis
      by (intro local(1) [of k "case upd of None \<Rightarrow> PollSleep | Some d \<Rightarrow> PollSend d"]) (auto simp: poll_runs_def split: option.splits)
  next
    case (sends k d)
    then show ?thesis using known [of k] by (intro local(1) [of k PollSleep]) (auto simp: poll_runs_def)
  next
    case (send_ends k d)
    then show ?thesis using known [of k] by (intro local(1) [of k PollEnded]) (auto simp: poll_runs_def)
  next
    case (timer k)
    then show ?thesis using known [of k] by (intro local(1) [of k PollRequest]) (auto simp: poll_runs_def)
  next
    case (sleep_ends k)
    then show ?thesis using known [of k] by (intro local(1) [of k PollEnded]) (auto simp: poll_runs_def)
  next
    case (takes k d rest c)
    then show ?thesis
      by (intro local(2) [of k "if changed c d then WatchHandle d (wc_UpdateHandlers c) else WatchSelect"]) (auto simp: watch_runs_def)
  next
    case (handles k d h hs c)
    then show ?thesis by (intro local(2) [of k "WatchHandle d hs"]) (auto simp: watch_runs_def)
  next
    case (handled k d)
    then show ?thesis using known [of k] by (intro local(2) [of k WatchSelect]) (auto simp: watch_runs_def)
  next
    case (watch_ends k)
    then show ?thesis using known [of k] by (intro local(2) [of k WatchEnded]) (auto simp: watch_runs_def)
  qed (use assms(2) in \<open>auto simp: group_inv_def running_sets\<close>)
qed

interpretation http: step_invariant "http_init certs" "http_step ans" "http_inv certs"
proof
  fix p q :: "'a http_main"
  show "http_inv certs p" if "http_init certs p"
    using that by (auto simp: http_inv_def http_init_def cert_inv_def group_inv_def running_sets poll_runs_def watch_runs_def
        pending_def split: option.splits)
  assume p: "http_inv certs p" "http_step ans p q"
  then have "dom (hm_certs q) = dom (hm_certs p)"
    by (auto elim!: http_step.cases split: if_splits)
  then show "http_inv certs q"
    using p cert_inv_step [OF p(2), of certs] group_inv_step [OF p(2), of certs] by (simp add: http_inv_def)
qed

section \<open>The end\<close>

definition poll_rank :: "poll_pc \<Rightarrow> nat" where
  "poll_rank pc = (case pc of PollOff \<Rightarrow> 4 | PollRequest \<Rightarrow> 3 | PollSend _ \<Rightarrow> 2 | PollSleep \<Rightarrow> 1 | PollEnded \<Rightarrow> 0)"

definition watch_rank :: "'h watch_pc \<Rightarrow> nat" where
  "watch_rank pc = (case pc of WatchOff \<Rightarrow> 2 | WatchSelect \<Rightarrow> 1 | WatchHandle _ hs \<Rightarrow> 2 + length hs | WatchEnded \<Rightarrow> 0)"

definition main_rank :: "main_pc \<Rightarrow> nat" where
  "main_rank pc = (case pc of StartWatchers \<Rightarrow> 4 | StartPollers \<Rightarrow> 3 | WaitCtx \<Rightarrow> 2 | WaitGroup \<Rightarrow> 1 | MainDone \<Rightarrow> 0)"

definition total :: "(Key \<Rightarrow> nat) \<Rightarrow> 'h http_main \<Rightarrow> nat" where
  "total f p = (\<Sum>k \<in> dom (hm_certs p). f k)"

definition http_order :: "('h http_main \<times> 'h http_main) set" where
  "http_order = inv_image (less_than <*lex*> less_than <*lex*> less_than <*lex*> less_than)
     (\<lambda>p. (total (\<lambda>k. poll_rank (hm_poll p k)) p, total (\<lambda>k. length (hm_chan p k)) p,
           total (\<lambda>k. watch_rank (hm_watch p k)) p, main_rank (hm_main p)))"

lemma wf_http_order: "wf http_order"
  by (auto simp: http_order_def intro!: wf_inv_image wf_lex_prod)

lemma total_less:
  assumes "finite (dom (hm_certs p))" "k \<in> dom (hm_certs p)" "dom (hm_certs q) = dom (hm_certs p)"
    and "\<And>x. x \<noteq> k \<Longrightarrow> f x = g x" "f k < g k"
  shows "total f q < total g p"
  unfolding total_def assms(3)
proof (rule sum_strict_mono_ex1 [OF assms(1)])
  show "\<forall>x \<in> dom (hm_certs p). f x \<le> g x" using assms(4,5) by (metis less_imp_le order_refl)
  show "\<exists>x \<in> dom (hm_certs p). f x < g x" using assms(2,5) by blast
qed

lemma total_same: "dom (hm_certs q) = dom (hm_certs p) \<Longrightarrow> (\<And>x. f x = g x) \<Longrightarrow> total f q = total g p"
  by (simp add: total_def)

definition answers_ok :: "(Key \<Rightarrow> HttpCertResp option \<Rightarrow> bool) \<Rightarrow> bool" where
  "answers_ok ans \<longleftrightarrow> (\<forall>k. ans k None) \<and> (\<forall>k r. ans k (Some r) \<longrightarrow> hr_Err r = [] \<longrightarrow> 4 \<le> hr_RenewTimeLeft r)"

lemma sleep_positive:
  assumes "answers_ok ans" "ans k resp" "poll_round c resp d = (upd, d')" "0 < d"
  shows "0 < d'"
proof (cases "\<exists>r. resp = Some r \<and> hr_Err r = []")
  case True
  then obtain r where r: "resp = Some r" "hr_Err r = []" by blast
  then have "4 \<le> hr_RenewTimeLeft r" "d' = hr_RenewTimeLeft r sdiv 4"
    using assms(1-3) by (auto simp: answers_ok_def poll_round_def)
  then show ?thesis by (simp add: signed_divide_int_def)
qed (use assms(3,4) in \<open>auto simp: poll_round_def split: option.splits if_splits\<close>)

definition positive_sleeps :: "'h http_main \<Rightarrow> bool" where
  "positive_sleeps p \<longleftrightarrow> (\<forall>k. hm_poll p k \<noteq> PollOff \<longrightarrow> 0 < hm_sleep p k)"

lemma positive_sleeps_step: "answers_ok ans \<Longrightarrow> http_step ans p q \<Longrightarrow> positive_sleeps p \<Longrightarrow> positive_sleeps q"
  by (erule http_step.cases) (auto simp: positive_sleeps_def intro: sleep_positive split: if_splits)

text \<open>Once the context is done and every sleep is positive.\<close>

definition http_closing :: "(Key \<rightharpoonup> 'h watchingCert) \<Rightarrow> 'h http_main \<Rightarrow> bool" where
  "http_closing certs p \<longleftrightarrow> http_inv certs p \<and> hm_ctxDone p \<and> positive_sleeps p"

lemma poll_goes_down:
  assumes "http_inv certs p" "hm_poll p k \<noteq> PollOff \<or> k \<in> dom (hm_certs p)" "dom (hm_certs q) = dom (hm_certs p)"
    and "hm_poll q = (hm_poll p)(k := v)" "poll_rank v < poll_rank (hm_poll p k)"
  shows "(q, p) \<in> http_order"
proof -
  have "finite (dom (hm_certs p))" "k \<in> dom (hm_certs p)"
    using assms(1,2) cert_inv_known [of certs p k] by (auto simp: http_inv_def group_inv_def)
  then have "total (\<lambda>k. poll_rank (hm_poll q k)) q < total (\<lambda>k. poll_rank (hm_poll p k)) p"
    by (rule total_less [where k = k]) (use assms in auto)
  then show ?thesis by (simp add: http_order_def)
qed

lemma watch_goes_down:
  assumes "http_inv certs p" "hm_watch p k \<noteq> WatchOff \<or> k \<in> dom (hm_certs p)" "dom (hm_certs q) = dom (hm_certs p)"
    and "hm_poll q = hm_poll p" "hm_watch q = (hm_watch p)(k := v)"
    and "hm_chan q = hm_chan p \<and> watch_rank v < watch_rank (hm_watch p k) \<or>
      (\<exists>d rest. hm_chan p k = d # rest \<and> hm_chan q = (hm_chan p)(k := rest))"
  shows "(q, p) \<in> http_order"
proof -
  have fin: "finite (dom (hm_certs p))" "k \<in> dom (hm_certs p)"
    using assms(1,2) cert_inv_known [of certs p k] by (auto simp: http_inv_def group_inv_def)
  have poll: "total (\<lambda>k. poll_rank (hm_poll q k)) q = total (\<lambda>k. poll_rank (hm_poll p k)) p"
    by (rule total_same) (use assms in simp_all)
  from assms(6) show ?thesis
  proof
    assume w: "hm_chan q = hm_chan p \<and> watch_rank v < watch_rank (hm_watch p k)"
    have "total (\<lambda>k. length (hm_chan q k)) q = total (\<lambda>k. length (hm_chan p k)) p"
      by (rule total_same) (use assms w in simp_all)
    moreover have "total (\<lambda>k. watch_rank (hm_watch q k)) q < total (\<lambda>k. watch_rank (hm_watch p k)) p"
      by (rule total_less [OF fin assms(3)]) (use assms w in auto)
    ultimately show ?thesis using poll by (simp add: http_order_def)
  next
    assume "\<exists>d rest. hm_chan p k = d # rest \<and> hm_chan q = (hm_chan p)(k := rest)"
    then have "total (\<lambda>k. length (hm_chan q k)) q < total (\<lambda>k. length (hm_chan p k)) p"
      by (intro total_less [OF fin assms(3)]) auto
    then show ?thesis using poll by (simp add: http_order_def)
  qed
qed

lemma main_goes_down:
  assumes "main_rank v < main_rank (hm_main p)"
  shows "(p\<lparr>hm_main := v\<rparr>, p) \<in> http_order"
  using assms by (simp add: http_order_def total_def)

lemma closing_goes_down:
  assumes "http_step ans p q" "http_closing certs p"
  shows "(q, p) \<in> http_order"
proof -
  have inv: "http_inv certs p" and ctx: "hm_ctxDone p" and pos: "positive_sleeps p"
    using assms(2) by (simp_all add: http_closing_def)
  note down = poll_goes_down [OF inv] watch_goes_down [OF inv]
  from assms(1) show ?thesis
  proof cases
    case (launch_watcher k)
    then show ?thesis by (intro down(2) [of k _ WatchSelect]) (auto simp: watch_rank_def)
  next
    case (launch_poller k)
    then show ?thesis by (intro down(1) [of k _ PollRequest]) (auto simp: poll_rank_def)
  next
    case (answered k c resp upd sleep')
    then show ?thesis
      by (intro down(1) [of k _ "case upd of None \<Rightarrow> PollSleep | Some d \<Rightarrow> PollSend d"]) (auto simp: poll_rank_def split: option.splits)
  next
    case (sends k d)
    then show ?thesis by (intro down(1) [of k _ PollSleep]) (auto simp: poll_rank_def)
  next
    case (send_ends k d)
    then show ?thesis by (intro down(1) [of k _ PollEnded]) (auto simp: poll_rank_def)
  next
    case (timer k)
    then show ?thesis using ctx pos by (auto simp: positive_sleeps_def dest!: spec [of _ k])
  next
    case (sleep_ends k)
    then show ?thesis by (intro down(1) [of k _ PollEnded]) (auto simp: poll_rank_def)
  next
    case (takes k d rest c)
    then show ?thesis
      by (intro down(2) [of k _ "if changed c d then WatchHandle d (wc_UpdateHandlers c) else WatchSelect"]) auto
  next
    case (handles k d h hs c)
    then show ?thesis by (intro down(2) [of k _ "WatchHandle d hs"]) (auto simp: watch_rank_def)
  next
    case (handled k d)
    then show ?thesis by (intro down(2) [of k _ WatchSelect]) (auto simp: watch_rank_def)
  next
    case (watch_ends k)
    then show ?thesis by (intro down(2) [of k _ WatchEnded]) (auto simp: watch_rank_def)
  qed (use ctx in \<open>auto intro!: main_goes_down simp: main_rank_def\<close>)
qed

definition http_ended :: "'h http_main \<Rightarrow> bool" where
  "http_ended p \<longleftrightarrow> hm_main p = MainDone \<and> hm_wg p = 0 \<and> running_pollers p = {} \<and> running_watchers p = {}"

lemma poller_progress:
  assumes "k \<in> running_pollers p" "hm_ctxDone p" "answers_ok ans"
  shows "\<exists>q. http_step ans p q"
proof (cases "hm_poll p k")
  case PollRequest
  obtain c where c: "hm_certs p k = Some c" using assms(1) by (auto simp: running_sets)
  obtain upd d where "poll_round (wc_Config c) None (hm_sleep p k) = (upd, d)" by fastforce
  then show ?thesis using answered [OF PollRequest c, of ans None] assms(3) by (auto simp: answers_ok_def)
qed (use assms(1,2) in \<open>auto simp: running_sets poll_runs_def intro: send_ends sleep_ends\<close>)

lemma watcher_progress:
  assumes "k \<in> running_watchers p" "hm_ctxDone p"
  shows "\<exists>q. http_step ans p q"
proof (cases "hm_watch p k")
  case (WatchHandle d hs)
  obtain c where c: "hm_certs p k = Some c" using assms(1) by (auto simp: running_sets)
  show ?thesis using WatchHandle c by (cases hs) (auto intro: handles handled)
qed (use assms in \<open>auto simp: running_sets watch_runs_def intro: watch_ends\<close>)

lemma closing_progress:
  assumes "http_closing certs p" "\<not> http_ended p" "answers_ok ans"
  shows "\<exists>q. http_step ans p q"
proof -
  have inv: "group_inv p" and ctx: "hm_ctxDone p" using assms(1) by (simp_all add: http_closing_def http_inv_def)
  show ?thesis
  proof (cases "hm_main p")
    case StartWatchers
    then show ?thesis using launch_watcher [of p] watchers_started [of p] by blast
  next
    case StartPollers
    then show ?thesis using launch_poller [of p] pollers_started [of p] by blast
  next
    case WaitCtx
    then show ?thesis using main_stops ctx by blast
  next
    case WaitGroup
    show ?thesis
    proof (cases "running_pollers p = {} \<and> running_watchers p = {}")
      case True
      then have "hm_wg p = 0" using inv by (simp add: group_inv_def)
      then show ?thesis using main_returns WaitGroup by blast
    qed (use poller_progress watcher_progress ctx assms(3) in blast)
  next
    case MainDone
    then show ?thesis using assms(2) wg_zero [OF inv] wg_main [OF inv] by (simp add: http_ended_def)
  qed
qed

interpretation http_end: teardown "http_step ans" "\<lambda>p. answers_ok ans \<and> http_closing certs p" http_ended http_order
proof
  show "answers_ok ans \<and> http_closing certs q" if "answers_ok ans \<and> http_closing certs p" "http_step ans p q" for p q
  proof -
    have "hm_ctxDone q" using that by (auto simp: http_closing_def elim!: http_step.cases)
    then show ?thesis
      using that http.inv_step positive_sleeps_step by (auto simp: http_closing_def)
  qed
qed (use wf_http_order closing_goes_down closing_progress in blast)+

section \<open>Properties\<close>

text \<open>
  C15: In every schedule of the client's goroutines: the wait group counts exactly the goroutines that
  run, so it is never negative; what a watcher has taken off its channel is what its poller has put
  in, in order, with at most one update on the way; the material that is served is that of the last
  update taken; and the calls of the handlers are those of \<open>watchUpdate\<close> on these updates, except that
  the last ones may still be to come while the watcher is handling a change.
\<close>

theorem http_main_delivers:
  assumes "http_init certs p\<^sub>0" "(http_step ans)\<^sup>*\<^sup>* p\<^sub>0 p"
  shows "hm_wg p = int (card (running_pollers p)) + int (card (running_watchers p)) \<and>
    (\<forall>k c\<^sub>0. certs k = Some c\<^sub>0 \<longrightarrow> (\<exists>c late.
       hm_sent p k = hm_taken p k @ hm_chan p k \<and> length (hm_chan p k) \<le> 1 \<and>
       hm_certs p k = Some c \<and> watchUpdate (hm_taken p k) c\<^sub>0 = (c, hm_calls p k @ late) \<and>
       (late \<noteq> [] \<longrightarrow> (\<exists>d hs. hm_watch p k = WatchHandle d hs)) \<and>
       material (wc_Data c) = last (material (wc_Data c\<^sub>0) # map material (hm_taken p k))))"
proof (intro conjI allI impI)
  have inv: "http_inv certs p" by (rule http.inv_reachable [OF assms])
  then show "hm_wg p = int (card (running_pollers p)) + int (card (running_watchers p))"
    by (simp add: http_inv_def group_inv_def)
  fix k c\<^sub>0
  assume c\<^sub>0: "certs k = Some c\<^sub>0"
  have k: "cert_inv certs p k" using inv by (simp add: http_inv_def)
  then obtain c where c: "hm_certs p k = Some c" "watchUpdate (hm_taken p k) c\<^sub>0 = (c, hm_calls p k @ pending p k c)"
    using c\<^sub>0 by (auto simp: cert_inv_def)
  have "pending p k c \<noteq> [] \<longrightarrow> (\<exists>d hs. hm_watch p k = WatchHandle d hs)"
    by (auto simp: pending_def split: watch_pc.splits)
  moreover have "material (wc_Data c) = last (material (wc_Data c\<^sub>0) # map material (hm_taken p k))"
    using watchUpdate_spec [of "hm_taken p k" c\<^sub>0] c(2) by simp
  ultimately show "\<exists>c late. hm_sent p k = hm_taken p k @ hm_chan p k \<and> length (hm_chan p k) \<le> 1 \<and>
       hm_certs p k = Some c \<and> watchUpdate (hm_taken p k) c\<^sub>0 = (c, hm_calls p k @ late) \<and>
       (late \<noteq> [] \<longrightarrow> (\<exists>d hs. hm_watch p k = WatchHandle d hs)) \<and>
       material (wc_Data c) = last (material (wc_Data c\<^sub>0) # map material (hm_taken p k))"
    using c cert_inv_queue [OF k] by blast
qed

text \<open>
  C20: \<open>HttpMain\<close> returns: when the server's answers allow a positive time between two polls (a
  \<open>RenewTimeLeft\<close> of at least four nanoseconds), then once \<open>Stop\<close> was called there is no endless run,
  in whatever order the goroutines are scheduled, and a client that can do nothing more has returned
  from \<open>HttpMain\<close> with all its goroutines ended.
\<close>

theorem http_main_returns:
  assumes "answers_ok ans" "http_init certs p\<^sub>0" "(http_step ans)\<^sup>*\<^sup>* p\<^sub>0 p" "hm_ctxDone p"
  shows "(\<forall>f. f 0 = p \<longrightarrow> \<not> (\<forall>i. http_step ans (f i) (f (Suc i)))) \<and>
    (\<exists>q. (http_step ans)\<^sup>*\<^sup>* p q \<and> http_ended q) \<and>
    (\<forall>q. (http_step ans)\<^sup>*\<^sup>* p q \<and> \<not> (\<exists>r. http_step ans q r) \<longrightarrow> http_ended q)"
proof -
  have "positive_sleeps p"
    using assms(3)
  proof (induction rule: rtranclp_induct)
    case base
    then show ?case using assms(2) by (simp add: positive_sleeps_def http_init_def)
  qed (use assms(1) positive_sleeps_step in blast)
  then have c: "answers_ok ans \<and> http_closing certs p"
    using assms(1,4) http.inv_reachable [OF assms(2,3)] by (simp add: http_closing_def)
  show ?thesis
    using http_end.no_endless_run [of ans certs] http_end.comes_to_end [OF c] http_end.stuck_ended [OF c] c by blast
qed

text \<open>Without that the poller may poll for ever: an answer with no time left makes the sleep zero.\<close>

theorem zero_time_left_polls_on:
  assumes "hm_poll p k = PollSleep" "hm_sleep p k \<le> 0" "hm_certs p k = Some c" "ans k None"
  shows "\<exists>q. http_step ans p q \<and> http_step ans q p"
proof -
  let ?q = "p\<lparr>hm_poll := (hm_poll p)(k := PollRequest)\<rparr>"
  have "http_step ans p ?q" using timer [of p k] assms(1,2) by blast
  moreover have "http_step ans ?q (?q\<lparr>hm_poll := (hm_poll ?q)(k := PollSleep), hm_sleep := (hm_sleep ?q)(k := hm_sleep p k)\<rparr>)"
    using answered [of ?q k c ans None None "hm_sleep p k"] assms(3,4) by (simp add: poll_round_def)
  moreover have "?q\<lparr>hm_poll := (hm_poll ?q)(k := PollSleep), hm_sleep := (hm_sleep ?q)(k := hm_sleep p k)\<rparr> = p"
    using assms(1) by (simp add: fun_upd_idem)
  ultimately show ?thesis by auto
qed

subsection \<open>An example run\<close>

definition ex_watched :: "unit watchingCert" where
  "ex_watched = \<lparr>wc_Data = \<lparr>cd_Domains = [''a.b''], cd_Fullchain = [], cd_Key = []\<rparr>,
     wc_Config = example_certification, wc_UpdateHandlers = [()]\<rparr>"

definition ex_answer :: HttpCertResp where
  "ex_answer = \<lparr>hr_RenewTimeLeft = Hour, hr_FullChain = ''C'', hr_Key = ''K'', hr_Err = []\<rparr>"

definition ex_ans :: "Key \<Rightarrow> HttpCertResp option \<Rightarrow> bool" where
  "ex_ans k r \<longleftrightarrow> r = None \<or> r = Some ex_answer"

definition ex_http :: "unit http_main" where
  "ex_http = \<lparr>hm_certs = [7 \<mapsto> ex_watched], hm_ctxDone = False, hm_main = StartWatchers, hm_wg = 0,
     hm_poll = \<lambda>_. PollOff, hm_sleep = \<lambda>_. 0, hm_chan = \<lambda>_. [], hm_watch = \<lambda>_. WatchOff, hm_calls = \<lambda>_. [],
     hm_sent = \<lambda>_. [], hm_taken = \<lambda>_. []\<rparr>"

lemma ex_http_init: "http_init [7 \<mapsto> ex_watched] ex_http"
  by (simp add: http_init_def ex_http_def)

lemma ex_ans_ok: "answers_ok ex_ans"
  by (simp add: answers_ok_def ex_ans_def ex_answer_def go_time_simps)

lemma ex_http_run:
  "\<exists>p. (http_step ex_ans)\<^sup>*\<^sup>* ex_http p \<and> hm_taken p 7 = [\<lparr>cd_Domains = [''a.b''], cd_Fullchain = ''C'', cd_Key = ''K''\<rparr>] \<and>
     hm_watch p 7 = WatchSelect"
proof -
  let ?d = "\<lparr>cd_Domains = [''a.b''], cd_Fullchain = ''C'', cd_Key = ''K''\<rparr>"
  let ?p1 = "ex_http\<lparr>hm_wg := 1, hm_watch := (hm_watch ex_http)(7 := WatchSelect)\<rparr>"
  let ?p2 = "?p1\<lparr>hm_main := StartPollers\<rparr>"
  let ?p3 = "?p2\<lparr>hm_wg := 2, hm_poll := (hm_poll ?p2)(7 := PollRequest), hm_sleep := (hm_sleep ?p2)(7 := 1 * Hour)\<rparr>"
  let ?p4 = "?p3\<lparr>hm_poll := (hm_poll ?p3)(7 := PollSend ?d), hm_sleep := (hm_sleep ?p3)(7 := Hour sdiv 4)\<rparr>"
  let ?p5 = "?p4\<lparr>hm_poll := (hm_poll ?p4)(7 := PollSleep), hm_chan := (hm_chan ?p4)(7 := [?d]), hm_sent := (hm_sent ?p4)(7 := [?d])\<rparr>"
  let ?p6 = "?p5\<lparr>hm_chan := (hm_chan ?p5)(7 := []), hm_taken := (hm_taken ?p5)(7 := [?d]),
      hm_certs := (hm_certs ?p5)(7 \<mapsto> ex_watched\<lparr>wc_Data := ?d\<rparr>), hm_watch := (hm_watch ?p5)(7 := WatchHandle ?d [()])\<rparr>"
  let ?p7 = "?p6\<lparr>hm_watch := (hm_watch ?p6)(7 := WatchHandle ?d []),
      hm_calls := (hm_calls ?p6)(7 := [call_of ?d example_certification ()])\<rparr>"
  let ?p8 = "?p7\<lparr>hm_watch := (hm_watch ?p7)(7 := WatchSelect)\<rparr>"
  have "(http_step ex_ans)\<^sup>*\<^sup>* ex_http ex_http" by simp
  also have "http_step ex_ans ex_http ?p1"
    using launch_watcher [of ex_http 7 ex_ans] by (simp add: ex_http_def)
  also have "http_step ex_ans ?p1 ?p2"
    using watchers_started [of ?p1 ex_ans] by (simp add: ex_http_def)
  also have "http_step ex_ans ?p2 ?p3"
    using launch_poller [of ?p2 7 ex_ans] by (simp add: ex_http_def)
  also have "http_step ex_ans ?p3 ?p4"
    using answered [of ?p3 7 ex_watched ex_ans "Some ex_answer" "Some ?d" "Hour sdiv 4"]
    by (simp add: ex_http_def ex_ans_def poll_round_def ex_answer_def ex_watched_def example_certification_def)
  also have "http_step ex_ans ?p4 ?p5"
    using sends [of ?p4 7 ?d ex_ans] by (simp add: ex_http_def)
  also have "http_step ex_ans ?p5 ?p6"
    using takes [of ?p5 7 ?d "[]" ex_watched ex_ans] by (simp add: ex_http_def changed_def ex_watched_def)
  also have "http_step ex_ans ?p6 ?p7"
    using handles [of ?p6 7 ?d "()" "[]" "ex_watched\<lparr>wc_Data := ?d\<rparr>" ex_ans] by (simp add: ex_http_def ex_watched_def)
  also have "http_step ex_ans ?p7 ?p8"
    using handled [of ?p7 7 ?d ex_ans] by (simp add: ex_http_def)
  finally have "(http_step ex_ans)\<^sup>*\<^sup>* ex_http ?p8" .
  moreover have "hm_taken ?p8 7 = [?d]" "hm_watch ?p8 7 = WatchSelect" by simp_all
  ultimately show ?thesis by blast
qed

theorem http_main_delivers_witness:
  "\<exists>p c. (http_step ex_ans)\<^sup>*\<^sup>* ex_http p \<and> hm_certs p 7 = Some c \<and> material (wc_Data c) = (''C'', ''K'') \<and>
     hm_calls p 7 = [\<lparr>hc_handler = (), hc_fullchain = ''C'', hc_key = ''K'', hc_cert = example_certification\<rparr>]"
proof -
  obtain p where p: "(http_step ex_ans)\<^sup>*\<^sup>* ex_http p"
    "hm_taken p 7 = [\<lparr>cd_Domains = [''a.b''], cd_Fullchain = ''C'', cd_Key = ''K''\<rparr>]" "hm_watch p 7 = WatchSelect"
    using ex_http_run by blast
  have "\<forall>k c\<^sub>0. [7 \<mapsto> ex_watched] k = Some c\<^sub>0 \<longrightarrow> (\<exists>c late. hm_certs p k = Some c \<and>
      watchUpdate (hm_taken p k) c\<^sub>0 = (c, hm_calls p k @ late) \<and> (late \<noteq> [] \<longrightarrow> (\<exists>d hs. hm_watch p k = WatchHandle d hs)) \<and>
      material (wc_Data c) = last (material (wc_Data c\<^sub>0) # map material (hm_taken p k)))"
    using http_main_delivers [OF ex_http_init p(1)] by blast
  then obtain c where "hm_certs p 7 = Some c" "watchUpdate (hm_taken p 7) ex_watched = (c, hm_calls p 7)"
    "material (wc_Data c) = last (material (wc_Data ex_watched) # map material (hm_taken p 7))"
    using p(3) by (auto dest!: spec [of _ 7])
  then show ?thesis
    using p by (auto simp: watch_one_def ex_watched_def material_def)
qed

theorem http_main_returns_witness:
  "\<exists>q. (http_step ex_ans)\<^sup>*\<^sup>* (ex_http\<lparr>hm_ctxDone := True\<rparr>) q \<and> http_ended q"
proof -
  have "(http_step ex_ans)\<^sup>*\<^sup>* ex_http (ex_http\<lparr>hm_ctxDone := True\<rparr>)"
    using stop [of ex_http ex_ans] by (auto simp: ex_http_def)
  from http_main_returns [OF ex_ans_ok ex_http_init this] show ?thesis by simp
qed

end
