(* ===== verification/Grpc_Streamer.thy ===== *)
theory Grpc_Streamer
  imports Config_Client
begin

text \<open>
  \<open>pkg/client/grpc_streamer.go\<close>: the failover between the main and the standby gRPC server. The
  dispatcher \<open>run\<close>, the goroutines it starts and \<open>GRPCMain\<close> interleave; they share the channel
  \<open>stateChan\<close> (one buffered state), the flag \<open>standbyActive\<close>, the current session and the root
  context. A stream may end at any time, after a short or a long life, and the main one may receive
  messages while it lasts. Sessions are numbered; the numbers of cancelled ones are a set.
\<close>

section \<open>State\<close>

datatype GRPC_CLIENT_STATE =
    GRPC_STATE_STOP
  | GRPC_STATE_MAIN
  | GRPC_STATE_FAILOVER
  | GRPC_STATE_TRY_FALLBACK
  | GRPC_STATE_RESTART_MAIN

datatype dispatcher = DWait | DSend GRPC_CLIENT_STATE | DExit

datatype main_pc = MStream | MBackoff | MSend GRPC_CLIENT_STATE

datatype failover_pc = FCheck int | FStream int | FBackoff int | FSleep

datatype fallback_pc = BStart nat | BWait nat nat | BCancel nat
  \<comment> \<open>session; the messages of the main stream received when the channel was read\<close>

datatype restart_pc = RSleep nat | RSendMain

datatype grpcmain_pc = GStart | GWait | GSendStop | GDrain

record grpcStreamer =
  g_stateChan :: "GRPC_CLIENT_STATE list"
  g_dispatcher :: dispatcher
  g_mains :: "main_pc list"
  g_failovers :: "failover_pc list"
  g_fallbacks :: "fallback_pc list"
  g_restarts :: "restart_pc list"
  g_grpcMain :: grpcmain_pc
  g_mainRetryCount :: int
  g_standbyActive :: bool
  g_session :: nat
  g_cancelled :: "nat set"
  g_received :: nat
  g_rootDone :: bool

definition session_done :: "grpcStreamer \<Rightarrow> nat \<Rightarrow> bool" where
  "session_done s n \<longleftrightarrow> n \<in> g_cancelled s \<or> g_rootDone s"

definition newGRPCStreamer :: grpcStreamer where
  "newGRPCStreamer =
     \<lparr>g_stateChan = [], g_dispatcher = DWait, g_mains = [], g_failovers = [], g_fallbacks = [], g_restarts = [],
      g_grpcMain = GStart, g_mainRetryCount = 0, g_standbyActive = False, g_session = 0, g_cancelled = {},
      g_received = 0, g_rootDone = False\<rparr>"

section \<open>The goroutines\<close>

text \<open>What \<open>handleMain\<close> does when its stream has ended: the retry counter and where it goes on.
  \<open>short\<close> says that the stream lasted less than \<open>grpcRetryWindow\<close>.\<close>

definition main_ended :: "int \<Rightarrow> bool \<Rightarrow> bool \<Rightarrow> grpcStreamer \<Rightarrow> int \<times> main_pc" where
  "main_ended retryCount standbyExists short s =
     (if g_rootDone s then (g_mainRetryCount s, MSend GRPC_STATE_STOP)
      else if \<not> short then (0, MSend GRPC_STATE_MAIN)
      else
        let n = g_mainRetryCount s + 1 in
        if n < retryCount then (n, MBackoff)
        else if standbyExists \<and> \<not> g_standbyActive s then (0, MSend GRPC_STATE_FAILOVER)
        else (0, MSend GRPC_STATE_RESTART_MAIN))"

text \<open>The loop of \<open>handleFailover\<close> after its stream has ended; \<open>None\<close> when it returns.\<close>

definition standby_ended :: "int \<Rightarrow> bool \<Rightarrow> int \<Rightarrow> grpcStreamer \<Rightarrow> failover_pc option" where
  "standby_ended retryCount short n s =
     (if session_done s (g_session s) then None
      else if \<not> short then Some (FCheck 0)
      else if n + 1 < retryCount then Some (FBackoff (n + 1))
      else Some FSleep)"

inductive gstep :: "int \<Rightarrow> bool \<Rightarrow> grpcStreamer \<Rightarrow> grpcStreamer \<Rightarrow> bool" for retryCount standbyExists where
  stop: "gstep retryCount standbyExists s (s\<lparr>g_rootDone := True\<rparr>)"
| start: "g_grpcMain s = GStart \<Longrightarrow> g_stateChan s = [] \<Longrightarrow>
    gstep retryCount standbyExists s (s\<lparr>g_stateChan := [GRPC_STATE_MAIN], g_grpcMain := GWait\<rparr>)"
| start_done: "g_grpcMain s = GStart \<Longrightarrow> g_rootDone s \<Longrightarrow>
    gstep retryCount standbyExists s (s\<lparr>g_grpcMain := GWait\<rparr>)"
| root_done: "g_grpcMain s = GWait \<Longrightarrow> g_rootDone s \<Longrightarrow>
    gstep retryCount standbyExists s (s\<lparr>g_grpcMain := GSendStop\<rparr>)"
| send_stop: "g_grpcMain s = GSendStop \<Longrightarrow> g_stateChan s = [] \<Longrightarrow>
    gstep retryCount standbyExists s (s\<lparr>g_stateChan := [GRPC_STATE_STOP], g_grpcMain := GDrain\<rparr>)"
| send_stop_done: "g_grpcMain s = GSendStop \<Longrightarrow>
    gstep retryCount standbyExists s (s\<lparr>g_grpcMain := GDrain\<rparr>)"
| disp_exit: "g_dispatcher s = DWait \<Longrightarrow> g_rootDone s \<Longrightarrow>
    gstep retryCount standbyExists s (s\<lparr>g_dispatcher := DExit, g_cancelled := insert (g_session s) (g_cancelled s)\<rparr>)"
| disp_stop: "g_dispatcher s = DWait \<Longrightarrow> g_stateChan s = GRPC_STATE_STOP # q \<Longrightarrow>
    gstep retryCount standbyExists s (s\<lparr>g_stateChan := q, g_dispatcher := DExit,
      g_cancelled := insert (g_session s) (g_cancelled s)\<rparr>)"
| disp_main: "g_dispatcher s = DWait \<Longrightarrow> g_stateChan s = GRPC_STATE_MAIN # q \<Longrightarrow>
    gstep retryCount standbyExists s (s\<lparr>g_stateChan := q, g_mains := MStream # g_mains s\<rparr>)"
| disp_failover: "g_dispatcher s = DWait \<Longrightarrow> g_stateChan s = GRPC_STATE_FAILOVER # q \<Longrightarrow>
    gstep retryCount standbyExists s (s\<lparr>g_stateChan := q, g_cancelled := insert (g_session s) (g_cancelled s),
      g_session := g_session s + 1, g_standbyActive := True, g_failovers := FCheck 0 # g_failovers s,
      g_dispatcher := DSend GRPC_STATE_TRY_FALLBACK\<rparr>)"
| disp_fallback: "g_dispatcher s = DWait \<Longrightarrow> g_stateChan s = GRPC_STATE_TRY_FALLBACK # q \<Longrightarrow>
    gstep retryCount standbyExists s (s\<lparr>g_stateChan := q, g_fallbacks := BStart (g_session s) # g_fallbacks s,
      g_dispatcher := DSend GRPC_STATE_RESTART_MAIN\<rparr>)"
| disp_restart: "g_dispatcher s = DWait \<Longrightarrow> g_stateChan s = GRPC_STATE_RESTART_MAIN # q \<Longrightarrow>
    gstep retryCount standbyExists s (s\<lparr>g_stateChan := q, g_restarts := RSleep (g_session s) # g_restarts s\<rparr>)"
| disp_send: "g_dispatcher s = DSend st \<Longrightarrow> g_stateChan s = [] \<Longrightarrow>
    gstep retryCount standbyExists s (s\<lparr>g_stateChan := [st], g_dispatcher := DWait\<rparr>)"
| disp_send_done: "g_dispatcher s = DSend st \<Longrightarrow> g_rootDone s \<Longrightarrow>
    gstep retryCount standbyExists s (s\<lparr>g_dispatcher := DWait\<rparr>)"
| receives: "MStream \<in> set (g_mains s) \<Longrightarrow>
    gstep retryCount standbyExists s (s\<lparr>g_received := g_received s + 1\<rparr>)"
| main_ends: "g_mains s = xs @ MStream # ys \<Longrightarrow> main_ended retryCount standbyExists short s = (n, pc) \<Longrightarrow>
    gstep retryCount standbyExists s (s\<lparr>g_mains := xs @ pc # ys, g_mainRetryCount := n\<rparr>)"
| main_backoff: "g_mains s = xs @ MBackoff # ys \<Longrightarrow>
    gstep retryCount standbyExists s (s\<lparr>g_mains := xs @ MSend GRPC_STATE_MAIN # ys\<rparr>)"
| main_backoff_done: "g_mains s = xs @ MBackoff # ys \<Longrightarrow> g_rootDone s \<Longrightarrow>
    gstep retryCount standbyExists s (s\<lparr>g_mains := xs @ ys\<rparr>)"
| main_send: "g_mains s = xs @ MSend st # ys \<Longrightarrow> g_stateChan s = [] \<Longrightarrow>
    gstep retryCount standbyExists s (s\<lparr>g_mains := xs @ ys, g_stateChan := [st]\<rparr>)"
| main_send_done: "g_mains s = xs @ MSend st # ys \<Longrightarrow> g_rootDone s \<Longrightarrow>
    gstep retryCount standbyExists s (s\<lparr>g_mains := xs @ ys\<rparr>)"
| standby_starts: "g_failovers s = xs @ FCheck n # ys \<Longrightarrow> \<not> session_done s (g_session s) \<Longrightarrow>
    gstep retryCount standbyExists s (s\<lparr>g_failovers := xs @ FStream n # ys\<rparr>)"
| standby_ends: "g_failovers s = xs @ FStream n # ys \<Longrightarrow> standby_ended retryCount short n s = Some pc \<Longrightarrow>
    gstep retryCount standbyExists s (s\<lparr>g_failovers := xs @ pc # ys\<rparr>)"
| standby_pause: "g_failovers s = xs @ pc # ys \<Longrightarrow> pc = FBackoff n \<or> pc = FSleep \<and> n = 0 \<Longrightarrow>
    gstep retryCount standbyExists s (s\<lparr>g_failovers := xs @ FCheck n # ys\<rparr>)"
| standby_exits: "g_failovers s = xs @ pc # ys \<Longrightarrow> session_done s (g_session s) \<Longrightarrow>
    gstep retryCount standbyExists s (s\<lparr>g_failovers := xs @ ys, g_standbyActive := False\<rparr>)"
| fallback_starts: "g_fallbacks s = xs @ BStart n # ys \<Longrightarrow>
    gstep retryCount standbyExists s (s\<lparr>g_fallbacks := xs @ BWait n (g_received s) # ys\<rparr>)"
| fallback_wakes: "g_fallbacks s = xs @ BWait n k # ys \<Longrightarrow> k < g_received s \<Longrightarrow>
    gstep retryCount standbyExists s (s\<lparr>g_fallbacks := xs @ BCancel n # ys\<rparr>)"
| fallback_cancels: "g_fallbacks s = xs @ BCancel n # ys \<Longrightarrow>
    gstep retryCount standbyExists s (s\<lparr>g_fallbacks := xs @ ys, g_cancelled := insert n (g_cancelled s)\<rparr>)"
| fallback_exits: "g_fallbacks s = xs @ BWait n k # ys \<Longrightarrow> session_done s n \<Longrightarrow>
    gstep retryCount standbyExists s (s\<lparr>g_fallbacks := xs @ ys\<rparr>)"
| restart_wakes: "g_restarts s = xs @ RSleep n # ys \<Longrightarrow>
    gstep retryCount standbyExists s (s\<lparr>g_restarts := xs @ RSendMain # ys\<rparr>)"
| restart_exits: "g_restarts s = xs @ RSleep n # ys \<Longrightarrow> session_done s n \<Longrightarrow>
    gstep retryCount standbyExists s (s\<lparr>g_restarts := xs @ ys\<rparr>)"
| restart_sends: "g_restarts s = xs @ RSendMain # ys \<Longrightarrow> g_stateChan s = [] \<Longrightarrow>
    gstep retryCount standbyExists s (s\<lparr>g_restarts := xs @ ys, g_stateChan := [GRPC_STATE_MAIN]\<rparr>)"
| restart_sends_done: "g_restarts s = xs @ RSendMain # ys \<Longrightarrow> g_rootDone s \<Longrightarrow>
    gstep retryCount standbyExists s (s\<lparr>g_restarts := xs @ ys\<rparr>)"

inductive_cases gstepE: "gstep retryCount standbyExists s t"

section \<open>The token\<close>

text \<open>Whoever may bring the main stream up again holds a token: a state on its way to the
  dispatcher, a main or a restart goroutine, or \<open>GRPCMain\<close> before its first send.\<close>

definition moves :: "GRPC_CLIENT_STATE \<Rightarrow> bool" where
  "moves st \<longleftrightarrow> st \<noteq> GRPC_STATE_STOP"

definition tokens :: "grpcStreamer \<Rightarrow> nat" where
  "tokens s =
     length (filter moves (g_stateChan s)) +
     (case g_dispatcher s of DSend st \<Rightarrow> if moves st then 1 else 0 | _ \<Rightarrow> 0) +
     length (g_mains s) + length (g_restarts s) + (if g_grpcMain s = GStart then 1 else 0)"

text \<open>A stopping main goroutine is only there when the root context is done.\<close>

definition token_inv :: "grpcStreamer \<Rightarrow> bool" where
  "token_inv s \<longleftrightarrow> tokens s \<le> 1 \<and>
     (\<not> g_rootDone s \<longrightarrow> GRPC_STATE_STOP \<notin> set (g_stateChan s) \<and> MSend GRPC_STATE_STOP \<notin> set (g_mains s) \<and>
        g_grpcMain s \<noteq> GSendStop \<and> g_grpcMain s \<noteq> GDrain) \<and>
     (\<forall>st. g_dispatcher s = DSend st \<longrightarrow> moves st)"

lemma moves_simps [simp]:
  "\<not> moves GRPC_STATE_STOP" "moves GRPC_STATE_MAIN" "moves GRPC_STATE_FAILOVER"
  "moves GRPC_STATE_TRY_FALLBACK" "moves GRPC_STATE_RESTART_MAIN"
  by (simp_all add: moves_def)

lemma main_ended_stop:
  "main_ended rc sb short s = (n, MSend GRPC_STATE_STOP) \<Longrightarrow> g_rootDone s"
  by (auto simp: main_ended_def Let_def split: if_splits)

lemma token_inv_step:
  assumes inv: "token_inv s" and "gstep rc sb s t"
  shows "token_inv t"
  using assms(2)
proof (cases rule: gstep.cases)
  case (main_ends xs ys short n pc)
  then show ?thesis
    using inv main_ended_stop [of rc sb short s n] by (auto simp: token_inv_def tokens_def)
qed (use inv in \<open>auto simp: token_inv_def tokens_def split: if_splits dispatcher.splits\<close>)

interpretation token: step_invariant "\<lambda>s. s = newGRPCStreamer" "gstep rc sb" token_inv
  for rc sb
proof
  show "token_inv s" if "s = newGRPCStreamer" for s
    using that by (simp add: token_inv_def tokens_def newGRPCStreamer_def)
qed (rule token_inv_step)

section \<open>The standby goroutine\<close>

definition standby_inv :: "bool \<Rightarrow> grpcStreamer \<Rightarrow> bool" where
  "standby_inv sb s \<longleftrightarrow> token_inv s \<and>
     length (g_failovers s) = (if g_standbyActive s then 1 else 0) \<and>
     (GRPC_STATE_FAILOVER \<in> set (g_stateChan s) \<or> MSend GRPC_STATE_FAILOVER \<in> set (g_mains s) \<longrightarrow>
        \<not> g_standbyActive s \<and> sb) \<and>
     g_dispatcher s \<noteq> DSend GRPC_STATE_FAILOVER"

lemma main_ended_failover:
  "main_ended rc sb short s = (n, MSend GRPC_STATE_FAILOVER) \<Longrightarrow> sb \<and> \<not> g_standbyActive s"
  by (auto simp: main_ended_def Let_def split: if_splits)

lemma one_token_alone:
  "token_inv s \<Longrightarrow> g_stateChan s = st # q \<Longrightarrow> moves st \<Longrightarrow> g_mains s = [] \<and> g_restarts s = [] \<and> filter moves q = []"
  by (auto simp: token_inv_def tokens_def)

lemma standby_inv_step:
  assumes inv: "standby_inv sb s" and step: "gstep rc sb s t"
  shows "standby_inv sb t"
proof -
  have tok: "token_inv t"
    using inv token_inv_step [OF _ step] by (simp add: standby_inv_def)
  from step show ?thesis
  proof (cases rule: gstep.cases)
    case (main_ends xs ys short n pc)
    then show ?thesis
      using inv tok main_ended_failover [of rc sb short s n] by (auto simp: standby_inv_def)
  next
    case (disp_failover q)
    have "g_mains s = []" "filter moves q = []"
      using one_token_alone [of s] disp_failover inv by (auto simp: standby_inv_def)
    then have "MSend GRPC_STATE_FAILOVER \<notin> set (g_mains s)" "GRPC_STATE_FAILOVER \<notin> set q"
      by (auto simp: filter_empty_conv)
    then show ?thesis
      using inv tok disp_failover by (auto simp: standby_inv_def)
  next
    case (standby_exits xs pc ys)
    then show ?thesis
      using inv tok by (auto simp: standby_inv_def split: if_splits)
  qed (use inv tok in \<open>auto simp: standby_inv_def split: if_splits\<close>)
qed

interpretation standby: step_invariant "\<lambda>s. s = newGRPCStreamer" "gstep rc sb" "standby_inv sb"
  for rc sb
proof
  show "standby_inv sb s" if "s = newGRPCStreamer" for s
    using that by (simp add: standby_inv_def token_inv_def tokens_def newGRPCStreamer_def)
qed (rule standby_inv_step)

section \<open>Without a standby server\<close>

definition no_standby_inv :: "grpcStreamer \<Rightarrow> bool" where
  "no_standby_inv s \<longleftrightarrow> standby_inv False s \<and>
     (\<not> g_rootDone s \<longrightarrow> tokens s = 1 \<and> g_cancelled s = {} \<and> g_fallbacks s = [] \<and> g_dispatcher s = DWait \<and>
        GRPC_STATE_TRY_FALLBACK \<notin> set (g_stateChan s) \<and> MSend GRPC_STATE_TRY_FALLBACK \<notin> set (g_mains s))"

lemma main_ended_not_fallback: "main_ended rc sb short s \<noteq> (n, MSend GRPC_STATE_TRY_FALLBACK)"
  by (auto simp: main_ended_def Let_def split: if_splits)

lemma no_standby_inv_step:
  assumes inv: "no_standby_inv s" and step: "gstep rc False s t"
  shows "no_standby_inv t"
proof -
  have sb: "standby_inv False t"
    using inv standby_inv_step [OF _ step] by (simp add: no_standby_inv_def)
  show ?thesis
  proof (cases "g_rootDone s")
    case True
    have "g_rootDone t"
      using step True by (auto elim: gstep.cases)
    then show ?thesis using sb by (simp add: no_standby_inv_def)
  next
    case False
    then have s: "tokens s = 1" "g_cancelled s = {}" "g_fallbacks s = []" "g_dispatcher s = DWait"
      "GRPC_STATE_TRY_FALLBACK \<notin> set (g_stateChan s)" "MSend GRPC_STATE_TRY_FALLBACK \<notin> set (g_mains s)"
      "GRPC_STATE_FAILOVER \<notin> set (g_stateChan s)" "GRPC_STATE_STOP \<notin> set (g_stateChan s)"
      "MSend GRPC_STATE_STOP \<notin> set (g_mains s)" "g_grpcMain s \<noteq> GSendStop"
      using inv by (auto simp: no_standby_inv_def standby_inv_def token_inv_def)
    from step show ?thesis
    proof (cases rule: gstep.cases)
      case (main_ends xs ys short n pc)
      then show ?thesis
        using sb s False main_ended_not_fallback [of rc False short s n]
        by (auto simp: no_standby_inv_def tokens_def)
    next
      case (main_send xs st ys)
      then have "moves st" "st \<noteq> GRPC_STATE_TRY_FALLBACK"
        using s by (auto simp: moves_def)
      then show ?thesis
        using sb s False main_send by (auto simp: no_standby_inv_def tokens_def)
    qed (use sb s False in \<open>auto simp: no_standby_inv_def tokens_def session_done_def\<close>)
  qed
qed

interpretation no_standby: step_invariant "\<lambda>s. s = newGRPCStreamer" "gstep rc False" no_standby_inv
  for rc
proof
  show "no_standby_inv s" if "s = newGRPCStreamer" for s
    using that by (simp add: no_standby_inv_def standby_inv_def token_inv_def tokens_def newGRPCStreamer_def)
qed (rule no_standby_inv_step)

section \<open>The lost token\<close>

definition dead :: "grpcStreamer \<Rightarrow> bool" where
  "dead s \<longleftrightarrow> tokens s = 0 \<and> g_failovers s = [] \<and> (\<forall>st. g_dispatcher s \<noteq> DSend st)"

lemma tokens_0:
  "tokens s = 0 \<Longrightarrow> g_mains s = [] \<and> g_restarts s = [] \<and> filter moves (g_stateChan s) = [] \<and> g_grpcMain s \<noteq> GStart"
  by (auto simp: tokens_def split: if_splits)

lemma dead_step:
  assumes "dead s" "gstep rc sb s t"
  shows "dead t"
proof -
  have s: "g_mains s = []" "g_restarts s = []" "filter moves (g_stateChan s) = []" "g_grpcMain s \<noteq> GStart"
    "g_failovers s = []" "\<forall>st. g_dispatcher s \<noteq> DSend st"
    using assms(1) tokens_0 by (auto simp: dead_def)
  from assms(2) show ?thesis
    by (cases rule: gstep.cases) (use s in \<open>auto simp: dead_def tokens_def split: dispatcher.splits\<close>)
qed

interpretation lost: step_invariant dead "gstep rc sb" dead
  for rc sb
  by unfold_locales (auto intro: dead_step)

lemmas grun = converse_rtranclp_into_rtranclp

section \<open>Runs\<close>

text \<open>The main stream fails, the standby takes over, the main stream is started again, receives a
  message and fails at once, before the fallback goroutine has cancelled the session.\<close>

lemma run_to_failover:
  "\<exists>s. (gstep 1 True)\<^sup>*\<^sup>* newGRPCStreamer s \<and> s = newGRPCStreamer
     \<lparr>g_grpcMain := GWait, g_failovers := [FCheck 0], g_standbyActive := True, g_session := 1, g_cancelled := {0},
      g_fallbacks := [BStart 1], g_restarts := [RSleep 1]\<rparr>"
  apply (rule exI)
  apply (rule conjI)
   apply (rule grun, rule start, simp add: newGRPCStreamer_def, simp add: newGRPCStreamer_def)
   apply (rule grun, rule disp_main, simp add: newGRPCStreamer_def, simp)
   apply (rule grun, rule main_ends [where xs = "[]" and ys = "[]" and short = True],
      simp add: newGRPCStreamer_def, simp add: main_ended_def newGRPCStreamer_def)
   apply (rule grun, rule main_send [where xs = "[]" and ys = "[]"], simp, simp)
   apply (rule grun, rule disp_failover, simp add: newGRPCStreamer_def, simp)
   apply (rule grun, rule disp_send, simp, simp)
   apply (rule grun, rule disp_fallback, simp, simp)
   apply (rule grun, rule disp_send, simp, simp)
   apply (rule grun, rule disp_restart, simp, simp)
   apply (rule rtranclp.rtrancl_refl)
  apply (simp add: newGRPCStreamer_def)
  done

lemma run_to_dead:
  "\<exists>s. (gstep 1 True)\<^sup>*\<^sup>* newGRPCStreamer s \<and> dead s \<and> \<not> g_rootDone s"
proof -
  let ?s = "newGRPCStreamer\<lparr>g_grpcMain := GWait, g_failovers := [FCheck 0], g_standbyActive := True, g_session := 1,
      g_cancelled := {0}, g_fallbacks := [BStart 1], g_restarts := [RSleep 1]\<rparr>"
  have "\<exists>t. (gstep 1 True)\<^sup>*\<^sup>* ?s t \<and> dead t \<and> \<not> g_rootDone t"
    apply (rule exI)
    apply (rule conjI)
     apply (rule grun, rule fallback_starts [where xs = "[]" and ys = "[]" and n = 1], simp)
     apply (rule grun, rule restart_wakes [where xs = "[]" and ys = "[]"], simp)
     apply (rule grun, rule restart_sends [where xs = "[]" and ys = "[]"], simp, simp add: newGRPCStreamer_def)
     apply (rule grun, rule disp_main, simp add: newGRPCStreamer_def, simp)
     apply (rule grun, rule receives, simp)
     apply (rule grun, rule fallback_wakes [where xs = "[]" and ys = "[]" and n = 1], simp, simp)
     apply (rule grun, rule main_ends [where xs = "[]" and ys = "[]" and short = True],
        simp add: newGRPCStreamer_def, simp add: main_ended_def newGRPCStreamer_def)
     apply (rule grun, rule main_send [where xs = "[]" and ys = "[]"], simp, simp)
     apply (rule grun, rule disp_restart, simp add: newGRPCStreamer_def, simp)
     apply (rule grun, rule fallback_cancels [where xs = "[]" and ys = "[]" and n = 1], simp)
     apply (rule grun, rule restart_exits [where xs = "[]" and ys = "[]"], simp add: newGRPCStreamer_def,
        simp add: session_done_def)
     apply (rule grun, rule standby_exits [where xs = "[]" and ys = "[]"], simp, simp add: session_done_def)
     apply (rule rtranclp.rtrancl_refl)
    apply (simp add: dead_def tokens_def newGRPCStreamer_def)
    done
  then show ?thesis
    using run_to_failover by (metis rtranclp_trans)
qed

section \<open>Properties\<close>

text \<open>
  In every reachable state there is at most one main stream goroutine and at most one goroutine
  waiting to restart it, never both, and exactly one standby goroutine while the standby is active
  and none otherwise. While the client is not being stopped, a goroutine that is about to send a
  state finds the channel empty, so no send blocks and the dispatcher never waits for itself.
\<close>

theorem one_stream_each:
  assumes "(gstep retryCount standbyExists)\<^sup>*\<^sup>* newGRPCStreamer s"
  shows "length (g_mains s) + length (g_restarts s) \<le> 1 \<and>
    length (g_failovers s) = (if g_standbyActive s then 1 else 0) \<and>
    (\<not> g_rootDone s \<longrightarrow>
       (\<exists>st. MSend st \<in> set (g_mains s) \<or> g_dispatcher s = DSend st) \<or> RSendMain \<in> set (g_restarts s) \<or>
         g_grpcMain s = GStart \<longrightarrow> g_stateChan s = [])"
proof -
  have inv: "standby_inv standbyExists s" and tok: "token_inv s"
    using standby.inv_reachable [OF refl assms] by (auto simp: standby_inv_def)
  have chan: "g_stateChan s = []"
    if "\<not> g_rootDone s" and busy: "(\<exists>st. MSend st \<in> set (g_mains s) \<or> g_dispatcher s = DSend st) \<or>
      RSendMain \<in> set (g_restarts s) \<or> g_grpcMain s = GStart"
  proof (rule ccontr)
    assume "g_stateChan s \<noteq> []"
    then obtain st q where q: "g_stateChan s = st # q" by (cases "g_stateChan s") auto
    then have "moves st"
      using tok that(1) by (auto simp: token_inv_def moves_def)
    then show False
      using tok busy q by (auto simp: token_inv_def tokens_def in_set_conv_decomp split: if_splits)
  qed
  have "length (g_mains s) + length (g_restarts s) \<le> 1"
    using tok by (simp add: token_inv_def tokens_def)
  moreover have "length (g_failovers s) = (if g_standbyActive s then 1 else 0)"
    using inv by (simp add: standby_inv_def)
  ultimately show ?thesis
    using chan by blast
qed

theorem one_stream_each_witness:
  "\<exists>s. (gstep 1 True)\<^sup>*\<^sup>* newGRPCStreamer s \<and> g_standbyActive s \<and> length (g_failovers s) = 1"
proof -
  obtain s where s: "(gstep 1 True)\<^sup>*\<^sup>* newGRPCStreamer s" "g_standbyActive s"
    using run_to_failover by fastforce
  then show ?thesis
    using one_stream_each [OF s(1)] by auto
qed

text \<open>
  C16: Without a standby server the client never gives up: in every reachable state in which it is
  not being stopped, exactly one of these is there: a state for the dispatcher, a main stream
  goroutine, a goroutine that will restart it, or the first start.
\<close>

theorem main_never_given_up:
  assumes "(gstep retryCount False)\<^sup>*\<^sup>* newGRPCStreamer s" "\<not> g_rootDone s"
  shows "length (g_stateChan s) + length (g_mains s) + length (g_restarts s)
    + (if g_grpcMain s = GStart then 1 else 0) = 1 \<and> g_dispatcher s = DWait"
proof -
  have "no_standby_inv s"
    using no_standby.inv_reachable [OF refl assms(1)] .
  then have "tokens s = 1" "g_dispatcher s = DWait" "GRPC_STATE_STOP \<notin> set (g_stateChan s)"
    using assms(2) by (auto simp: no_standby_inv_def standby_inv_def token_inv_def)
  moreover from this(3) have "filter moves (g_stateChan s) = g_stateChan s"
    by (auto simp: filter_id_conv moves_def)
  ultimately show ?thesis
    by (simp add: tokens_def)
qed

theorem main_never_given_up_witness:
  "\<exists>s. (gstep 3 False)\<^sup>*\<^sup>* newGRPCStreamer s \<and> length (g_mains s) = 1"
proof -
  have "\<exists>s. (gstep 3 False)\<^sup>*\<^sup>* newGRPCStreamer s \<and> \<not> g_rootDone s \<and> g_stateChan s = [] \<and> g_restarts s = [] \<and>
      g_grpcMain s = GWait"
    apply (rule exI)
    apply (rule conjI)
     apply (rule grun, rule start, simp add: newGRPCStreamer_def, simp add: newGRPCStreamer_def)
     apply (rule grun, rule disp_main, simp add: newGRPCStreamer_def, simp)
     apply (rule rtranclp.rtrancl_refl)
    apply (simp add: newGRPCStreamer_def)
    done
  then obtain s where "(gstep 3 False)\<^sup>*\<^sup>* newGRPCStreamer s" "\<not> g_rootDone s" "g_stateChan s = []"
    "g_restarts s = []" "g_grpcMain s = GWait" by blast
  then show ?thesis
    using main_never_given_up [of 3 s] by auto
qed

text \<open>
  C33: With a standby server the client can give up for good: with a retry count of one there is a
  run, without a stop, to a state from which no main and no standby stream is ever started again.
  The main stream recovers and fails again before the fallback goroutine has cancelled the session
  of the standby; the restart of the main stream is then bound to that session and dies with it.
\<close>

theorem failover_can_give_up:
  "\<exists>s. (gstep 1 True)\<^sup>*\<^sup>* newGRPCStreamer s \<and> \<not> g_rootDone s \<and>
     (\<forall>t. (gstep 1 True)\<^sup>*\<^sup>* s t \<longrightarrow> g_mains t = [] \<and> g_restarts t = [] \<and> g_failovers t = [])"
proof -
  obtain s where s: "(gstep 1 True)\<^sup>*\<^sup>* newGRPCStreamer s" "dead s" "\<not> g_rootDone s"
    using run_to_dead by blast
  have "g_mains t = [] \<and> g_restarts t = [] \<and> g_failovers t = []" if "(gstep 1 True)\<^sup>*\<^sup>* s t" for t
    using lost.inv_reachable [OF s(2) that] tokens_0 [of t] by (simp add: dead_def)
  then show ?thesis using s by blast
qed

theorem failover_can_give_up_witness:
  "\<exists>s. (gstep 1 True)\<^sup>*\<^sup>* newGRPCStreamer s \<and> \<not> g_rootDone s \<and> g_mains s = [] \<and> g_failovers s = []"
  using failover_can_give_up by blast

end
