(* ===== verification/Grpc_Main.thy ===== *)
theory Grpc_Main
  imports Grpc_Streamer
begin

text \<open>
  The end of a client in gRPC mode: after \<open>Stop\<close> the dispatcher, the stream, failover, fallback and
  restart goroutines of \<open>grpc_streamer.go\<close> end, so the wait group of \<open>GRPCMain\<close> is released. A stream
  whose context is done ends (\<open>Sds_Stream\<close>), so it receives only finitely many messages after the stop;
  the steps considered here are those that receive none.
\<close>

definition quiet_step :: "int \<Rightarrow> bool \<Rightarrow> grpcStreamer \<Rightarrow> grpcStreamer \<Rightarrow> bool" where
  "quiet_step rc sb s t \<longleftrightarrow> gstep rc sb s t \<and> g_received t = g_received s \<and> t \<noteq> s"

definition grpc_ended :: "grpcStreamer \<Rightarrow> bool" where
  "grpc_ended s \<longleftrightarrow> g_grpcMain s = GDrain \<and> g_dispatcher s = DExit \<and> g_mains s = [] \<and> g_failovers s = [] \<and>
     g_fallbacks s = [] \<and> g_restarts s = []"

section \<open>Weights\<close>

text \<open>What is left to do after the stop: a state on its way is heavier than all that the dispatcher
  starts for it.\<close>

fun state_weight :: "GRPC_CLIENT_STATE \<Rightarrow> nat" where
  "state_weight GRPC_STATE_STOP = 1"
| "state_weight GRPC_STATE_MAIN = 4"
| "state_weight GRPC_STATE_RESTART_MAIN = 7"
| "state_weight GRPC_STATE_TRY_FALLBACK = 12"
| "state_weight GRPC_STATE_FAILOVER = 15"

fun main_weight :: "main_pc \<Rightarrow> nat" where
  "main_weight MStream = 3"
| "main_weight MBackoff = 6"
| "main_weight (MSend st) = state_weight st + 1"

fun failover_weight :: "failover_pc \<Rightarrow> nat" where
  "failover_weight (FCheck n) = 1"
| "failover_weight (FBackoff n) = 2"
| "failover_weight FSleep = 2"
| "failover_weight (FStream n) = 3"

fun fallback_weight :: "fallback_pc \<Rightarrow> nat" where
  "fallback_weight (BStart n) = 3"
| "fallback_weight (BWait n k) = 2"
| "fallback_weight (BCancel n) = 1"

fun restart_weight :: "restart_pc \<Rightarrow> nat" where
  "restart_weight (RSleep n) = 6"
| "restart_weight RSendMain = 5"

fun dispatcher_weight :: "dispatcher \<Rightarrow> nat" where
  "dispatcher_weight DWait = 1"
| "dispatcher_weight (DSend st) = state_weight st + 2"
| "dispatcher_weight DExit = 0"

fun grpcmain_weight :: "grpcmain_pc \<Rightarrow> nat" where
  "grpcmain_weight GStart = 8"
| "grpcmain_weight GWait = 3"
| "grpcmain_weight GSendStop = 2"
| "grpcmain_weight GDrain = 0"

definition weight :: "grpcStreamer \<Rightarrow> nat" where
  "weight s = sum_list (map state_weight (g_stateChan s)) + dispatcher_weight (g_dispatcher s) +
     sum_list (map main_weight (g_mains s)) + sum_list (map failover_weight (g_failovers s)) +
     sum_list (map fallback_weight (g_fallbacks s)) + sum_list (map restart_weight (g_restarts s)) +
     grpcmain_weight (g_grpcMain s)"

lemma failover_weight_pos [simp]: "0 < failover_weight pc"
  by (cases pc) auto

lemma quiet_goes_down:
  assumes "quiet_step rc sb s t" "g_rootDone s"
  shows "weight t < weight s"
proof -
  have g: "gstep rc sb s t" "g_received t = g_received s" "t \<noteq> s"
    using assms(1) by (simp_all add: quiet_step_def)
  from g(1) show ?thesis
  proof cases
    case stop
    then show ?thesis using g(3) assms(2) by simp
  next
    case (main_ends xs ys short n pc)
    then show ?thesis using assms(2) by (auto simp: weight_def main_ended_def)
  next
    case (standby_ends xs n ys short pc)
    then show ?thesis using assms(2) by (auto simp: standby_ended_def session_done_def)
  next
    case (standby_starts xs n ys)
    then show ?thesis using assms(2) by (simp add: session_done_def)
  next
    case (standby_exits xs pc ys)
    then show ?thesis by (simp add: weight_def)
  qed (use g(2) in \<open>auto simp: weight_def\<close>)
qed

section \<open>Progress\<close>

lemma mains_progress:
  assumes "g_mains s \<noteq> []" "g_rootDone s"
  shows "\<exists>t. quiet_step rc sb s t"
proof -
  obtain pc ys where m: "g_mains s = [] @ pc # ys" using assms(1) by (cases "g_mains s") auto
  show ?thesis
  proof (cases pc)
    case MStream
    obtain n pc' where e: "main_ended rc sb True s = (n, pc')" by fastforce
    then have "pc' = MSend GRPC_STATE_STOP" using assms(2) by (simp add: main_ended_def)
    then show ?thesis
      using main_ends [of s "[]" ys rc sb True n pc'] m MStream e
      by (intro exI [of _ "s\<lparr>g_mains := [] @ pc' # ys, g_mainRetryCount := n\<rparr>"]) (auto simp: quiet_step_def dest: arg_cong [of _ _ g_mains])
  next
    case MBackoff
    then show ?thesis
      using main_backoff_done [of s "[]" ys rc sb] m assms(2)
      by (intro exI [of _ "s\<lparr>g_mains := [] @ ys\<rparr>"]) (auto simp: quiet_step_def dest: arg_cong [of _ _ g_mains])
  next
    case (MSend st)
    then show ?thesis
      using main_send_done [of s "[]" st ys rc sb] m assms(2)
      by (intro exI [of _ "s\<lparr>g_mains := [] @ ys\<rparr>"]) (auto simp: quiet_step_def dest: arg_cong [of _ _ g_mains])
  qed
qed

lemma failovers_progress:
  assumes "g_failovers s \<noteq> []" "g_rootDone s"
  shows "\<exists>t. quiet_step rc sb s t"
proof -
  obtain pc ys where m: "g_failovers s = [] @ pc # ys" using assms(1) by (cases "g_failovers s") auto
  then show ?thesis
    using standby_exits [of s "[]" pc ys rc sb] assms(2)
    by (intro exI [of _ "s\<lparr>g_failovers := [] @ ys, g_standbyActive := False\<rparr>"])
      (auto simp: quiet_step_def session_done_def dest: arg_cong [of _ _ g_failovers])
qed

lemma fallbacks_progress:
  assumes "g_fallbacks s \<noteq> []" "g_rootDone s"
  shows "\<exists>t. quiet_step rc sb s t"
proof -
  obtain pc ys where m: "g_fallbacks s = [] @ pc # ys" using assms(1) by (cases "g_fallbacks s") auto
  show ?thesis
  proof (cases pc)
    case (BStart n)
    then show ?thesis
      using fallback_starts [of s "[]" n ys rc sb] m
      by (intro exI [of _ "s\<lparr>g_fallbacks := [] @ BWait n (g_received s) # ys\<rparr>"])
        (auto simp: quiet_step_def dest: arg_cong [of _ _ g_fallbacks])
  next
    case (BWait n k)
    then show ?thesis
      using fallback_exits [of s "[]" n k ys rc sb] m assms(2)
      by (intro exI [of _ "s\<lparr>g_fallbacks := [] @ ys\<rparr>"])
        (auto simp: quiet_step_def session_done_def dest: arg_cong [of _ _ g_fallbacks])
  next
    case (BCancel n)
    then show ?thesis
      using fallback_cancels [of s "[]" n ys rc sb] m
      by (intro exI [of _ "s\<lparr>g_fallbacks := [] @ ys, g_cancelled := insert n (g_cancelled s)\<rparr>"])
        (auto simp: quiet_step_def dest: arg_cong [of _ _ g_fallbacks])
  qed
qed

lemma restarts_progress:
  assumes "g_restarts s \<noteq> []" "g_rootDone s"
  shows "\<exists>t. quiet_step rc sb s t"
proof -
  obtain pc ys where m: "g_restarts s = [] @ pc # ys" using assms(1) by (cases "g_restarts s") auto
  have "gstep rc sb s (s\<lparr>g_restarts := [] @ ys\<rparr>)"
    using restart_exits [of s "[]" _ ys rc sb] restart_sends_done [of s "[]" ys rc sb] m assms(2)
    by (cases pc) (auto simp: session_done_def)
  then show ?thesis
    using m by (intro exI [of _ "s\<lparr>g_restarts := [] @ ys\<rparr>"]) (auto simp: quiet_step_def dest: arg_cong [of _ _ g_restarts])
qed

lemma dispatcher_progress:
  assumes "g_dispatcher s \<noteq> DExit" "g_rootDone s"
  shows "\<exists>t. quiet_step rc sb s t"
proof (cases "g_dispatcher s")
  case DWait
  then show ?thesis
    using disp_exit [of s rc sb] assms(2)
    by (intro exI [of _ "s\<lparr>g_dispatcher := DExit, g_cancelled := insert (g_session s) (g_cancelled s)\<rparr>"])
      (auto simp: quiet_step_def dest: arg_cong [of _ _ g_dispatcher])
next
  case (DSend st)
  then show ?thesis
    using disp_send_done [of s st rc sb] assms(2)
    by (intro exI [of _ "s\<lparr>g_dispatcher := DWait\<rparr>"]) (auto simp: quiet_step_def dest: arg_cong [of _ _ g_dispatcher])
qed (use assms in simp)

lemma grpcMain_progress:
  assumes "g_grpcMain s \<noteq> GDrain" "g_rootDone s"
  shows "\<exists>t. quiet_step rc sb s t"
proof -
  obtain pc where "gstep rc sb s (s\<lparr>g_grpcMain := pc\<rparr>)" "pc \<noteq> g_grpcMain s"
    using assms start_done [of s rc sb] root_done [of s rc sb] send_stop_done [of s rc sb]
    by (cases "g_grpcMain s") auto
  then show ?thesis
    by (intro exI [of _ "s\<lparr>g_grpcMain := pc\<rparr>"]) (auto simp: quiet_step_def dest: arg_cong [of _ _ g_grpcMain])
qed

interpretation grpc_end: teardown "quiet_step rc sb" g_rootDone grpc_ended "measure weight"
proof
  show "g_rootDone t" if "g_rootDone s" "quiet_step rc sb s t" for s t
    using that by (auto simp: quiet_step_def elim: gstep.cases)
  show "\<exists>t. quiet_step rc sb s t" if "g_rootDone s" "\<not> grpc_ended s" for s
    using that grpcMain_progress dispatcher_progress mains_progress failovers_progress fallbacks_progress restarts_progress
    unfolding grpc_ended_def by blast
qed (auto intro: quiet_goes_down)

section \<open>Properties\<close>

text \<open>
  C21: \<open>GRPCMain\<close> returns: after \<open>Stop\<close>, at whatever point of the failover and in whatever order the
  goroutines are scheduled, there is no endless run in which the streams receive nothing more, and
  when nothing more can happen the dispatcher and every goroutine it started have ended, so the wait
  at the end of \<open>GRPCMain\<close> is over.
\<close>

theorem grpc_main_returns:
  assumes "g_rootDone s"
  shows "(\<forall>f. f 0 = s \<longrightarrow> \<not> (\<forall>i. quiet_step rc sb (f i) (f (Suc i)))) \<and>
    (\<exists>t. (quiet_step rc sb)\<^sup>*\<^sup>* s t \<and> grpc_ended t) \<and>
    (\<forall>t. (quiet_step rc sb)\<^sup>*\<^sup>* s t \<and> \<not> (\<exists>u. quiet_step rc sb t u) \<longrightarrow> grpc_ended t)"
  using grpc_end.no_endless_run [of _ rc sb] grpc_end.comes_to_end [OF assms] grpc_end.stuck_ended [OF assms] assms by blast

text \<open>A client stopped while it fails over, with a restart of the main stream pending.\<close>

theorem grpc_main_returns_witness:
  "\<exists>t. (quiet_step 3 True)\<^sup>*\<^sup>* (newGRPCStreamer\<lparr>g_grpcMain := GWait, g_failovers := [FStream 1], g_restarts := [RSleep 1],
     g_fallbacks := [BWait 1 0], g_session := 1, g_standbyActive := True, g_rootDone := True\<rparr>) t \<and> grpc_ended t"
  using grpc_main_returns [of "newGRPCStreamer\<lparr>g_grpcMain := GWait, g_failovers := [FStream 1], g_restarts := [RSleep 1],
     g_fallbacks := [BWait 1 0], g_session := 1, g_standbyActive := True, g_rootDone := True\<rparr>" 3 True] by simp

end
