(* ===== verification/K8s_Updater.thy ===== *)
theory K8s_Updater
  imports Client_Daemon
begin

text \<open>
  \<open>exec/tools/tasks/kubernetesCertificateUpdater\<close>: the one-shot command that writes certificates
  into the annotated TLS secrets of a cluster. The Kubernetes client is the parameter \<open>kube\<close> on a
  cluster state of any type, with \<open>retry.RetryOnConflict\<close> of its library. A handler registered
  with the daemon is the task it closes over; the tasks are numbered by the loop that makes them,
  so a number stands for the \<open>sync.Once\<close> of its task. What the daemon does between
  \<open>startCertDXDaemon\<close> and the end of the wait is a sequence of deliveries.
\<close>

section \<open>Data\<close>

definition certDxDomainAnnotation :: string where
  "certDxDomainAnnotation = ''party.para.certdx/domains''"

definition waitDeadline :: duration where
  "waitDeadline = 10 * Minute"

definition SecretTypeTLS :: string where "SecretTypeTLS = ''kubernetes.io/tls''"
definition TLSCertKey :: string where "TLSCertKey = ''tls.crt''"
definition TLSPrivateKeyKey :: string where "TLSPrivateKeyKey = ''tls.key''"

record Secret =
  sc_Namespace :: string
  sc_Name :: string
  sc_Type :: string
  sc_Annotations :: "string \<rightharpoonup> string"
  sc_Data :: "string \<rightharpoonup> bytes"

datatype kube_error = NotFound | Conflict | OtherKube string

datatype k8s_error =
    EmptyCertificateOrKey
  | GetBeforeUpdate kube_error
  | UpdateFailed kube_error

fun IsConflict :: "k8s_error \<Rightarrow> bool" where
  "IsConflict (GetBeforeUpdate e) = (e = Conflict)"
| "IsConflict (UpdateFailed e) = (e = Conflict)"
| "IsConflict EmptyCertificateOrKey = False"

record 's kube =
  kb_List :: "'s \<Rightarrow> string + Secret list"
  kb_Get :: "'s \<Rightarrow> string \<Rightarrow> string \<Rightarrow> kube_error + Secret"
  kb_Update :: "'s \<Rightarrow> Secret \<Rightarrow> 's \<times> kube_error option"
  kb_RetryOnConflict :: "('s \<Rightarrow> 's \<times> k8s_error option) \<Rightarrow> 's \<Rightarrow> 's \<times> k8s_error option"

record k8s_task =
  kt_id :: nat
  kt_secret :: Secret

record 's KubernetesCertificateUpdater =
  ku_wg :: int
  ku_taskErr :: "(Secret \<times> k8s_error) list"
  ku_once :: "nat set"
  ku_certDXDaemon :: "k8s_task CertDXClientDaemon"
  ku_cluster :: 's

definition MakeKubernetesReplaceCertificate ::
    "k8s_task CertDXClientDaemon \<Rightarrow> 's \<Rightarrow> 's KubernetesCertificateUpdater" where
  "MakeKubernetesReplaceCertificate daemon s =
     \<lparr>ku_wg = 0, ku_taskErr = [], ku_once = {}, ku_certDXDaemon = daemon, ku_cluster = s\<rparr>"

section \<open>Selecting the secrets\<close>

definition getAllCertificatesFromKubernetes :: "'s kube \<Rightarrow> 's \<Rightarrow> string + Secret list" where
  "getAllCertificatesFromKubernetes kb s =
     (case kb_List kb s of
        Inl e \<Rightarrow> Inl e
      | Inr items \<Rightarrow>
          Inr (filter (\<lambda>secret. sc_Type secret = SecretTypeTLS \<and>
                 sc_Annotations secret certDxDomainAnnotation \<noteq> None) items))"

fun parse_loop :: "(string \<Rightarrow> string) \<Rightarrow> (string \<Rightarrow> string) \<Rightarrow> string list \<Rightarrow> string set \<Rightarrow> string list \<Rightarrow> string list" where
  "parse_loop lw tw [] seen ret = ret"
| "parse_loop lw tw (domain # parts) seen ret =
     (let d = ToLower lw (TrimSpace tw domain) in
      if d = [] then parse_loop lw tw parts seen ret
      else if d \<in> seen then parse_loop lw tw parts seen ret
      else parse_loop lw tw parts (insert d seen) (ret @ [d]))"

definition parseDomainsAnnotation :: "(string \<Rightarrow> string) \<Rightarrow> (string \<Rightarrow> string) \<Rightarrow> string \<Rightarrow> string list" where
  "parseDomainsAnnotation lw tw domainListStr = parse_loop lw tw (Split1 domainListStr (CHR '','')) {} []"

fun areDomainsAllowed_loop :: "(string \<Rightarrow> string) \<Rightarrow> ClientCertification list \<Rightarrow> string list \<Rightarrow> bool" where
  "areDomainsAllowed_loop lw [] domains = False"
| "areDomainsAllowed_loop lw (item # items) domains =
     (if AllAllowed lw (cf_Domains item) domains then True else areDomainsAllowed_loop lw items domains)"

definition areDomainsAllowed :: "(string \<Rightarrow> string) \<Rightarrow> 'h CertDXClientDaemon \<Rightarrow> string list \<Rightarrow> bool" where
  "areDomainsAllowed lw certdx domains = areDomainsAllowed_loop lw (cl_Certifications (dm_Config certdx)) domains"

text \<open>Indexing the annotations map gives the empty string where the key is missing.\<close>

definition annotated_domains :: "(string \<Rightarrow> string) \<Rightarrow> (string \<Rightarrow> string) \<Rightarrow> Secret \<Rightarrow> string list" where
  "annotated_domains lw tw secret =
     parseDomainsAnnotation lw tw
       (case sc_Annotations secret certDxDomainAnnotation of None \<Rightarrow> [] | Some a \<Rightarrow> a)"

section \<open>Replacing one secret\<close>

text \<open>The closure given to \<open>RetryOnConflict\<close>. A nil \<open>Data\<close> reads as the empty map.\<close>

definition replace_attempt ::
    "'s kube \<Rightarrow> Secret \<Rightarrow> bytes \<Rightarrow> bytes \<Rightarrow> 's \<Rightarrow> 's \<times> k8s_error option" where
  "replace_attempt kb cert fullchain key s =
     (case kb_Get kb s (sc_Namespace cert) (sc_Name cert) of
        Inl NotFound \<Rightarrow> (s, None)
      | Inl e \<Rightarrow> (s, Some (GetBeforeUpdate e))
      | Inr secretToUpdate \<Rightarrow>
          let at = (\<lambda>k. case sc_Data secretToUpdate k of None \<Rightarrow> [] | Some v \<Rightarrow> v) in
          if at TLSCertKey = fullchain \<and> at TLSPrivateKeyKey = key \<and> sc_Type secretToUpdate = SecretTypeTLS
          then (s, None)
          else
            (case kb_Update kb s (secretToUpdate\<lparr>sc_Type := SecretTypeTLS,
                sc_Data := (sc_Data secretToUpdate)(TLSCertKey \<mapsto> fullchain, TLSPrivateKeyKey \<mapsto> key)\<rparr>) of
               (s', Some e) \<Rightarrow> (s', Some (UpdateFailed e))
             | (s', None) \<Rightarrow> (s', None)))"

definition replaceCertificateInKubernetes ::
    "'s kube \<Rightarrow> Secret \<Rightarrow> bytes \<Rightarrow> bytes \<Rightarrow> 's \<Rightarrow> 's \<times> k8s_error option" where
  "replaceCertificateInKubernetes kb cert fullchain key s =
     (if fullchain = [] \<or> key = [] then (s, Some EmptyCertificateOrKey)
      else kb_RetryOnConflict kb (replace_attempt kb cert fullchain key) s)"

section \<open>Registration, deliveries and the wait\<close>

definition register_one :: "(string \<Rightarrow> string) \<Rightarrow> string list \<Rightarrow> k8s_task \<Rightarrow>
    's KubernetesCertificateUpdater \<Rightarrow> 's KubernetesCertificateUpdater" where
  "register_one lw domains t r =
     r\<lparr>ku_wg := ku_wg r + 1,
       ku_certDXDaemon := AddCertToWatchOpt lw
         (sc_Namespace (kt_secret t) @ ''/'' @ sc_Name (kt_secret t)) domains
         [WithCertificateHandlerOption t] (ku_certDXDaemon r)\<rparr>"

fun register_loop :: "(string \<Rightarrow> string) \<Rightarrow> (string \<Rightarrow> string) \<Rightarrow> nat \<Rightarrow> Secret list \<Rightarrow> nat \<Rightarrow>
    's KubernetesCertificateUpdater \<Rightarrow> 's KubernetesCertificateUpdater \<times> nat" where
  "register_loop lw tw i [] registered r = (r, registered)"
| "register_loop lw tw i (secret # certs) registered r =
     (let domains = annotated_domains lw tw secret in
      if domains = [] then register_loop lw tw (i + 1) certs registered r
      else if \<not> areDomainsAllowed lw (ku_certDXDaemon r) domains then register_loop lw tw (i + 1) certs registered r
      else register_loop lw tw (i + 1) certs (registered + 1)
             (register_one lw domains \<lparr>kt_id = i, kt_secret = secret\<rparr> r))"

definition registerWatchAndHandlers :: "(string \<Rightarrow> string) \<Rightarrow> (string \<Rightarrow> string) \<Rightarrow> Secret list \<Rightarrow>
    's KubernetesCertificateUpdater \<Rightarrow> 's KubernetesCertificateUpdater \<times> nat" where
  "registerWatchAndHandlers lw tw certs r = register_loop lw tw 0 certs 0 r"

definition k8s_handler :: "'s kube \<Rightarrow> k8s_task handler_call \<Rightarrow>
    's KubernetesCertificateUpdater \<Rightarrow> 's KubernetesCertificateUpdater" where
  "k8s_handler kb call r =
     (let t = hc_handler call in
      if kt_id t \<in> ku_once r then r
      else (case replaceCertificateInKubernetes kb (kt_secret t) (hc_fullchain call) (hc_key call) (ku_cluster r) of
              (s', err) \<Rightarrow>
                r\<lparr>ku_once := insert (kt_id t) (ku_once r), ku_wg := ku_wg r - 1, ku_cluster := s',
                  ku_taskErr := ku_taskErr r @ (case err of None \<Rightarrow> [] | Some e \<Rightarrow> [(kt_secret t, e)])\<rparr>))"

text \<open>The watcher of the bundle \<open>k\<close> takes an update off its channel.\<close>

definition k8s_deliver :: "'s kube \<Rightarrow> 's KubernetesCertificateUpdater \<Rightarrow> Key \<times> certData \<Rightarrow>
    's KubernetesCertificateUpdater" where
  "k8s_deliver kb r ev =
     (case dm_certs (ku_certDXDaemon r) (fst ev) of
        None \<Rightarrow> r
      | Some wc \<Rightarrow>
          (case watch_one (snd ev) wc of
             (wc', calls) \<Rightarrow>
               foldl (\<lambda>r call. k8s_handler kb call r)
                 (r\<lparr>ku_certDXDaemon := (ku_certDXDaemon r)\<lparr>dm_certs :=
                     (dm_certs (ku_certDXDaemon r))(fst ev \<mapsto> wc')\<rparr>\<rparr>) calls))"

datatype k8s_outcome =
    K8sList string
  | NothingToDo
  | StartFailed string
  | K8sTimeout
  | K8sErrors "(Secret \<times> k8s_error) list"
  | AllUpdated

text \<open>\<open>deadline\<close>: the select takes the branch of the timeout. \<open>None\<close>: it blocks.\<close>

definition waitReplaceTask :: "bool \<Rightarrow> 's KubernetesCertificateUpdater \<Rightarrow> k8s_outcome option" where
  "waitReplaceTask deadline r =
     (if deadline then Some K8sTimeout
      else if ku_wg r = 0 then Some (if ku_taskErr r = [] then AllUpdated else K8sErrors (ku_taskErr r))
      else None)"

definition startCertDXDaemon :: "'h CertDXClientDaemon \<Rightarrow> string option" where
  "startCertDXDaemon d =
     (let c = dm_Config d in
      if cc_Mode (cl_Common c) = CLIENT_MODE_HTTP
      then (if ch_Url (cl_HttpMain c) = [] then Some ''http main server url should not be empty'' else None)
      else if cc_Mode (cl_Common c) = CLIENT_MODE_GRPC
      then (if cg_Server (cl_GRPCMain c) = [] then Some ''GRPC main server url should not be empty'' else None)
      else Some ''not supported mode'')"

definition InvokeCertificateUpdate :: "(string \<Rightarrow> string) \<Rightarrow> (string \<Rightarrow> string) \<Rightarrow> 's kube \<Rightarrow>
    (Key \<times> certData) list \<Rightarrow> bool \<Rightarrow> 's KubernetesCertificateUpdater \<Rightarrow>
    's KubernetesCertificateUpdater \<times> k8s_outcome option" where
  "InvokeCertificateUpdate lw tw kb events deadline r =
     (case getAllCertificatesFromKubernetes kb (ku_cluster r) of
        Inl e \<Rightarrow> (r, Some (K8sList e))
      | Inr allCerts \<Rightarrow>
          (case registerWatchAndHandlers lw tw allCerts r of
             (r1, registered) \<Rightarrow>
               if registered = 0 then (r1, Some NothingToDo)
               else (case startCertDXDaemon (ku_certDXDaemon r1) of
                   Some e \<Rightarrow> (r1, Some (StartFailed e))
                 | None \<Rightarrow>
                     let r2 = foldl (k8s_deliver kb) r1 events in
                     (case waitReplaceTask deadline r2 of
                        None \<Rightarrow> (r2, None)
                      | Some out \<Rightarrow> (r2\<lparr>ku_certDXDaemon := daemon_Stop (ku_certDXDaemon r2)\<rparr>, Some out)))))"

section \<open>The command\<close>

text \<open>\<open>load\<close> decodes the configuration file at a path, \<open>build\<close> and \<open>newClient\<close> are the functions
  of the Kubernetes library.\<close>

datatype k8s_init_error =
    InvalidCertdxConfig "string + client_error list"
  | BuildKubeConfig string
  | InitKubeClient string

definition initCertDX ::
    "(string \<Rightarrow> duration option) \<Rightarrow> (string \<Rightarrow> bool) \<Rightarrow> (string \<Rightarrow> ClientConfig \<Rightarrow> string + ClientConfig) \<Rightarrow>
     ClientConfig \<Rightarrow> string \<Rightarrow> k8s_init_error + k8s_task CertDXClientDaemon" where
  "initCertDX parse exists load zero certdxConfig =
     (case LoadConfigurationAndValidateOpt parse exists (load certdxConfig)
             [WithAcceptEmptyCertificateSavePath True, WithAcceptEmptyCertificatesList False]
             (MakeCertDXClientDaemon zero) of
        (d, Inl e) \<Rightarrow> Inl (InvalidCertdxConfig (Inl e))
      | (d, Inr errs) \<Rightarrow> if errs \<noteq> [] then Inl (InvalidCertdxConfig (Inr errs)) else Inr d)"

definition initKubernetesClient ::
    "(string \<Rightarrow> string + 'c) \<Rightarrow> ('c \<Rightarrow> string + 's kube) \<Rightarrow> string \<Rightarrow> k8s_init_error + 's kube" where
  "initKubernetesClient build newClient k8sConfig =
     (case build k8sConfig of
        Inl e \<Rightarrow> Inl (BuildKubeConfig e)
      | Inr restConfig \<Rightarrow>
          (case newClient restConfig of Inl e \<Rightarrow> Inl (InitKubeClient e) | Inr kb \<Rightarrow> Inr kb))"

definition InitCertificateUpdater ::
    "(string \<Rightarrow> duration option) \<Rightarrow> (string \<Rightarrow> bool) \<Rightarrow> (string \<Rightarrow> ClientConfig \<Rightarrow> string + ClientConfig) \<Rightarrow>
     ClientConfig \<Rightarrow> (string \<Rightarrow> string + 'c) \<Rightarrow> ('c \<Rightarrow> string + 's kube) \<Rightarrow> string \<Rightarrow> string \<Rightarrow>
     k8s_init_error + k8s_task CertDXClientDaemon \<times> 's kube" where
  "InitCertificateUpdater parse exists load zero build newClient certdxConfig k8sConfig =
     (case initCertDX parse exists load zero certdxConfig of
        Inl e \<Rightarrow> Inl e
      | Inr d \<Rightarrow>
          (case initKubernetesClient build newClient k8sConfig of Inl e \<Rightarrow> Inl e | Inr kb \<Rightarrow> Inr (d, kb)))"

record k8s_flags =
  kf_help :: bool
  kf_conf :: string
  kf_k8sConf :: string

datatype k8s_result =
    K8sFlags string
  | K8sHelp
  | K8sConfRequired
  | K8sInit k8s_init_error
  | K8sRun "k8s_outcome option"

text \<open>\<open>flags\<close> is what parsing the arguments gives, \<open>s\<close> the cluster.\<close>

definition KubernetesReplaceCertificate where
  "KubernetesReplaceCertificate lw tw parse exists load zero build newClient events deadline s flags =
     (case flags of
        Inl e \<Rightarrow> (s, K8sFlags e)
      | Inr fs \<Rightarrow>
          if kf_help fs then (s, K8sHelp)
          else if kf_conf fs = [] then (s, K8sConfRequired)
          else (case InitCertificateUpdater parse exists load zero build newClient (kf_conf fs) (kf_k8sConf fs) of
              Inl e \<Rightarrow> (s, K8sInit e)
            | Inr (d, kb) \<Rightarrow>
                (case InvokeCertificateUpdate lw tw kb events deadline (MakeKubernetesReplaceCertificate d s) of
                   (r, out) \<Rightarrow> (ku_cluster r, K8sRun out))))"

section \<open>Lemmas\<close>

text \<open>The states that the attempts of a retry on conflict can be made in.\<close>

inductive conflict_run :: "('s \<Rightarrow> 's \<times> k8s_error option) \<Rightarrow> 's \<Rightarrow> 's \<Rightarrow> bool" for f where
  conflict_refl: "conflict_run f s s"
| conflict_step: "f s = (s1, Some e) \<Longrightarrow> IsConflict e \<Longrightarrow> conflict_run f s1 s2 \<Longrightarrow> conflict_run f s s2"

text \<open>The tasks that the loop registers, with their names.\<close>

fun accepted :: "(string \<Rightarrow> string) \<Rightarrow> (string \<Rightarrow> string) \<Rightarrow> 'h CertDXClientDaemon \<Rightarrow> nat \<Rightarrow> Secret list \<Rightarrow>
    (k8s_task \<times> string list) list" where
  "accepted lw tw d i [] = []"
| "accepted lw tw d i (secret # certs) =
     (let domains = annotated_domains lw tw secret in
      (if domains \<noteq> [] \<and> areDomainsAllowed lw d domains then [(\<lparr>kt_id = i, kt_secret = secret\<rparr>, domains)] else []) @
      accepted lw tw d (i + 1) certs)"

lemma accepted_ids: "(t, ds) \<in> set (accepted lw tw d i certs) \<Longrightarrow> i \<le> kt_id t"
  by (induction lw tw d i certs rule: accepted.induct) (fastforce simp: Let_def split: if_splits)+

lemma accepted_distinct: "distinct (map (kt_id \<circ> fst) (accepted lw tw d i certs))"
  by (induction lw tw d i certs rule: accepted.induct) (force simp: Let_def dest: accepted_ids)+

definition fresh_watch :: "k8s_task \<Rightarrow> string list \<Rightarrow> k8s_task watchingCert" where
  "fresh_watch t domains =
     \<lparr>wc_Data = \<lparr>cd_Domains = domains, cd_Fullchain = [], cd_Key = []\<rparr>,
      wc_Config = \<lparr>cf_Name = sc_Namespace (kt_secret t) @ ''/'' @ sc_Name (kt_secret t), cf_SavePath = [],
        cf_Domains = domains, cf_ReloadCommand = []\<rparr>,
      wc_UpdateHandlers = [t]\<rparr>"

lemma register_one_eq:
  "register_one lw domains t r =
     r\<lparr>ku_wg := ku_wg r + 1, ku_certDXDaemon := (ku_certDXDaemon r)\<lparr>dm_certs :=
       (dm_certs (ku_certDXDaemon r))(AsKey lw domains \<mapsto> fresh_watch t domains)\<rparr>\<rparr>"
  by (simp add: register_one_def AddCertToWatchOpt_def WithCertificateHandlerOption_def fresh_watch_def Let_def)

lemma accepted_cong: "dm_Config d = dm_Config d' \<Longrightarrow> accepted lw tw d i certs = accepted lw tw d' i certs"
  by (induction lw tw d i certs rule: accepted.induct) (auto simp: Let_def areDomainsAllowed_def)

definition reg_map :: "(string \<Rightarrow> string) \<Rightarrow> (k8s_task \<times> string list) list \<Rightarrow> (Key \<rightharpoonup> k8s_task watchingCert) \<Rightarrow>
    (Key \<rightharpoonup> k8s_task watchingCert)" where
  "reg_map lw acc m = foldl (\<lambda>m c. m(AsKey lw (snd c) \<mapsto> fresh_watch (fst c) (snd c))) m acc"

lemma reg_map_simps [simp]:
  "reg_map lw [] m = m"
  "reg_map lw ((t, ds) # acc) m = reg_map lw acc (m(AsKey lw ds \<mapsto> fresh_watch t ds))"
  by (simp_all add: reg_map_def)

lemma register_loop_eq:
  "register_loop lw tw i certs n r =
     (let acc = accepted lw tw (ku_certDXDaemon r) i certs in
      (r\<lparr>ku_wg := ku_wg r + int (length acc), ku_certDXDaemon := (ku_certDXDaemon r)\<lparr>dm_certs :=
         reg_map lw acc (dm_certs (ku_certDXDaemon r))\<rparr>\<rparr>,
       n + length acc))"
proof (induction lw tw i certs n r rule: register_loop.induct)
  case (2 lw tw i secret certs n r)
  let ?ds = "annotated_domains lw tw secret"
  let ?r = "register_one lw ?ds \<lparr>kt_id = i, kt_secret = secret\<rparr> r"
  have c: "accepted lw tw (ku_certDXDaemon ?r) j xs = accepted lw tw (ku_certDXDaemon r) j xs" for j xs
    by (rule accepted_cong) (simp add: register_one_eq)
  show ?case
  proof (cases "?ds \<noteq> [] \<and> areDomainsAllowed lw (ku_certDXDaemon r) ?ds")
    case True
    then show ?thesis
      using 2(3) c by (simp add: Let_def) (simp add: register_one_eq ac_simps)
  next
    case False
    then show ?thesis
      using 2(1,2) by (auto simp: Let_def)
  qed
qed simp

text \<open>A handler runs its work once.\<close>

lemma k8s_handler_frame:
  "ku_certDXDaemon (k8s_handler kb call r) = ku_certDXDaemon r"
  "ku_once (k8s_handler kb call r) = insert (kt_id (hc_handler call)) (ku_once r)"
  "ku_wg (k8s_handler kb call r) = ku_wg r - (if kt_id (hc_handler call) \<in> ku_once r then 0 else 1)"
  by (auto simp: k8s_handler_def Let_def split: prod.splits)

text \<open>The bundles that have been given a certificate.\<close>

definition delivered :: "(Key \<times> certData) list \<Rightarrow> Key \<Rightarrow> bool" where
  "delivered es k \<longleftrightarrow> (\<exists>d. (k, d) \<in> set es \<and> material d \<noteq> ([], []))"

definition k8s_inv :: "(Key \<rightharpoonup> k8s_task) \<Rightarrow> int \<Rightarrow> (Key \<times> certData) list \<Rightarrow> 's KubernetesCertificateUpdater \<Rightarrow> bool" where
  "k8s_inv H n es r \<longleftrightarrow>
     (\<forall>k. dm_certs (ku_certDXDaemon r) k = None \<longrightarrow> H k = None) \<and>
     (\<forall>k wc. dm_certs (ku_certDXDaemon r) k = Some wc \<longrightarrow>
        (\<exists>t. H k = Some t \<and> wc_UpdateHandlers wc = [t]) \<and> (\<not> delivered es k \<longrightarrow> material (wc_Data wc) = ([], []))) \<and>
     ku_once r = {kt_id t | k t. H k = Some t \<and> delivered es k} \<and>
     finite (ku_once r) \<and> ku_wg r = n - int (card (ku_once r))"

lemma delivered_snoc: "delivered (es @ [(k, d)]) k' \<longleftrightarrow> delivered es k' \<or> k' = k \<and> material d \<noteq> ([], [])"
  by (auto simp: delivered_def)

lemma k8s_deliver_inv:
  assumes "k8s_inv H n es r"
  shows "k8s_inv H n (es @ [(k, d)]) (k8s_deliver kb r (k, d))"
proof (cases "dm_certs (ku_certDXDaemon r) k")
  case None
  then have "H k = None" using assms by (auto simp: k8s_inv_def)
  then have "{kt_id t | k' t. H k' = Some t \<and> delivered (es @ [(k, d)]) k'} =
      {kt_id t | k' t. H k' = Some t \<and> delivered es k'}"
    by (auto simp: delivered_snoc)
  then show ?thesis
    using assms None by (auto simp: k8s_inv_def k8s_deliver_def delivered_snoc)
next
  case (Some wc)
  then obtain t where t: "H k = Some t" "wc_UpdateHandlers wc = [t]"
      "\<not> delivered es k \<longrightarrow> material (wc_Data wc) = ([], [])"
    using assms unfolding k8s_inv_def by blast
  obtain wc' calls where w: "watch_one d wc = (wc', calls)" by fastforce
  have w': "wc_UpdateHandlers wc' = [t]" "material (wc_Data wc') = material d"
      "calls = notify wc (if material d = material (wc_Data wc) then [] else [material d])"
    using watch_one_frame [of d wc] watch_one_calls [of d wc] t w by auto
  let ?r1 = "r\<lparr>ku_certDXDaemon := (ku_certDXDaemon r)\<lparr>dm_certs := (dm_certs (ku_certDXDaemon r))(k \<mapsto> wc')\<rparr>\<rparr>"
  have r2: "k8s_deliver kb r (k, d) = foldl (\<lambda>r call. k8s_handler kb call r) ?r1 calls"
    by (simp add: k8s_deliver_def Some w)
  let ?r2 = "k8s_deliver kb r (k, d)"
  have d2: "ku_certDXDaemon ?r2 = ku_certDXDaemon ?r1"
    using w'(3) t(2) by (simp add: r2 notify_def k8s_handler_frame split: prod.splits)
  have new: "{kt_id t | k' t. H k' = Some t \<and> delivered (es @ [(k, d)]) k'} =
      (if material d \<noteq> ([], []) then insert (kt_id t) (ku_once r) else ku_once r)"
    using assms t(1) by (auto simp: k8s_inv_def delivered_snoc)
  have old: "delivered es k \<Longrightarrow> kt_id t \<in> ku_once r"
    using assms t(1) by (auto simp: k8s_inv_def)
  have o2: "ku_once ?r2 = (if material d \<noteq> ([], []) then insert (kt_id t) (ku_once r) else ku_once r)"
    using w'(3) t(2,3) old by (auto simp: r2 notify_def k8s_handler_frame split: prod.splits)
  have g2: "ku_wg ?r2 = ku_wg r - (if material d \<noteq> ([], []) \<and> kt_id t \<notin> ku_once r then 1 else 0)"
    using w'(3) t(2,3) old by (auto simp: r2 notify_def k8s_handler_frame split: prod.splits)
  have "finite (ku_once r)" "ku_wg r = n - int (card (ku_once r))"
    using assms unfolding k8s_inv_def by blast+
  then have "finite (ku_once ?r2) \<and> ku_wg ?r2 = n - int (card (ku_once ?r2))"
    by (simp add: o2 g2 card_insert_if)
  moreover have "\<forall>k'. dm_certs (ku_certDXDaemon ?r2) k' = None \<longrightarrow> H k' = None"
    using assms unfolding d2 by (auto simp: k8s_inv_def)
  moreover have "\<forall>k' wc. dm_certs (ku_certDXDaemon ?r2) k' = Some wc \<longrightarrow>
      (\<exists>t. H k' = Some t \<and> wc_UpdateHandlers wc = [t]) \<and>
      (\<not> delivered (es @ [(k, d)]) k' \<longrightarrow> material (wc_Data wc) = ([], []))"
    using assms t(1) w'(1,2) unfolding d2 by (auto simp: k8s_inv_def delivered_snoc)
  ultimately show ?thesis
    using new o2 by (simp add: k8s_inv_def)
qed

text \<open>The last registered task of a bundle is the one its watcher calls.\<close>

definition last_task :: "(string \<Rightarrow> string) \<Rightarrow> (k8s_task \<times> string list) list \<Rightarrow> (Key \<rightharpoonup> k8s_task)" where
  "last_task lw acc k =
     (case filter (\<lambda>c. AsKey lw (snd c) = k) acc of [] \<Rightarrow> None | ys \<Rightarrow> Some (fst (last ys)))"

lemma reg_map_at:
  "reg_map lw acc Map.empty k =
     (case filter (\<lambda>c. AsKey lw (snd c) = k) acc of [] \<Rightarrow> None
      | ys \<Rightarrow> Some (fresh_watch (fst (last ys)) (snd (last ys))))"
  unfolding reg_map_def foldl_upd_at by (auto split: list.splits)

lemma registered_inv:
  assumes "dm_certs d = Map.empty"
    and "registerWatchAndHandlers lw tw certs (MakeKubernetesReplaceCertificate d s) = (r1, n)"
  shows "n = length (accepted lw tw d 0 certs) \<and> k8s_inv (last_task lw (accepted lw tw d 0 certs)) (int n) [] r1"
  using assms
  by (auto simp: registerWatchAndHandlers_def register_loop_eq MakeKubernetesReplaceCertificate_def Let_def
      k8s_inv_def delivered_def reg_map_at last_task_def fresh_watch_def material_def split: list.splits)

lemma deliveries_inv: "k8s_inv H n [] r \<Longrightarrow> k8s_inv H n es (foldl (k8s_deliver kb) r es)"
proof (induction es rule: rev_induct)
  case (snoc e es)
  then show ?case using k8s_deliver_inv [of H n es _ "fst e" "snd e" kb] by simp
qed simp

lemma last_task_acc: "last_task lw acc k = Some t \<Longrightarrow> \<exists>ds. (t, ds) \<in> set acc \<and> AsKey lw ds = k"
proof -
  assume "last_task lw acc k = Some t"
  then have ne: "filter (\<lambda>c. AsKey lw (snd c) = k) acc \<noteq> []"
    and t: "t = fst (last (filter (\<lambda>c. AsKey lw (snd c) = k) acc))"
    by (auto simp: last_task_def split: list.splits)
  show ?thesis
    using last_in_set [OF ne] t by (intro exI [of _ "snd (last (filter (\<lambda>c. AsKey lw (snd c) = k) acc))"]) auto
qed

lemma last_task_unique:
  assumes "distinct (map (\<lambda>c. AsKey lw (snd c)) acc)" "(t, ds) \<in> set acc"
  shows "last_task lw acc (AsKey lw ds) = Some t"
  using assms
proof (induction acc)
  case (Cons a acc)
  have none: "filter (\<lambda>c. AsKey lw (snd c) = AsKey lw (snd a)) acc = []"
    using Cons.prems(1) unfolding filter_empty_conv by (metis (no_types, lifting) distinct.simps(2) image_eqI list.set_map list.simps(9))
  show ?case
  proof (cases "a = (t, ds)")
    case True
    then show ?thesis using none by (simp add: last_task_def)
  next
    case False
    then have "last_task lw acc (AsKey lw ds) = Some t" "AsKey lw (snd a) \<noteq> AsKey lw ds"
      using Cons by force+
    then show ?thesis by (simp add: last_task_def)
  qed
qed simp

lemma card_eq_iff_subset: "finite B \<Longrightarrow> A \<subseteq> B \<Longrightarrow> card A = card B \<longleftrightarrow> A = B"
  using card_subset_eq by blast

text \<open>Every task is called exactly when no two share a bundle and every bundle was delivered.\<close>

lemma all_tasks_called_iff:
  assumes "distinct (map (kt_id \<circ> fst) acc)"
  shows "card {kt_id t | k t. last_task lw acc k = Some t \<and> P k} = length acc \<longleftrightarrow>
    distinct (map (\<lambda>c. AsKey lw (snd c)) acc) \<and> (\<forall>c \<in> set acc. P (AsKey lw (snd c)))"
    (is "card ?called = _ \<longleftrightarrow> ?all")
proof -
  let ?ids = "(kt_id \<circ> fst) ` set acc"
  have ids: "card ?ids = length acc"
    using assms by (metis distinct_card length_map list.set_map)
  have sub: "?called \<subseteq> ?ids"
    by (force dest: last_task_acc)
  have iff: "card ?called = length acc \<longleftrightarrow> ?called = ?ids"
    unfolding ids [symmetric] by (rule card_eq_iff_subset [OF _ sub]) simp
  have inj: "c = c'" if "c \<in> set acc" "c' \<in> set acc" "kt_id (fst c) = kt_id (fst c')" for c c'
    using assms that by (metis (mono_tags, lifting) comp_apply distinct_map inj_on_eq_iff)
  show ?thesis
  proof
    assume "card ?called = length acc"
    then have eq: "?called = ?ids" using iff by blast
    have all: "last_task lw acc (AsKey lw ds) = Some t \<and> P (AsKey lw ds)" if c: "(t, ds) \<in> set acc" for t ds
    proof -
      have "(kt_id \<circ> fst) (t, ds) \<in> ?ids" using c by (rule imageI)
      then have "kt_id t \<in> ?called" unfolding eq by simp
      then obtain k t' where k: "kt_id t = kt_id t'" "last_task lw acc k = Some t'" "P k" by blast
      then obtain ds' where "(t', ds') \<in> set acc" "AsKey lw ds' = k" using last_task_acc by blast
      then show ?thesis using inj [OF c, of "(t', ds')"] k by simp
    qed
    have "inj_on (\<lambda>c. AsKey lw (snd c)) (set acc)"
    proof (rule inj_onI)
      fix c c'
      assume "c \<in> set acc" "c' \<in> set acc" "AsKey lw (snd c) = AsKey lw (snd c')"
      then show "c = c'" using all [of "fst c" "snd c"] all [of "fst c'" "snd c'"] inj by simp
    qed
    moreover have "distinct acc" using assms distinct_map by blast
    ultimately show ?all using all by (force simp: distinct_map)
  next
    assume ?all
    then have "?ids \<subseteq> ?called" using last_task_unique [of lw acc] by fastforce
    then show "card ?called = length acc" using iff sub by blast
  qed
qed

section \<open>Properties\<close>

text \<open>
  C24: The wait group of the updater counts down to zero, so that the wait can end before its
  deadline, exactly when no two annotated secrets that were registered ask for the same bundle and
  the server has delivered a certificate for each of them. Two secrets with the same names
  therefore always run into the deadline: the second registration replaces the first in the daemon.
\<close>

theorem k8s_wait_ends_iff:
  assumes "dm_certs d = Map.empty"
    and "registerWatchAndHandlers lw tw certs (MakeKubernetesReplaceCertificate d s) = (r1, n)"
  shows "waitReplaceTask False (foldl (k8s_deliver kb) r1 events) \<noteq> None \<longleftrightarrow>
    distinct (map (\<lambda>(t, ds). AsKey lw ds) (accepted lw tw d 0 certs)) \<and>
    (\<forall>(t, ds) \<in> set (accepted lw tw d 0 certs).
       \<exists>c. (AsKey lw ds, c) \<in> set events \<and> (cd_Fullchain c, cd_Key c) \<noteq> ([], []))"
proof -
  let ?acc = "accepted lw tw d 0 certs"
  let ?r2 = "foldl (k8s_deliver kb) r1 events"
  have n: "n = length ?acc" and inv: "k8s_inv (last_task lw ?acc) (int n) events ?r2"
    using registered_inv [OF assms] deliveries_inv by blast+
  then have "ku_wg ?r2 = 0 \<longleftrightarrow>
      card {kt_id t | k t. last_task lw ?acc k = Some t \<and> delivered events k} = length ?acc"
    by (auto simp: k8s_inv_def)
  also have "\<dots> \<longleftrightarrow> distinct (map (\<lambda>c. AsKey lw (snd c)) ?acc) \<and>
      (\<forall>c \<in> set ?acc. delivered events (AsKey lw (snd c)))"
    by (rule all_tasks_called_iff [OF accepted_distinct])
  finally show ?thesis
    by (simp add: waitReplaceTask_def delivered_def material_def case_prod_beta')
qed

definition ex_secret :: "string \<Rightarrow> string \<Rightarrow> Secret" where
  "ex_secret name domains = \<lparr>sc_Namespace = ''ns'', sc_Name = name, sc_Type = SecretTypeTLS,
     sc_Annotations = [certDxDomainAnnotation \<mapsto> domains], sc_Data = [''ca.crt'' \<mapsto> ''A'']\<rparr>"

definition ex_kube :: "((string \<times> string) \<rightharpoonup> Secret) kube" where
  "ex_kube = \<lparr>kb_List = (\<lambda>s. Inr []),
     kb_Get = (\<lambda>s ns n. case s (ns, n) of None \<Rightarrow> Inl NotFound | Some x \<Rightarrow> Inr (x\<lparr>sc_Namespace := ns, sc_Name := n\<rparr>)),
     kb_Update = (\<lambda>s x. (s((sc_Namespace x, sc_Name x) \<mapsto> x), None)),
     kb_RetryOnConflict = (\<lambda>f s. f s)\<rparr>"

definition ex_daemon :: "k8s_task CertDXClientDaemon" where
  "ex_daemon = \<lparr>dm_Config = example_client_config\<lparr>cl_Certifications :=
      [\<lparr>cf_Name = ''n'', cf_SavePath = [], cf_Domains = [''b''], cf_ReloadCommand = []\<rparr>]\<rparr>,
     dm_certs = Map.empty, dm_stopped = False\<rparr>"

lemma ex_accepted:
  "accepted id id ex_daemon 0 [ex_secret ''x'' '' A.b ,c.b'', ex_secret ''y'' ''c.b,a.b''] =
     [(\<lparr>kt_id = 0, kt_secret = ex_secret ''x'' '' A.b ,c.b''\<rparr>, [''a.b'', ''c.b'']),
      (\<lparr>kt_id = 1, kt_secret = ex_secret ''y'' ''c.b,a.b''\<rparr>, [''c.b'', ''a.b''])]"
proof -
  have "annotated_domains id id (ex_secret n d) = parseDomainsAnnotation id id d" for n d
    by (simp add: annotated_domains_def ex_secret_def)
  moreover have "parseDomainsAnnotation id id '' A.b ,c.b'' = [''a.b'', ''c.b'']"
    "parseDomainsAnnotation id id ''c.b,a.b'' = [''c.b'', ''a.b'']"
    by code_simp+
  moreover have "areDomainsAllowed id ex_daemon [''a.b'', ''c.b'']" "areDomainsAllowed id ex_daemon [''c.b'', ''a.b'']"
    by (simp_all add: areDomainsAllowed_def ex_daemon_def, code_simp+)
  ultimately show ?thesis by simp
qed

text \<open>Two secrets that name the same bundle, in another order: the wait blocks whatever is delivered.\<close>

theorem k8s_wait_ends_iff_witness:
  "\<exists>r1 n. registerWatchAndHandlers id id [ex_secret ''x'' '' A.b ,c.b'', ex_secret ''y'' ''c.b,a.b'']
      (MakeKubernetesReplaceCertificate ex_daemon Map.empty) = (r1, n) \<and>
    (\<forall>events. waitReplaceTask False (foldl (k8s_deliver ex_kube) r1 events) = None)"
proof -
  let ?cs = "[ex_secret ''x'' '' A.b ,c.b'', ex_secret ''y'' ''c.b,a.b'']"
  obtain r1 n where r: "registerWatchAndHandlers id id ?cs (MakeKubernetesReplaceCertificate ex_daemon (Map.empty :: (string \<times> string) \<rightharpoonup> Secret)) = (r1, n)"
    by fastforce
  have d: "dm_certs ex_daemon = Map.empty" by (simp add: ex_daemon_def)
  have "AsKey id [''a.b'', ''c.b''] = AsKey id [''c.b'', ''a.b'']"
    by (rule AsKey_cong) (auto simp: norm_set_def)
  then have "waitReplaceTask False (foldl (k8s_deliver ex_kube) r1 events) = None" for events
    using k8s_wait_ends_iff [OF d r, of ex_kube events] unfolding ex_accepted by simp
  then show ?thesis using r by blast
qed

definition with_pair :: "bytes \<Rightarrow> bytes \<Rightarrow> Secret \<Rightarrow> Secret" where
  "with_pair fullchain key x =
     x\<lparr>sc_Type := SecretTypeTLS, sc_Data := (sc_Data x)(TLSCertKey \<mapsto> fullchain, TLSPrivateKeyKey \<mapsto> key)\<rparr>"

lemma fun_upd2_idem: "a \<noteq> b \<Longrightarrow> f(a := u, b := v) = f \<longleftrightarrow> f a = u \<and> f b = v"
  by (metis fun_upd_other fun_upd_same fun_upd_triv)

lemma with_pair_idem:
  assumes "fullchain \<noteq> []" "key \<noteq> []"
  shows "with_pair fullchain key x = x \<longleftrightarrow>
    (case sc_Data x TLSCertKey of None \<Rightarrow> [] | Some v \<Rightarrow> v) = fullchain \<and>
    (case sc_Data x TLSPrivateKeyKey of None \<Rightarrow> [] | Some v \<Rightarrow> v) = key \<and> sc_Type x = SecretTypeTLS"
proof -
  have "(sc_Data x)(TLSCertKey \<mapsto> fullchain, TLSPrivateKeyKey \<mapsto> key) = sc_Data x \<longleftrightarrow>
      sc_Data x TLSCertKey = Some fullchain \<and> sc_Data x TLSPrivateKeyKey = Some key"
    by (rule fun_upd2_idem) (simp add: TLSCertKey_def TLSPrivateKeyKey_def)
  then show ?thesis
    using assms by (cases x) (auto simp: with_pair_def split: option.splits)
qed

lemma replace_attempt_ok:
  assumes "replace_attempt kb cert fullchain key s0 = (s', None)" "fullchain \<noteq> []" "key \<noteq> []"
    "kb_Get kb s0 (sc_Namespace cert) (sc_Name cert) = Inr old"
  shows "if with_pair fullchain key old = old then s' = s0
    else kb_Update kb s0 (with_pair fullchain key old) = (s', None)"
  using assms unfolding with_pair_idem [OF assms(2,3)]
  by (auto simp: replace_attempt_def Let_def with_pair_def split: if_splits prod.splits option.splits)

text \<open>
  C34: Replacing a secret. An empty chain or key is rejected with an error before the API is called:
  the state of the cluster is unchanged. A replacement that reports no error had a chain and a key and
  has done its work: in the state of its last attempt, which only conflicts precede, the secret was
  gone, or it is afterwards a TLS secret that holds exactly the new chain and key beside its other
  data and its annotations, and a secret that was already up to date was not written. No other secret
  is touched. The hypotheses are the documented behaviour of \<open>RetryOnConflict\<close> and of a successful
  read and update.
\<close>

theorem k8s_secret_replaced:
  assumes retry: "\<And>f s. \<exists>s0. conflict_run f s s0 \<and> kb_RetryOnConflict kb f s = f s0"
    and named: "\<And>s ns n x. kb_Get kb s ns n = Inr x \<Longrightarrow> sc_Namespace x = ns \<and> sc_Name x = n"
    and update: "\<And>s x s'. kb_Update kb s x = (s', None) \<Longrightarrow> kb_Get kb s' (sc_Namespace x) (sc_Name x) = Inr x"
    and other: "\<And>s x s' ns n. kb_Update kb s x = (s', None) \<Longrightarrow> (ns, n) \<noteq> (sc_Namespace x, sc_Name x) \<Longrightarrow>
      kb_Get kb s' ns n = kb_Get kb s ns n"
    and res: "replaceCertificateInKubernetes kb cert fullchain key s = (s', err)"
  shows "(fullchain = [] \<or> key = [] \<longrightarrow> err = Some EmptyCertificateOrKey \<and> s' = s) \<and>
    (err = None \<longrightarrow> fullchain \<noteq> [] \<and> key \<noteq> [] \<and>
     (\<exists>s0. conflict_run (replace_attempt kb cert fullchain key) s s0 \<and>
      (kb_Get kb s0 (sc_Namespace cert) (sc_Name cert) = Inl NotFound \<and> s' = s0 \<or>
       (\<exists>old new. kb_Get kb s0 (sc_Namespace cert) (sc_Name cert) = Inr old \<and>
          kb_Get kb s' (sc_Namespace cert) (sc_Name cert) = Inr new \<and> sc_Type new = SecretTypeTLS \<and>
          sc_Data new = (sc_Data old)(TLSCertKey \<mapsto> fullchain, TLSPrivateKeyKey \<mapsto> key) \<and>
          sc_Annotations new = sc_Annotations old \<and> (new = old \<longrightarrow> s' = s0))) \<and>
      (\<forall>ns n. (ns, n) \<noteq> (sc_Namespace cert, sc_Name cert) \<longrightarrow> kb_Get kb s' ns n = kb_Get kb s0 ns n)))"
proof (intro conjI impI)
  show "err = Some EmptyCertificateOrKey" "s' = s" if "fullchain = [] \<or> key = []"
    using that res by (auto simp: replaceCertificateInKubernetes_def)
  assume "err = None"
  then have ok: "replaceCertificateInKubernetes kb cert fullchain key s = (s', None)" using res by simp
  then show "fullchain \<noteq> []" "key \<noteq> []" by (auto simp: replaceCertificateInKubernetes_def)
  show "\<exists>s0. conflict_run (replace_attempt kb cert fullchain key) s s0 \<and>
    (kb_Get kb s0 (sc_Namespace cert) (sc_Name cert) = Inl NotFound \<and> s' = s0 \<or>
     (\<exists>old new. kb_Get kb s0 (sc_Namespace cert) (sc_Name cert) = Inr old \<and>
        kb_Get kb s' (sc_Namespace cert) (sc_Name cert) = Inr new \<and> sc_Type new = SecretTypeTLS \<and>
        sc_Data new = (sc_Data old)(TLSCertKey \<mapsto> fullchain, TLSPrivateKeyKey \<mapsto> key) \<and>
        sc_Annotations new = sc_Annotations old \<and> (new = old \<longrightarrow> s' = s0))) \<and>
    (\<forall>ns n. (ns, n) \<noteq> (sc_Namespace cert, sc_Name cert) \<longrightarrow> kb_Get kb s' ns n = kb_Get kb s0 ns n)"
  proof -
    from retry ok obtain s0 where s0: "conflict_run (replace_attempt kb cert fullchain key) s s0"
      and a: "replace_attempt kb cert fullchain key s0 = (s', None)" and ne: "fullchain \<noteq> []" "key \<noteq> []"
      by (fastforce simp: replaceCertificateInKubernetes_def split: if_splits)
    show ?thesis
    proof (cases "kb_Get kb s0 (sc_Namespace cert) (sc_Name cert)")
      case (Inl e)
      then show ?thesis using a s0 by (auto simp: replace_attempt_def split: kube_error.splits)
    next
      case (Inr old)
      have id: "sc_Namespace old = sc_Namespace cert" "sc_Name old = sc_Name cert"
        using named [OF Inr] by simp_all
      let ?new = "with_pair fullchain key old"
      have "kb_Get kb s' (sc_Namespace cert) (sc_Name cert) = Inr ?new \<and>
        (?new = old \<longrightarrow> s' = s0) \<and>
        (\<forall>ns n. (ns, n) \<noteq> (sc_Namespace cert, sc_Name cert) \<longrightarrow> kb_Get kb s' ns n = kb_Get kb s0 ns n)"
        using replace_attempt_ok [OF a ne Inr] id Inr update [of s0 ?new s'] other [of s0 ?new s']
        by (auto simp: with_pair_def split: if_splits)
      then show ?thesis
        using s0 Inr by (intro exI [of _ s0]) (auto simp: with_pair_def)
    qed
  qed
qed

theorem k8s_secret_replaced_witness:
  "\<exists>s'. replaceCertificateInKubernetes ex_kube (ex_secret ''x'' ''a.b'') ''C'' ''K'' [(''ns'', ''x'') \<mapsto> ex_secret ''x'' ''a.b''] = (s', None) \<and>
    (\<exists>s0 old new. kb_Get ex_kube s0 ''ns'' ''x'' = Inr old \<and> kb_Get ex_kube s' ''ns'' ''x'' = Inr new \<and>
       sc_Data new = (sc_Data old)(TLSCertKey \<mapsto> ''C'', TLSPrivateKeyKey \<mapsto> ''K'')) \<and>
    replaceCertificateInKubernetes ex_kube (ex_secret ''x'' ''a.b'') [] ''K'' [(''ns'', ''x'') \<mapsto> ex_secret ''x'' ''a.b'']
      = ([(''ns'', ''x'') \<mapsto> ex_secret ''x'' ''a.b''], Some EmptyCertificateOrKey)"
proof -
  let ?s = "[(''ns'', ''x'') \<mapsto> ex_secret ''x'' ''a.b'']"
  obtain s' where d: "replaceCertificateInKubernetes ex_kube (ex_secret ''x'' ''a.b'') ''C'' ''K'' ?s = (s', None)"
      "s' (''ns'', ''x'') \<noteq> None"
    by (simp add: replaceCertificateInKubernetes_def ex_kube_def replace_attempt_def ex_secret_def Let_def
        TLSCertKey_def TLSPrivateKeyKey_def)
  have "\<exists>s0. conflict_run (replace_attempt ex_kube (ex_secret ''x'' ''a.b'') ''C'' ''K'') ?s s0 \<and>
    (kb_Get ex_kube s0 (sc_Namespace (ex_secret ''x'' ''a.b'')) (sc_Name (ex_secret ''x'' ''a.b'')) = Inl NotFound \<and> s' = s0 \<or>
     (\<exists>old new. kb_Get ex_kube s0 (sc_Namespace (ex_secret ''x'' ''a.b'')) (sc_Name (ex_secret ''x'' ''a.b'')) = Inr old \<and>
        kb_Get ex_kube s' (sc_Namespace (ex_secret ''x'' ''a.b'')) (sc_Name (ex_secret ''x'' ''a.b'')) = Inr new \<and>
        sc_Type new = SecretTypeTLS \<and>
        sc_Data new = (sc_Data old)(TLSCertKey \<mapsto> ''C'', TLSPrivateKeyKey \<mapsto> ''K'') \<and>
        sc_Annotations new = sc_Annotations old \<and> (new = old \<longrightarrow> s' = s0))) \<and>
    (\<forall>ns n. (ns, n) \<noteq> (sc_Namespace (ex_secret ''x'' ''a.b''), sc_Name (ex_secret ''x'' ''a.b'')) \<longrightarrow>
       kb_Get ex_kube s' ns n = kb_Get ex_kube s0 ns n)"
    by (rule k8s_secret_replaced [OF _ _ _ _ d(1), THEN conjunct2, THEN mp, THEN conjunct2, THEN conjunct2])
      (auto simp: ex_kube_def intro: conflict_refl split: option.splits)
  then have "\<exists>s'. replaceCertificateInKubernetes ex_kube (ex_secret ''x'' ''a.b'') ''C'' ''K'' ?s = (s', None) \<and>
    (\<exists>s0 old new. kb_Get ex_kube s0 ''ns'' ''x'' = Inr old \<and> kb_Get ex_kube s' ''ns'' ''x'' = Inr new \<and>
       sc_Data new = (sc_Data old)(TLSCertKey \<mapsto> ''C'', TLSPrivateKeyKey \<mapsto> ''K''))"
    using d by (fastforce simp: ex_secret_def ex_kube_def split: option.splits)
  moreover obtain t e where empty: "replaceCertificateInKubernetes ex_kube (ex_secret ''x'' ''a.b'') [] ''K'' ?s = (t, e)"
    by (metis prod.exhaust)
  moreover have "e = Some EmptyCertificateOrKey \<and> t = ?s"
    by (rule k8s_secret_replaced [OF _ _ _ _ empty, THEN conjunct1, THEN mp])
      (auto simp: ex_kube_def intro: conflict_refl split: option.splits)
  ultimately show ?thesis by simp
qed

end
