(* ===== verification/Txc_Updater.thy ===== *)
theory Txc_Updater
  imports Client_Daemon Retry
begin

text \<open>
  \<open>exec/tools/tasks/txcCertificateUpdater\<close>: the one-shot command that replaces expiring
  certificates in Tencent Cloud. The service is a parameter on a state of any type: the answer to a
  request, the time it took and the new state. Pointers of the service's data that may be nil are
  options, and following a nil pointer is the value \<open>TxcPanic\<close>. Every attempt is made through
  \<open>retry.Do\<close>; whether the context of the command is done is given per call.
\<close>

section \<open>Sets of names\<close>

fun contains_all :: "string set \<Rightarrow> string list \<Rightarrow> bool" where
  "contains_all S [] = True"
| "contains_all S (v # b) = (if v \<notin> S then False else contains_all S b)"

definition isSameStrSetIgnoringNil :: "string list \<Rightarrow> string list \<Rightarrow> bool" where
  "isSameStrSetIgnoringNil a b = (if length a \<noteq> length b then False else contains_all (set a) b)"

fun derefAll :: "string option list \<Rightarrow> string list option" where
  "derefAll [] = Some []"
| "derefAll (v # vs) =
     (case v of None \<Rightarrow> None | Some x \<Rightarrow> (case derefAll vs of None \<Rightarrow> None | Some xs \<Rightarrow> Some (x # xs)))"

definition isSameStrSetRejectNilItem :: "string option list \<Rightarrow> string list \<Rightarrow> bool" where
  "isSameStrSetRejectNilItem a b =
     (case derefAll a of None \<Rightarrow> False | Some deref \<Rightarrow> isSameStrSetIgnoringNil deref b)"

definition isSameStrSetRejectNilItemPtrArrPtrArr :: "string option list \<Rightarrow> string option list \<Rightarrow> bool" where
  "isSameStrSetRejectNilItemPtrArrPtrArr a b =
     (case derefAll a of
        None \<Rightarrow> False
      | Some derefA \<Rightarrow> (case derefAll b of None \<Rightarrow> False | Some derefB \<Rightarrow> isSameStrSetIgnoringNil derefA derefB))"

section \<open>Data\<close>

record Certificates =
  ct_CertificateId :: "string option"
  ct_CertSANs :: "string option list"

record ResourceTypeRegions =
  rr_ResourceType :: string
  rr_Regions :: "string list"

record TxcCertification =
  xc_Name :: string
  xc_Domains :: "string list"
  xc_ResourceTypes :: "string list"
  xc_ResourceTypesRegions :: "ResourceTypeRegions list"
  xc_certDxKey :: Key
  xc_oldCertificateId :: string

definition ToResourceTypesAndResourceTypesRegions ::
    "TxcCertification \<Rightarrow> string list \<times> ResourceTypeRegions list option" where
  "ToResourceTypesAndResourceTypesRegions r =
     (let resourceTypesRegions = map (\<lambda>it. \<lparr>rr_ResourceType = rr_ResourceType it, rr_Regions = rr_Regions it\<rparr>)
            (xc_ResourceTypesRegions r)
      in (xc_ResourceTypes r, if length resourceTypesRegions = 0 then None else Some resourceTypesRegions))"

datatype tx_error = SDKError string | OtherTx string

datatype txc_error =
    ListCertificates "tx_error retry_error"
  | TxcPanic

record UpdateRequest =
  ur_OldCertificateId :: string
  ur_CertificatePublicKey :: string
  ur_CertificatePrivateKey :: string
  ur_ResourceTypes :: "string list"
  ur_ResourceTypesRegions :: "ResourceTypeRegions list option"
  ur_ExpiringNotificationSwitch :: nat
  ur_Repeatable :: bool

record 'w tx_client =
  tx_DescribeCertificates :: "bool \<Rightarrow> 64 word \<Rightarrow> 64 word \<Rightarrow> 'w \<Rightarrow> 'w \<times> (tx_error + Certificates option list) \<times> duration"
    \<comment> \<open>the filter for expiring certificates, the offset, the limit\<close>
  tx_UpdateCertificateInstance :: "UpdateRequest \<Rightarrow> 'w \<Rightarrow> 'w \<times> tx_error option \<times> duration"

definition updateRetryCount :: int where "updateRetryCount = 3"
definition describeRetryCount :: int where "describeRetryCount = 3"
definition pageSize :: "64 word" where "pageSize = 100"

section \<open>Listing the certificates\<close>

text \<open>The closure of one page: the variables it captures are the slice and the flag.\<close>

definition page_work ::
    "'w tx_client \<Rightarrow> bool \<Rightarrow> 64 word \<Rightarrow> (Certificates option list \<times> bool \<times> 'w, tx_error) work" where
  "page_work cl expiring offset st =
     (case st of (fetchedCertificates, noMoreResult, w) \<Rightarrow>
       (case tx_DescribeCertificates cl expiring offset pageSize w of
          (w', Inl e, elapsed) \<Rightarrow> ((fetchedCertificates, noMoreResult, w'), Some e, elapsed)
        | (w', Inr certs, elapsed) \<Rightarrow> ((fetchedCertificates @ certs, certs = [], w'), None, elapsed)))"

text \<open>The service decides when the loop ends, so not returning is the value \<open>None\<close>. \<open>ctx\<close> tells for
  each page whether the context is done on entry and during the sleeps.\<close>

partial_function (option) fetch_loop ::
    "'w tx_client \<Rightarrow> bool \<Rightarrow> (64 word \<Rightarrow> bool \<times> (int \<Rightarrow> bool)) \<Rightarrow> 64 word \<Rightarrow> Certificates option list \<Rightarrow> 'w \<Rightarrow>
     ('w \<times> (txc_error + Certificates option list)) option" where
  "fetch_loop cl expiring ctx offset fetched w =
     (case Do (fst (ctx offset)) describeRetryCount (page_work cl expiring offset) (snd (ctx offset)) (fetched, False, w) of
        ((fetched', noMoreResult, w'), err) \<Rightarrow>
          (case err of
             Some e \<Rightarrow> Some (w', Inl (ListCertificates e))
           | None \<Rightarrow>
               if noMoreResult then Some (w', Inr fetched')
               else fetch_loop cl expiring ctx (offset + pageSize) fetched' w'))"

definition FetchTencentCloudCertificate ::
    "'w tx_client \<Rightarrow> bool \<Rightarrow> (64 word \<Rightarrow> bool \<times> (int \<Rightarrow> bool)) \<Rightarrow> 'w \<Rightarrow>
     ('w \<times> (txc_error + Certificates option list)) option" where
  "FetchTencentCloudCertificate cl expiring ctx w = fetch_loop cl expiring ctx 0 [] w"

section \<open>Choosing what to update\<close>

text \<open>\<open>Inl ()\<close>: the slice holds a nil certificate.\<close>

fun isActivatingCertificateExists :: "Certificates option list \<Rightarrow> Certificates \<Rightarrow> unit + Certificates option" where
  "isActivatingCertificateExists [] cert = Inr None"
| "isActivatingCertificateExists (ac0 # acs) cert =
     (case ac0 of
        None \<Rightarrow> Inl ()
      | Some ac \<Rightarrow>
          if ct_CertificateId ac \<noteq> None \<and> ct_CertificateId cert \<noteq> None \<and> ct_CertificateId ac = ct_CertificateId cert
          then isActivatingCertificateExists acs cert
          else if isSameStrSetRejectNilItemPtrArrPtrArr (ct_CertSANs ac) (ct_CertSANs cert) then Inr (Some ac)
          else isActivatingCertificateExists acs cert)"

definition match_certs ::
    "(string \<Rightarrow> string) \<Rightarrow> string \<Rightarrow> string option list \<Rightarrow> TxcCertification list \<Rightarrow> TxcCertification list" where
  "match_certs lw certId fetchedCertSANs certifications =
     map (\<lambda>cert. cert\<lparr>xc_oldCertificateId := certId, xc_certDxKey := AsKey lw (xc_Domains cert)\<rparr>)
       (filter (\<lambda>cert. isSameStrSetRejectNilItem fetchedCertSANs (xc_Domains cert)) certifications)"

text \<open>The loop over the expiring certificates. The log line of a newer certificate follows the
  pointer to its id.\<close>

fun match_loop ::
    "(string \<Rightarrow> string) \<Rightarrow> TxcCertification list \<Rightarrow> Certificates option list \<Rightarrow> Certificates option list \<Rightarrow>
     TxcCertification list \<Rightarrow> txc_error + TxcCertification list" where
  "match_loop lw certifications activating [] matchedCerts = Inr matchedCerts"
| "match_loop lw certifications activating (expiringCert # rest) matchedCerts =
     (case expiringCert of
        None \<Rightarrow> Inl TxcPanic
      | Some ec \<Rightarrow>
          (case ct_CertificateId ec of
             None \<Rightarrow> match_loop lw certifications activating rest matchedCerts
           | Some certId \<Rightarrow>
               (case isActivatingCertificateExists activating ec of
                  Inl _ \<Rightarrow> match_loop lw certifications activating rest matchedCerts
                | Inr (Some ac) \<Rightarrow>
                    if ct_CertificateId ac = None then Inl TxcPanic
                    else match_loop lw certifications activating rest matchedCerts
                | Inr None \<Rightarrow>
                    match_loop lw certifications activating rest
                      (matchedCerts @ match_certs lw certId (ct_CertSANs ec) certifications))))"

definition cert_key :: "TxcCertification \<Rightarrow> string" where
  "cert_key cert = xc_Name cert @ ''|'' @ Join (xc_Domains cert) '',''"

text \<open>The certificates a warning is logged for.\<close>

definition logMissingCerts :: "TxcCertification list \<Rightarrow> TxcCertification list \<Rightarrow> TxcCertification list" where
  "logMissingCerts configured matched =
     (let matchedKeys = set (map cert_key matched) in filter (\<lambda>cert. cert_key cert \<notin> matchedKeys) configured)"

text \<open>The new value of \<open>cfg.Certifications\<close> and the warnings.\<close>

definition GetCertificateToUpdate ::
    "(string \<Rightarrow> string) \<Rightarrow> 'w tx_client \<Rightarrow> (bool \<Rightarrow> 64 word \<Rightarrow> bool \<times> (int \<Rightarrow> bool)) \<Rightarrow> TxcCertification list \<Rightarrow> 'w \<Rightarrow>
     ('w \<times> (txc_error + TxcCertification list \<times> TxcCertification list)) option" where
  "GetCertificateToUpdate lw cl ctx certifications w =
     (case FetchTencentCloudCertificate cl True (ctx True) w of
        None \<Rightarrow> None
      | Some (w1, Inl e) \<Rightarrow> Some (w1, Inl e)
      | Some (w1, Inr expiringCertificates) \<Rightarrow>
          (case FetchTencentCloudCertificate cl False (ctx False) w1 of
             None \<Rightarrow> None
           | Some (w2, Inl e) \<Rightarrow> Some (w2, Inl e)
           | Some (w2, Inr activatingCertificates) \<Rightarrow>
               (case match_loop lw certifications activatingCertificates expiringCertificates [] of
                  Inl e \<Rightarrow> Some (w2, Inl e)
                | Inr matchedCerts \<Rightarrow> Some (w2, Inr (matchedCerts, logMissingCerts certifications matchedCerts)))))"

section \<open>Replacing\<close>

text \<open>A handler is the task it closes over. \<open>tu_panicked\<close>: a \<open>Done\<close> took the counter of the wait
  group below zero.\<close>

record 'w TencentCloudCertificateUpdater =
  tu_Certifications :: "TxcCertification list"
  tu_wg :: int
  tu_panicked :: bool
  tu_taskErr :: "tx_error retry_error list"
  tu_certDXDaemon :: "TxcCertification CertDXClientDaemon"
  tu_cloud :: 'w

definition AddReplaceTask ::
    "(string \<Rightarrow> string) \<Rightarrow> 'w TencentCloudCertificateUpdater \<Rightarrow> 'w TencentCloudCertificateUpdater" where
  "AddReplaceTask lw r =
     foldl (\<lambda>r taskCert.
         r\<lparr>tu_certDXDaemon := AddCertToWatchOpt lw (xc_Name taskCert) (xc_Domains taskCert)
             [WithCertificateHandlerOption taskCert] (tu_certDXDaemon r),
           tu_wg := tu_wg r + 1\<rparr>)
       r (tu_Certifications r)"

definition update_request :: "(string \<Rightarrow> string) \<Rightarrow> TxcCertification \<Rightarrow> bytes \<Rightarrow> bytes \<Rightarrow> UpdateRequest" where
  "update_request tw taskCert fullchain key =
     (let (types, regions) = ToResourceTypesAndResourceTypesRegions taskCert in
      \<lparr>ur_OldCertificateId = xc_oldCertificateId taskCert,
       ur_CertificatePublicKey = TrimSpace tw fullchain, ur_CertificatePrivateKey = TrimSpace tw key,
       ur_ResourceTypes = types, ur_ResourceTypesRegions = regions,
       ur_ExpiringNotificationSwitch = 1, ur_Repeatable = False\<rparr>)"

definition update_work :: "'w tx_client \<Rightarrow> UpdateRequest \<Rightarrow> ('w, tx_error) work" where
  "update_work cl req w =
     (case tx_UpdateCertificateInstance cl req w of
        (w', None, elapsed) \<Rightarrow> (w', None, elapsed)
      | (w', Some e, elapsed) \<Rightarrow>
          (w', if e = SDKError ''FailedOperation.CertificateExists'' then None else Some e, elapsed))"

text \<open>The handler that \<open>makeReplaceHandler\<close> returns, with the deferred \<open>Done\<close> at its end.\<close>

definition replace_handler ::
    "(string \<Rightarrow> string) \<Rightarrow> 'w tx_client \<Rightarrow> (Key \<Rightarrow> bool \<times> (int \<Rightarrow> bool)) \<Rightarrow> TxcCertification handler_call \<Rightarrow>
     'w TencentCloudCertificateUpdater \<Rightarrow> 'w TencentCloudCertificateUpdater" where
  "replace_handler tw cl ctx call r =
     (if tu_panicked r then r
      else
        let taskCert = hc_handler call;
            c = ctx (xc_certDxKey taskCert) in
        (case Do (fst c) updateRetryCount
                (update_work cl (update_request tw taskCert (hc_fullchain call) (hc_key call))) (snd c) (tu_cloud r) of
           (w', err) \<Rightarrow>
             r\<lparr>tu_cloud := w',
               tu_taskErr := (case err of None \<Rightarrow> tu_taskErr r | Some e \<Rightarrow> tu_taskErr r @ [e]),
               tu_wg := tu_wg r - 1,
               tu_panicked := (tu_wg r - 1 < 0)\<rparr>))"

definition txc_deliver ::
    "(string \<Rightarrow> string) \<Rightarrow> 'w tx_client \<Rightarrow> (Key \<Rightarrow> bool \<times> (int \<Rightarrow> bool)) \<Rightarrow> 'w TencentCloudCertificateUpdater \<Rightarrow>
     Key \<times> certData \<Rightarrow> 'w TencentCloudCertificateUpdater" where
  "txc_deliver tw cl ctx r ev =
     (case dm_certs (tu_certDXDaemon r) (fst ev) of
        None \<Rightarrow> r
      | Some wc \<Rightarrow>
          (case watch_one (snd ev) wc of
             (wc', calls) \<Rightarrow>
               foldl (\<lambda>r call. replace_handler tw cl ctx call r)
                 (r\<lparr>tu_certDXDaemon := (tu_certDXDaemon r)\<lparr>dm_certs :=
                     (dm_certs (tu_certDXDaemon r))(fst ev \<mapsto> wc')\<rparr>\<rparr>) calls))"

datatype txc_outcome =
    TxcGet txc_error
  | UnsupportedMode string
  | TxcCancelled
  | TxcErrors "tx_error retry_error list"
  | TxcReplaced
  | TxcCrash

text \<open>\<open>cancelled\<close>: the select takes the case of the done context. When the counter is zero as well Go
  may take either case, so both values are possible then. The state is the one in which the select
  is decided: a change that is delivered after it has returned is not part of it. \<open>None\<close>: the
  select blocks.\<close>

definition WaitReplaceTask :: "bool \<Rightarrow> 'w TencentCloudCertificateUpdater \<Rightarrow> txc_outcome option" where
  "WaitReplaceTask cancelled r =
     (if tu_panicked r then Some TxcCrash
      else if cancelled then Some TxcCancelled
      else if tu_wg r = 0 then Some (if tu_taskErr r = [] then TxcReplaced else TxcErrors (tu_taskErr r))
      else None)"

text \<open>The outer \<open>None\<close>: listing the certificates does not end.\<close>

definition txc_InvokeCertificateUpdate where
  "txc_InvokeCertificateUpdate lw tw cl listCtx ctx events ctxDone r =
     (case GetCertificateToUpdate lw cl listCtx (tu_Certifications r) (tu_cloud r) of
        None \<Rightarrow> None
      | Some (w, Inl e) \<Rightarrow> Some (r\<lparr>tu_cloud := w\<rparr>, Some (TxcGet e))
      | Some (w, Inr (matchedCerts, missing)) \<Rightarrow>
          let r1 = AddReplaceTask lw (r\<lparr>tu_cloud := w, tu_Certifications := matchedCerts\<rparr>);
              mode = cc_Mode (cl_Common (dm_Config (tu_certDXDaemon r1)))
          in if mode \<noteq> CLIENT_MODE_HTTP \<and> mode \<noteq> CLIENT_MODE_GRPC then Some (r1, Some (UnsupportedMode mode))
             else let r2 = foldl (txc_deliver tw cl ctx) r1 events in
               (case WaitReplaceTask ctxDone r2 of
                  None \<Rightarrow> Some (r2, None)
                | Some out \<Rightarrow> Some (r2\<lparr>tu_certDXDaemon := daemon_Stop (tu_certDXDaemon r2)\<rparr>, Some out)))"

section \<open>The command\<close>

datatype txc_init_error =
    TxcInvalidConfig "string + client_error list"
  | TxcLoad string
  | CreateTxClient string

definition InitCertDX ::
    "(string \<Rightarrow> duration option) \<Rightarrow> (string \<Rightarrow> bool) \<Rightarrow> (string \<Rightarrow> ClientConfig \<Rightarrow> string + ClientConfig) \<Rightarrow>
     ClientConfig \<Rightarrow> string \<Rightarrow> txc_init_error + TxcCertification CertDXClientDaemon" where
  "InitCertDX parse exists load zero confPath =
     (case LoadConfigurationAndValidateOpt parse exists (load confPath)
             [WithAcceptEmptyCertificateSavePath True, WithAcceptEmptyCertificatesList False]
             (MakeCertDXClientDaemon zero) of
        (d, Inl e) \<Rightarrow> Inl (TxcInvalidConfig (Inl e))
      | (d, Inr errs) \<Rightarrow> if errs \<noteq> [] then Inl (TxcInvalidConfig (Inr errs)) else Inr d)"

record TencentCloudConfig =
  xt_SecretID :: string
  xt_SecretKey :: string
  xt_Certifications :: "TxcCertification list"

text \<open>\<open>loadTx\<close> decodes the same file into the schema of the updater, \<open>newClient\<close> makes a client of the
  service from the credential.\<close>

definition InitTencentCloud ::
    "(string \<Rightarrow> string + TencentCloudConfig) \<Rightarrow> (string \<Rightarrow> string \<Rightarrow> string + 'w tx_client) \<Rightarrow> string \<Rightarrow>
     txc_init_error + TencentCloudConfig \<times> 'w tx_client" where
  "InitTencentCloud loadTx newClient confPath =
     (case loadTx confPath of
        Inl e \<Rightarrow> Inl (TxcLoad e)
      | Inr cfg \<Rightarrow>
          (case newClient (xt_SecretID cfg) (xt_SecretKey cfg) of
             Inl e \<Rightarrow> Inl (CreateTxClient e)
           | Inr c \<Rightarrow> Inr (cfg, c)))"

definition txc_InitCertificateUpdater where
  "txc_InitCertificateUpdater parse exists load zero loadTx newClient confPath w =
     (case InitCertDX parse exists load zero confPath of
        Inl e \<Rightarrow> Inl e
      | Inr d \<Rightarrow>
          (case InitTencentCloud loadTx newClient confPath of
             Inl e \<Rightarrow> Inl e
           | Inr (cfg, cl) \<Rightarrow>
               Inr (cl, \<lparr>tu_Certifications = xt_Certifications cfg, tu_wg = 0, tu_panicked = False, tu_taskErr = [],
                         tu_certDXDaemon = d, tu_cloud = w\<rparr>)))"

datatype txc_result =
    TxcFlags string
  | TxcHelp
  | TxcConfRequired
  | TxcInit txc_init_error
  | TxcDiverges
  | TxcRun "txc_outcome option"

text \<open>\<open>flags\<close> is what parsing the arguments gives: help, and the path of the configuration.\<close>

definition TencentCloudReplaceCertificate where
  "TencentCloudReplaceCertificate lw tw parse exists load zero loadTx newClient listCtx ctx events ctxDone w flags =
     (case flags of
        Inl e \<Rightarrow> TxcFlags e
      | Inr (help, confPath) \<Rightarrow>
          if help then TxcHelp
          else if confPath = [] then TxcConfRequired
          else (case txc_InitCertificateUpdater parse exists load zero loadTx newClient confPath w of
              Inl e \<Rightarrow> TxcInit e
            | Inr (cl, r) \<Rightarrow>
                (case txc_InvokeCertificateUpdate lw tw cl listCtx ctx events ctxDone r of
                   None \<Rightarrow> TxcDiverges
                 | Some (r', out) \<Rightarrow> TxcRun out)))"

section \<open>Lemmas\<close>

lemma contains_all_iff: "contains_all S b \<longleftrightarrow> set b \<subseteq> S"
  by (induction b) auto

lemma isSame_iff: "isSameStrSetIgnoringNil a b \<longleftrightarrow> length a = length b \<and> set b \<subseteq> set a"
  by (simp add: isSameStrSetIgnoringNil_def contains_all_iff)

text \<open>Without repetitions the comparison is equality of the sets.\<close>

lemma isSame_distinct:
  assumes "distinct a" "distinct b"
  shows "isSameStrSetIgnoringNil a b \<longleftrightarrow> set a = set b"
  unfolding isSame_iff using assms by (metis card_subset_eq distinct_card finite_set subset_refl)

lemma derefAll_map [simp]: "derefAll (map Some xs) = Some xs"
  by (induction xs) auto

lemma derefAll_Some: "derefAll a = Some xs \<longleftrightarrow> a = map Some xs"
proof
  show "derefAll a = Some xs \<Longrightarrow> a = map Some xs"
    by (induction a arbitrary: xs) (auto split: option.splits)
qed simp

lemma page_work_success:
  assumes "page_work cl ex off st = (t, None, el)"
  shows "\<exists>fetched nm w w' certs. st = (fetched, nm, w) \<and>
    tx_DescribeCertificates cl ex off pageSize w = (w', Inr certs, el) \<and> t = (fetched @ certs, certs = [], w')"
  using assms by (auto simp: page_work_def split: prod.splits sum.splits)

lemma page_work_failure:
  "page_work cl ex off (fetched, nm, w) = (st, Some e, el) \<Longrightarrow> \<exists>w'. st = (fetched, nm, w')"
  by (auto simp: page_work_def split: prod.splits sum.splits)

text \<open>One page: whatever the retries, a success appends the page once.\<close>

lemma Do_page:
  assumes "Do done n (page_work cl ex off) fires (fetched, nm, w) = (t, None)"
  shows "\<exists>w0 w' certs el. tx_DescribeCertificates cl ex off pageSize w0 = (w', Inr certs, el) \<and>
    t = (fetched @ certs, certs = [], w')"
proof -
  have "Do_loop n (page_work cl ex off) fires 0 (fetched, nm, w) = (t, None)"
    using assms by (auto simp: Do_def split: if_splits)
  then have "\<exists>st el. (\<exists>w. st = (fetched, nm, w)) \<and> page_work cl ex off st = (t, None, el)"
    by (rule Do_loop_last) (auto dest: page_work_failure)
  then show ?thesis by (auto dest!: page_work_success)
qed

text \<open>A service that lists \<open>all\<close>: a successful answer is the page at the offset.\<close>

definition lists :: "'w tx_client \<Rightarrow> bool \<Rightarrow> Certificates option list \<Rightarrow> bool" where
  "lists cl ex all \<longleftrightarrow>
     (\<forall>off w w' certs el. tx_DescribeCertificates cl ex off pageSize w = (w', Inr certs, el) \<longrightarrow>
        certs = take 100 (drop (unat off) all))"

definition never_fails :: "'w tx_client \<Rightarrow> bool \<Rightarrow> (64 word \<Rightarrow> bool \<times> (int \<Rightarrow> bool)) \<Rightarrow> bool" where
  "never_fails cl ex ctx \<longleftrightarrow>
     (\<forall>off. \<not> fst (ctx off)) \<and> (\<forall>off w. \<not> isl (fst (snd (tx_DescribeCertificates cl ex off pageSize w))))"

lemma Do_page_never_fails:
  assumes "never_fails cl ex ctx"
  shows "snd (Do (fst (ctx off)) n (page_work cl ex off) fires (fetched, nm, w)) = None"
proof -
  obtain w' certs el where "tx_DescribeCertificates cl ex off pageSize w = (w', Inr certs, el)"
    using assms by (auto simp: never_fails_def)
      (metis isl_def sum.collapse(2) prod.collapse fst_conv snd_conv)
  then show ?thesis
    using assms by (simp add: never_fails_def Do_def Do_loop.simps page_work_def)
qed

lemma unat_of_nat_64: "m < 2 ^ 64 \<Longrightarrow> unat (of_nat m :: 64 word) = m"
  by (simp add: unat_of_nat take_bit_nat_eq_self)

lemma unat_offset:
  assumes "length all + 100 < 2 ^ 64" "100 * k \<le> length all + 99"
  shows "unat (of_nat (100 * k) :: 64 word) = 100 * k"
  using assms by (intro unat_of_nat_64) simp

lemma fetch_loop_total:
  assumes l: "lists cl ex all" and n: "length all + 100 < 2 ^ 64" and k: "100 * k \<le> length all + 99"
  shows "\<exists>w' r. fetch_loop cl ex ctx (of_nat (100 * k)) (take (100 * k) all) w = Some (w', r) \<and>
    (r = Inr all \<or> (\<exists>e. r = Inl (ListCertificates e)) \<and> \<not> never_fails cl ex ctx)"
  using k
proof (induction "length all + 100 - 100 * k" arbitrary: k w rule: less_induct)
  case less
  let ?off = "of_nat (100 * k) :: 64 word"
  obtain t err where d: "Do (fst (ctx ?off)) describeRetryCount (page_work cl ex ?off) (snd (ctx ?off))
      (take (100 * k) all, False, w) = (t, err)"
    by fastforce
  show ?case
  proof (cases err)
    case (Some e)
    then have "\<not> never_fails cl ex ctx"
      using Do_page_never_fails [of cl ex ctx ?off describeRetryCount "snd (ctx ?off)" "take (100 * k) all" False w]
      unfolding d by auto
    then show ?thesis
      using d Some by (subst fetch_loop.simps) (auto split: prod.splits)
  next
    case None
    then obtain w0 w' certs el where p: "tx_DescribeCertificates cl ex ?off pageSize w0 = (w', Inr certs, el)"
        "t = (take (100 * k) all @ certs, certs = [], w')"
      using Do_page [OF d [unfolded None]] by blast
    have certs: "certs = take 100 (drop (100 * k) all)"
      using l p(1) unat_offset [OF n less.prems] unfolding lists_def by metis
    have next': "take (100 * k) all @ certs = take (100 * Suc k) all"
      by (simp add: certs take_add [symmetric] add.commute)
    show ?thesis
    proof (cases "certs = []")
      case True
      then have "take (100 * k) all = all" using certs by simp
      then show ?thesis using True d None p(2) by (subst fetch_loop.simps) simp
    next
      case False
      then have lt: "100 * k < length all" using certs by auto
      have off: "?off + pageSize = of_nat (100 * Suc k)" by (simp add: pageSize_def)
      have rec: "fetch_loop cl ex ctx ?off (take (100 * k) all) w =
          fetch_loop cl ex ctx (of_nat (100 * Suc k)) (take (100 * Suc k) all) w'"
        using False d None p(2) unfolding off [symmetric] next' [symmetric] by (subst fetch_loop.simps) simp
      show ?thesis unfolding rec
        by (rule less.hyps) (use lt in auto)
    qed
  qed
qed

subsection \<open>The choice\<close>

text \<open>Another certificate with the same names.\<close>

definition other_same :: "Certificates \<Rightarrow> Certificates \<Rightarrow> bool" where
  "other_same ac cert \<longleftrightarrow>
     \<not> (ct_CertificateId ac \<noteq> None \<and> ct_CertificateId ac = ct_CertificateId cert) \<and>
     isSameStrSetRejectNilItemPtrArrPtrArr (ct_CertSANs ac) (ct_CertSANs cert)"

lemma no_activating_iff:
  "isActivatingCertificateExists acs cert = Inr None \<longleftrightarrow> (\<forall>a \<in> set acs. \<exists>ac. a = Some ac \<and> \<not> other_same ac cert)"
proof (induction acs)
  case (Cons a acs)
  then show ?case by (cases a) (auto simp: other_same_def)
qed simp

definition to_replace :: "(string \<Rightarrow> string) \<Rightarrow> TxcCertification list \<Rightarrow> Certificates option list \<Rightarrow> Certificates option \<Rightarrow>
    TxcCertification list" where
  "to_replace lw cs act e =
     (case e of None \<Rightarrow> [] | Some ec \<Rightarrow>
        (case ct_CertificateId ec of None \<Rightarrow> [] | Some i \<Rightarrow>
           if isActivatingCertificateExists act ec = Inr None then match_certs lw i (ct_CertSANs ec) cs else []))"

lemma match_loop_eq:
  "match_loop lw cs act es acc = Inr m \<Longrightarrow> m = acc @ concat (map (to_replace lw cs act) es)"
proof (induction es arbitrary: acc)
  case (Cons e es)
  from Cons.prems have "match_loop lw cs act es (acc @ to_replace lw cs act e) = Inr m"
    by (auto simp: to_replace_def split: option.splits sum.splits if_splits)
  from Cons.IH [OF this] show ?case by simp
qed simp

subsection \<open>Counting\<close>

text \<open>The updates of one bundle, and the number of changes among them.\<close>

definition updates_of :: "Key \<Rightarrow> (Key \<times> certData) list \<Rightarrow> certData list" where
  "updates_of k es = map snd (filter (\<lambda>e. fst e = k) es)"

definition changes :: "Key \<Rightarrow> (Key \<times> certData) list \<Rightarrow> nat" where
  "changes k es = length (remdups_adj (([], []) # map material (updates_of k es))) - 1"

fun call_count :: "(Key \<rightharpoonup> 'h watchingCert) \<Rightarrow> (Key \<times> certData) list \<Rightarrow> nat" where
  "call_count m [] = 0"
| "call_count m ((k, d) # es) =
     (case m k of
        None \<Rightarrow> call_count m es
      | Some wc \<Rightarrow> length (snd (watch_one d wc)) + call_count (m(k \<mapsto> fst (watch_one d wc))) es)"

definition watched_calls :: "(Key \<rightharpoonup> 'h watchingCert) \<Rightarrow> (Key \<times> certData) list \<Rightarrow> Key \<Rightarrow> nat" where
  "watched_calls m es k = (case m k of None \<Rightarrow> 0 | Some wc \<Rightarrow> length (snd (watchUpdate (updates_of k es) wc)))"

lemma watched_calls_Cons:
  "watched_calls m ((k', d) # es) k =
     (case m k of
        None \<Rightarrow> 0
      | Some wc \<Rightarrow> if k = k' then length (snd (watch_one d wc)) + watched_calls (m(k \<mapsto> fst (watch_one d wc))) es k
                   else watched_calls m es k)"
  by (auto simp: watched_calls_def updates_of_def case_prod_beta Let_def split: option.splits)

lemma call_count_sum:
  assumes "finite K" "dom m \<subseteq> K"
  shows "call_count m es = sum (watched_calls m es) K"
  using assms(2)
proof (induction m es rule: call_count.induct)
  case (1 m)
  have "watched_calls m [] k = 0" for k
    by (simp add: watched_calls_def updates_of_def split: option.splits)
  then show ?case by simp
next
  case (2 m k d es)
  show ?case
  proof (cases "m k")
    case None
    then have "watched_calls m ((k, d) # es) = watched_calls m es"
      by (auto simp: fun_eq_iff watched_calls_def updates_of_def split: option.splits)
    then show ?thesis using 2 None by simp
  next
    case (Some wc)
    let ?m = "m(k \<mapsto> fst (watch_one d wc))"
    have k: "k \<in> K" and dom: "dom ?m \<subseteq> K" using 2(3) Some by auto
    have "sum (watched_calls m ((k, d) # es)) K =
        watched_calls m ((k, d) # es) k + sum (watched_calls m ((k, d) # es)) (K - {k})"
      using assms(1) k by (simp add: sum.remove)
    also have "sum (watched_calls m ((k, d) # es)) (K - {k}) = sum (watched_calls ?m es) (K - {k})"
      by (rule sum.cong) (auto simp: watched_calls_def updates_of_def split: option.splits)
    also have "watched_calls m ((k, d) # es) k = length (snd (watch_one d wc)) + watched_calls ?m es k"
      using Some by (simp add: watched_calls_Cons)
    finally show ?thesis
      using 2(2) [OF Some dom] Some assms(1) k by (simp add: sum.remove del: fun_upd_apply)
  qed
qed

text \<open>A wait group that counts the calls of the handlers.\<close>

lemma replace_handler_frame:
  "tu_certDXDaemon (replace_handler tw cl ctx call r) = tu_certDXDaemon r"
  "tu_wg (replace_handler tw cl ctx call r) = (if tu_panicked r then tu_wg r else tu_wg r - 1)"
  "tu_panicked (replace_handler tw cl ctx call r) \<longleftrightarrow> tu_panicked r \<or> tu_wg r - 1 < 0"
  by (auto simp: replace_handler_def Let_def split: prod.splits)

definition counts :: "int \<Rightarrow> nat \<Rightarrow> 'w TencentCloudCertificateUpdater \<Rightarrow> bool" where
  "counts n c r \<longleftrightarrow> (if tu_panicked r then n < int c else tu_wg r = n - int c \<and> int c \<le> n)"

lemma counts_handlers:
  "counts n c r \<Longrightarrow> counts n (c + length calls) (foldl (\<lambda>r call. replace_handler tw cl ctx call r) r calls) \<and>
     tu_certDXDaemon (foldl (\<lambda>r call. replace_handler tw cl ctx call r) r calls) = tu_certDXDaemon r"
proof (induction calls arbitrary: r c)
  case (Cons call calls)
  have "counts n (c + 1) (replace_handler tw cl ctx call r)"
    using Cons.prems by (auto simp: counts_def replace_handler_frame split: if_splits)
  from Cons.IH [OF this] show ?case by (simp add: replace_handler_frame)
qed simp

lemma counts_deliveries:
  "counts n c r \<Longrightarrow> counts n (c + call_count (dm_certs (tu_certDXDaemon r)) es) (foldl (txc_deliver tw cl ctx) r es)"
proof (induction es arbitrary: r c)
  case (Cons e es)
  obtain k d where e: "e = (k, d)" by (cases e)
  show ?case
  proof (cases "dm_certs (tu_certDXDaemon r) k")
    case None
    then show ?thesis using Cons e by (simp add: txc_deliver_def)
  next
    case (Some wc)
    let ?m = "(dm_certs (tu_certDXDaemon r))(k \<mapsto> fst (watch_one d wc))"
    let ?r = "r\<lparr>tu_certDXDaemon := (tu_certDXDaemon r)\<lparr>dm_certs := ?m\<rparr>\<rparr>"
    let ?calls = "snd (watch_one d wc)"
    have r': "txc_deliver tw cl ctx r e = foldl (\<lambda>r call. replace_handler tw cl ctx call r) ?r ?calls"
      by (simp add: txc_deliver_def e Some case_prod_beta)
    have "counts n c ?r" using Cons.prems by (simp add: counts_def)
    from counts_handlers [OF this, of ?calls tw cl ctx]
    have "counts n (c + length ?calls) (txc_deliver tw cl ctx r e)"
      "dm_certs (tu_certDXDaemon (txc_deliver tw cl ctx r e)) = ?m"
      by (simp_all add: r')
    from Cons.IH [OF this(1)] this(2) show ?thesis
      using Some by (simp add: e add.assoc)
  qed
qed simp

text \<open>The registration.\<close>

definition fresh_task :: "TxcCertification \<Rightarrow> TxcCertification watchingCert" where
  "fresh_task c =
     \<lparr>wc_Data = \<lparr>cd_Domains = xc_Domains c, cd_Fullchain = [], cd_Key = []\<rparr>,
      wc_Config = \<lparr>cf_Name = xc_Name c, cf_SavePath = [], cf_Domains = xc_Domains c, cf_ReloadCommand = []\<rparr>,
      wc_UpdateHandlers = [c]\<rparr>"

lemma add_tasks:
  "foldl (\<lambda>r taskCert.
         r\<lparr>tu_certDXDaemon := AddCertToWatchOpt lw (xc_Name taskCert) (xc_Domains taskCert)
             [WithCertificateHandlerOption taskCert] (tu_certDXDaemon r),
           tu_wg := tu_wg r + 1\<rparr>) r cs =
   r\<lparr>tu_wg := tu_wg r + int (length cs), tu_certDXDaemon := (tu_certDXDaemon r)\<lparr>dm_certs :=
       foldl (\<lambda>m c. m(AsKey lw (xc_Domains c) \<mapsto> fresh_task c)) (dm_certs (tu_certDXDaemon r)) cs\<rparr>\<rparr>"
  by (induction cs arbitrary: r)
    (simp_all add: AddCertToWatchOpt_def WithCertificateHandlerOption_def fresh_task_def Let_def)

lemma watched_calls_fresh: "m k = Some (fresh_task c) \<Longrightarrow> watched_calls m es k = changes k es"
  using watchUpdate_spec [of "updates_of k es" "fresh_task c"]
  by (simp add: watched_calls_def changes_def notify_def fresh_task_def length_concat case_prod_beta
      comp_def sum_list_triv material_def)

definition bundles :: "(string \<Rightarrow> string) \<Rightarrow> TxcCertification list \<Rightarrow> Key set" where
  "bundles lw cs = (\<lambda>c. AsKey lw (xc_Domains c)) ` set cs"

lemma registered_counts:
  assumes "dm_certs (tu_certDXDaemon r) = Map.empty" "tu_wg r = 0" "\<not> tu_panicked r"
  shows "counts (int (length (tu_Certifications r))) 0 (AddReplaceTask lw r) \<and>
    call_count (dm_certs (tu_certDXDaemon (AddReplaceTask lw r))) es =
      (\<Sum>k \<in> bundles lw (tu_Certifications r). changes k es)"
proof -
  let ?m = "dm_certs (tu_certDXDaemon (AddReplaceTask lw r))"
  have m: "?m k = (case filter (\<lambda>c. AsKey lw (xc_Domains c) = k) (tu_Certifications r) of
      [] \<Rightarrow> None | ys \<Rightarrow> Some (fresh_task (last ys)))" for k
    unfolding AddReplaceTask_def add_tasks using assms(1) by (simp add: foldl_upd_at split: list.splits)
  have mem: "\<exists>c. ?m k = Some (fresh_task c)" if "k \<in> bundles lw (tu_Certifications r)" for k
  proof -
    have "filter (\<lambda>c. AsKey lw (xc_Domains c) = k) (tu_Certifications r) \<noteq> []"
      using that by (auto simp: bundles_def filter_empty_conv)
    then show ?thesis unfolding m by (auto split: list.splits)
  qed
  have "k \<in> bundles lw (tu_Certifications r)" if "?m k \<noteq> None" for k
  proof -
    have "filter (\<lambda>c. AsKey lw (xc_Domains c) = k) (tu_Certifications r) \<noteq> []"
      using that unfolding m by (auto split: list.splits)
    then show ?thesis by (auto simp: bundles_def filter_empty_conv)
  qed
  then have dom: "dom ?m \<subseteq> bundles lw (tu_Certifications r)" by blast
  have "call_count ?m es = sum (watched_calls ?m es) (bundles lw (tu_Certifications r))"
    by (rule call_count_sum [OF _ dom]) (simp add: bundles_def)
  also have "\<dots> = (\<Sum>k \<in> bundles lw (tu_Certifications r). changes k es)"
    using mem by (intro sum.cong) (auto intro: watched_calls_fresh)
  finally have "call_count ?m es = (\<Sum>k \<in> bundles lw (tu_Certifications r). changes k es)" .
  moreover have "counts (int (length (tu_Certifications r))) 0 (AddReplaceTask lw r)"
    unfolding AddReplaceTask_def add_tasks using assms(2,3) by (simp add: counts_def)
  ultimately show ?thesis by simp
qed

text \<open>The comparison of names on lists without nil pointers, and the certificates to replace.\<close>

lemma isSameRejectNil_iff:
  "isSameStrSetRejectNilItem a b \<longleftrightarrow> (\<exists>names. a = map Some names \<and> length names = length b \<and> set b \<subseteq> set names)"
  by (auto simp: isSameStrSetRejectNilItem_def isSame_iff derefAll_Some split: option.splits)

lemma other_same_iff:
  assumes "ct_CertificateId ec = Some i" "ct_CertSANs ec = map Some names"
  shows "other_same ac ec \<longleftrightarrow> ct_CertificateId ac \<noteq> Some i \<and>
    (\<exists>names'. ct_CertSANs ac = map Some names' \<and> length names' = length names \<and> set names \<subseteq> set names')"
  using assms by (auto simp: other_same_def isSameStrSetRejectNilItemPtrArrPtrArr_def isSame_iff derefAll_Some
      split: option.splits)

lemma to_replace_mem:
  "x \<in> set (to_replace lw configured certs e) \<longleftrightarrow>
    (\<exists>ec i c names. e = Some ec \<and> ct_CertificateId ec = Some i \<and> ct_CertSANs ec = map Some names \<and>
       c \<in> set configured \<and> length names = length (xc_Domains c) \<and> set (xc_Domains c) \<subseteq> set names \<and>
       (\<forall>a \<in> set certs. \<exists>ac. a = Some ac \<and> \<not> other_same ac ec) \<and>
       x = c\<lparr>xc_oldCertificateId := i, xc_certDxKey := AsKey lw (xc_Domains c)\<rparr>)"
proof (cases "\<exists>ec i. e = Some ec \<and> ct_CertificateId ec = Some i")
  case True
  then obtain ec i where e: "e = Some ec" "ct_CertificateId ec = Some i" by blast
  have "x \<in> set (to_replace lw configured certs e) \<longleftrightarrow>
      (\<forall>a \<in> set certs. \<exists>ac. a = Some ac \<and> \<not> other_same ac ec) \<and>
      (\<exists>c. x = c\<lparr>xc_oldCertificateId := i, xc_certDxKey := AsKey lw (xc_Domains c)\<rparr> \<and> c \<in> set configured \<and>
         isSameStrSetRejectNilItem (ct_CertSANs ec) (xc_Domains c))"
    by (auto simp: to_replace_def e match_certs_def no_activating_iff)
  then show ?thesis unfolding isSameRejectNil_iff by (simp add: e) blast
next
  case False
  then show ?thesis by (auto simp: to_replace_def split: option.splits)
qed

section \<open>Properties\<close>

text \<open>
  C23: Listing the certificates ends: for a service whose successful answers are the pages of some
  list of certificates, the loop over the pages returns, whatever attempts fail, and it returns
  either every certificate of the list, once and in order, or the error of a page that failed
  through all its retries; when no attempt fails it returns the whole list.
\<close>

theorem fetch_terminates:
  assumes "\<And>off w w' certs el. tx_DescribeCertificates cl ex off pageSize w = (w', Inr certs, el) \<Longrightarrow>
      certs = take 100 (drop (unat off) all)"
    and "length all + 100 < 2 ^ 64"
  shows "\<exists>w' r. FetchTencentCloudCertificate cl ex ctx w = Some (w', r) \<and>
    (r = Inr all \<or> (\<exists>e. r = Inl (ListCertificates e)) \<and> \<not> never_fails cl ex ctx)"
proof -
  have "lists cl ex all" using assms(1) by (auto simp: lists_def)
  then show ?thesis
    using fetch_loop_total [of cl ex all 0 ctx w] assms(2) by (simp add: FetchTencentCloudCertificate_def)
qed

text \<open>
  C35: What is replaced: when the choice succeeds, a configured certificate is paired with an expiring
  certificate of the cloud exactly when their names agree, the expiring one has an id, and no other
  certificate of the cloud has the same names. So of two uploads with the same names neither is
  ever replaced, even when both expire.
\<close>

theorem txc_replaces_exactly:
  assumes expiring: "FetchTencentCloudCertificate cl True (ctx True) w = Some (w1, Inr exps)"
    and all: "FetchTencentCloudCertificate cl False (ctx False) w1 = Some (w2, Inr certs)"
    and got: "GetCertificateToUpdate lw cl ctx configured w = Some (w3, Inr (matched, missing))"
  shows "x \<in> set matched \<longleftrightarrow>
    (\<exists>ec i c names. Some ec \<in> set exps \<and> ct_CertificateId ec = Some i \<and> ct_CertSANs ec = map Some names \<and>
       c \<in> set configured \<and> length names = length (xc_Domains c) \<and> set (xc_Domains c) \<subseteq> set names \<and>
       (\<forall>a \<in> set certs. \<exists>ac. a = Some ac \<and>
          (ct_CertificateId ac = Some i \<or>
           (\<nexists>names'. ct_CertSANs ac = map Some names' \<and> length names' = length names \<and> set names \<subseteq> set names'))) \<and>
       x = c\<lparr>xc_oldCertificateId := i, xc_certDxKey := AsKey lw (xc_Domains c)\<rparr>)"
proof -
  have "match_loop lw configured certs exps [] = Inr matched"
    using got expiring all by (auto simp: GetCertificateToUpdate_def split: sum.splits)
  then have m: "matched = concat (map (to_replace lw configured certs) exps)"
    using match_loop_eq by fastforce
  let ?lone = "\<lambda>i names. \<forall>a \<in> set certs. \<exists>ac. a = Some ac \<and> (ct_CertificateId ac = Some i \<or>
      (\<nexists>names'. ct_CertSANs ac = map Some names' \<and> length names' = length names \<and> set names \<subseteq> set names'))"
  have lone: "(\<forall>a \<in> set certs. \<exists>ac. a = Some ac \<and> \<not> other_same ac ec) \<longleftrightarrow> ?lone i names"
    if "ct_CertificateId ec = Some i" "ct_CertSANs ec = map Some names" for ec i names
    by (simp only: other_same_iff [OF that] de_Morgan_conj not_not)
  have "x \<in> set matched \<longleftrightarrow> (\<exists>e \<in> set exps. x \<in> set (to_replace lw configured certs e))"
    by (simp add: m)
  also have "\<dots> \<longleftrightarrow> (\<exists>ec i c names. Some ec \<in> set exps \<and> ct_CertificateId ec = Some i \<and> ct_CertSANs ec = map Some names \<and>
       c \<in> set configured \<and> length names = length (xc_Domains c) \<and> set (xc_Domains c) \<subseteq> set names \<and>
       (\<forall>a \<in> set certs. \<exists>ac. a = Some ac \<and> \<not> other_same ac ec) \<and>
       x = c\<lparr>xc_oldCertificateId := i, xc_certDxKey := AsKey lw (xc_Domains c)\<rparr>)"
    unfolding Bex_def to_replace_mem by blast
  finally show ?thesis by (simp only: lone cong: conj_cong)
qed

text \<open>
  C36: The wait group of the updater counts the changes that the daemon reports, not the tasks: the
  wait ends, with no error of its own, exactly when the number of changes of the watched bundles
  equals the number of tasks, and the command crashes when there are more, in both cases of the changes
  reported before the select is decided. A second change of one bundle thus stands in for another
  bundle that was never replaced.
\<close>

theorem txc_wait_counts_changes:
  assumes "dm_certs (tu_certDXDaemon r) = Map.empty" "tu_wg r = 0" "\<not> tu_panicked r"
    and "r2 = foldl (txc_deliver tw cl ctx) (AddReplaceTask lw r) events"
    and "n = (\<Sum>k \<in> bundles lw (tu_Certifications r). changes k events)"
  shows "(WaitReplaceTask False r2 = None \<longleftrightarrow> n < length (tu_Certifications r)) \<and>
    (WaitReplaceTask False r2 = Some (if tu_taskErr r2 = [] then TxcReplaced else TxcErrors (tu_taskErr r2)) \<longleftrightarrow>
      n = length (tu_Certifications r)) \<and>
    (WaitReplaceTask False r2 = Some TxcCrash \<longleftrightarrow> length (tu_Certifications r) < n)"
proof -
  have c: "counts (int (length (tu_Certifications r))) 0 (AddReplaceTask lw r)"
    "call_count (dm_certs (tu_certDXDaemon (AddReplaceTask lw r))) events = n"
    using registered_counts [OF assms(1-3)] assms(5) by simp_all
  have "counts (int (length (tu_Certifications r))) n r2"
    using counts_deliveries [OF c(1), of events tw cl ctx] assms(4) c(2) by simp
  then show ?thesis
    by (auto simp: counts_def WaitReplaceTask_def split: if_splits)
qed

text \<open>A cloud with one certificate that expires, and a service that answers with the pages of it.\<close>

definition ex_cert :: Certificates where
  "ex_cert = \<lparr>ct_CertificateId = Some ''id1'', ct_CertSANs = [Some ''b'', Some ''a'']\<rparr>"

definition ex_client :: "unit tx_client" where
  "ex_client = \<lparr>tx_DescribeCertificates = (\<lambda>_ off _ w. (w, Inr (take 100 (drop (unat off) [Some ex_cert])), 0)),
     tx_UpdateCertificateInstance = (\<lambda>_ w. (w, None, 0))\<rparr>"

definition ex_task :: "string \<Rightarrow> string list \<Rightarrow> TxcCertification" where
  "ex_task n ds = \<lparr>xc_Name = n, xc_Domains = ds, xc_ResourceTypes = [''cdn''], xc_ResourceTypesRegions = [],
     xc_certDxKey = 0, xc_oldCertificateId = []\<rparr>"

abbreviation ex_ctx :: "64 word \<Rightarrow> bool \<times> (int \<Rightarrow> bool)" where
  "ex_ctx \<equiv> \<lambda>_. (False, \<lambda>_. False)"

theorem fetch_terminates_witness:
  "\<exists>w' r. FetchTencentCloudCertificate ex_client True ex_ctx () = Some (w', r) \<and>
    (r = Inr [Some ex_cert] \<or> (\<exists>e. r = Inl (ListCertificates e)) \<and> \<not> never_fails ex_client True ex_ctx)"
  by (rule fetch_terminates) (simp_all add: ex_client_def)

lemma ex_fetch: "FetchTencentCloudCertificate ex_client b ex_ctx () = Some ((), Inr [Some ex_cert])"
proof -
  have "lists ex_client b [Some ex_cert]" "never_fails ex_client b ex_ctx"
    by (simp_all add: lists_def never_fails_def ex_client_def)
  then show ?thesis
    using fetch_loop_total [of ex_client b "[Some ex_cert]" 0 ex_ctx "()"] by (simp add: FetchTencentCloudCertificate_def)
qed

theorem txc_replaces_exactly_witness:
  "\<exists>matched missing. GetCertificateToUpdate id ex_client (\<lambda>_. ex_ctx) [ex_task ''x'' [''a'', ''b''], ex_task ''y'' [''c'']] () =
      Some ((), Inr (matched, missing)) \<and>
    (ex_task ''x'' [''a'', ''b''])\<lparr>xc_oldCertificateId := ''id1'', xc_certDxKey := AsKey id [''a'', ''b'']\<rparr> \<in> set matched"
proof -
  let ?cs = "[ex_task ''x'' [''a'', ''b''], ex_task ''y'' [''c'']]"
  let ?m = "[(ex_task ''x'' [''a'', ''b''])\<lparr>xc_oldCertificateId := ''id1'', xc_certDxKey := AsKey id [''a'', ''b'']\<rparr>]"
  have got: "GetCertificateToUpdate id ex_client (\<lambda>_. ex_ctx) ?cs () = Some ((), Inr (?m, logMissingCerts ?cs ?m))"
    by (simp add: GetCertificateToUpdate_def ex_fetch ex_cert_def match_certs_def isSameStrSetRejectNilItem_def
        isSame_iff ex_task_def)
  have "?m ! 0 \<in> set ?m"
    unfolding txc_replaces_exactly [of ex_client "\<lambda>_. ex_ctx" "()", OF ex_fetch ex_fetch got]
    by (rule exI [of _ ex_cert], rule exI [of _ "''id1''"], rule exI [of _ "ex_task ''x'' [''a'', ''b'']"],
        rule exI [of _ "[''b'', ''a'']"]) (simp add: ex_cert_def ex_task_def)
  then show ?thesis using got by auto
qed

text \<open>Two tasks; the first bundle changes twice, the second never: the wait reports success.\<close>

definition ex_updater :: "unit TencentCloudCertificateUpdater" where
  "ex_updater = \<lparr>tu_Certifications = [ex_task ''x'' [''a''], ex_task ''y'' [''c'']], tu_wg = 0, tu_panicked = False,
     tu_taskErr = [], tu_certDXDaemon = \<lparr>dm_Config = example_client_config, dm_certs = Map.empty, dm_stopped = False\<rparr>,
     tu_cloud = ()\<rparr>"

definition ex_events :: "(Key \<times> certData) list" where
  "ex_events = map (\<lambda>v. (AsKey id [''a''], \<lparr>cd_Domains = [''a''], cd_Fullchain = v, cd_Key = v\<rparr>)) [''1'', ''2'']"

theorem txc_wait_counts_changes_witness:
  "WaitReplaceTask False (foldl (txc_deliver id ex_client (\<lambda>_. (False, \<lambda>_. False))) (AddReplaceTask id ex_updater) ex_events)
     \<in> {Some TxcReplaced} \<union> range (\<lambda>e. Some (TxcErrors e))"
proof -
  have ne: "AsKey id [''a''] \<noteq> AsKey id [''c'']" by code_simp
  have "(\<Sum>k \<in> bundles id (tu_Certifications ex_updater). changes k ex_events) = 2"
    using ne by (simp add: bundles_def ex_updater_def ex_task_def changes_def updates_of_def ex_events_def material_def)
  then show ?thesis
    using txc_wait_counts_changes [of ex_updater _ id ex_client "\<lambda>_. (False, \<lambda>_. False)" id ex_events, OF _ _ _ refl refl]
    by (auto simp: ex_updater_def)
qed

end
