(* ===== verification/Mtls_Tools.thy ===== *)
theory Mtls_Tools
  imports Acme Paths
begin

text \<open>
  \<open>pkg/tools/cert.go\<close>, which makes the private CA and the certificates it signs for mutual TLS, and
  \<open>pkg/mtls/mtls.go\<close>, which loads the bundles. The text of a PEM file is identified with its blocks
  and the serial counter's file with its number. The cryptographic operations are a parameter; a
  signed certificate is what \<open>mk_Create\<close> makes of a template, its parent and a key.
\<close>

section \<open>Data\<close>

datatype pemBlock = PemBlock (pb_typ: string) (pb_bytes: bytes)

datatype tool_file = PemFile "pemBlock list" | CounterFile int | OtherFile

type_synonym tool_fs = "string \<rightharpoonup> tool_file"

datatype ext_key_usage = ServerAuth | ClientAuth

record tool_template =
  tt_SerialNumber :: int
  tt_Organization :: "string list"
  tt_CommonName :: string
  tt_DNSNames :: "string list"
  tt_IPAddresses :: "bytes list"
  tt_NotBefore :: time
  tt_NotAfter :: time
  tt_IsCA :: bool
  tt_ExtKeyUsage :: "ext_key_usage list"
  tt_SubjectKeyId :: bytes

record 'k tool_crypto =
  mk_GenerateKey :: "string + 'k"
  mk_SubjectKeyID :: "'k \<Rightarrow> string + bytes"
  mk_Create :: "tool_template \<Rightarrow> bytes option \<Rightarrow> 'k \<Rightarrow> 'k \<Rightarrow> string + bytes"
    \<comment> \<open>template, raw parent (none when self-signed), the certified key, the signing key\<close>
  mk_MarshalKey :: "'k \<Rightarrow> string + bytes"
  mk_ParseCert :: "bytes \<Rightarrow> string + bytes"        \<comment> \<open>the raw certificate\<close>
  mk_ParseKey :: "pemBlock \<Rightarrow> string + 'k"
  mk_ParseIP :: "string \<Rightarrow> bytes option"
  mk_now :: time

text \<open>January 1, 2100.\<close>

definition ca_NotAfter :: time where
  "ca_NotAfter = 766644 * 24 * Hour"

datatype tool_error =
    ToolPath string
  | AlreadyExists string
  | ToolCrypto string
  | WriteBundle
  | WriteCounter
  | ReadCA
  | ReadCounter
  | NoCertBlock
  | NoKeyBlock
  | InvalidCounter
  | ReservedName string

section \<open>Bundles\<close>

text \<open>The file after writing; a failed write is reported and leaves the file as it was or damaged.\<close>

definition writeBundle :: "bool \<Rightarrow> string \<Rightarrow> pemBlock list \<Rightarrow> tool_fs \<Rightarrow> tool_fs \<times> tool_error option" where
  "writeBundle fails path blocks fs =
     (if fails then (fs(path \<mapsto> OtherFile), Some WriteBundle) else (fs(path \<mapsto> PemFile blocks), None))"

definition is_key_type :: "string \<Rightarrow> bool" where
  "is_key_type t \<longleftrightarrow> t = ''PRIVATE KEY'' \<or> t = ''EC PRIVATE KEY'' \<or> t = ''RSA PRIVATE KEY''"

fun split_loop :: "pemBlock list \<Rightarrow> pemBlock option \<Rightarrow> pemBlock option \<Rightarrow> pemBlock option \<times> pemBlock option" where
  "split_loop [] certPEM keyPEM = (certPEM, keyPEM)"
| "split_loop (block # rest) certPEM keyPEM =
     (let certPEM' = (if pb_typ block = ''CERTIFICATE'' \<and> certPEM = None then Some block else certPEM);
          keyPEM' = (if is_key_type (pb_typ block) \<and> keyPEM = None then Some block else keyPEM)
      in if certPEM' \<noteq> None \<and> keyPEM' \<noteq> None then (certPEM', keyPEM')
         else split_loop rest certPEM' keyPEM')"

definition splitCertAndKeyPEM :: "pemBlock list \<Rightarrow> pemBlock option \<times> pemBlock option" where
  "splitCertAndKeyPEM data = split_loop data None None"

definition splitIPsAndDNS :: "(string \<Rightarrow> 'i option) \<Rightarrow> string list \<Rightarrow> string list \<times> 'i list" where
  "splitIPsAndDNS parseIP names = split_names parseIP names"

section \<open>The CA\<close>

record tool_state =
  ts_counter :: int            \<comment> \<open>the package variable\<close>
  ts_fs :: tool_fs

text \<open>Which of the two writes fails.\<close>

record write_faults =
  wf_bundle :: bool
  wf_counter :: bool

definition ca_template :: "'k tool_crypto \<Rightarrow> string \<Rightarrow> string \<Rightarrow> tool_template" where
  "ca_template cr organization commonName =
     \<lparr>tt_SerialNumber = 0, tt_Organization = [organization], tt_CommonName = commonName,
      tt_DNSNames = [], tt_IPAddresses = [], tt_NotBefore = Truncate (mk_now cr) (1 * Hour),
      tt_NotAfter = ca_NotAfter, tt_IsCA = True, tt_ExtKeyUsage = [], tt_SubjectKeyId = []\<rparr>"

definition MakeCA ::
    "'k tool_crypto \<Rightarrow> write_faults \<Rightarrow> os_env \<Rightarrow> string \<Rightarrow> string \<Rightarrow> tool_state \<Rightarrow> tool_state \<times> tool_error option" where
  "MakeCA cr flt os organization commonName s =
     (case (MtlsCAPath os, CACounterPath os) of
        (Inl e, _) \<Rightarrow> (s, Some (ToolPath e))
      | (_, Inl e) \<Rightarrow> (s, Some (ToolPath e))
      | (Inr caPath, Inr caCounterPath) \<Rightarrow>
          if ts_fs s caPath \<noteq> None then (s, Some (AlreadyExists caPath))
          else (case mk_GenerateKey cr of
              Inl e \<Rightarrow> (s, Some (ToolCrypto e))
            | Inr priv \<Rightarrow>
                let ca = ca_template cr organization commonName
                in (case mk_Create cr ca None priv priv of
                      Inl e \<Rightarrow> (s, Some (ToolCrypto e))
                    | Inr caBytes \<Rightarrow>
                        (case mk_MarshalKey cr priv of
                           Inl e \<Rightarrow> (s, Some (ToolCrypto e))
                         | Inr keyDER \<Rightarrow>
                             (case writeBundle (wf_bundle flt) caPath
                                     [PemBlock ''CERTIFICATE'' caBytes, PemBlock ''PRIVATE KEY'' keyDER] (ts_fs s) of
                                (fs1, Some e) \<Rightarrow> (s\<lparr>ts_fs := fs1\<rparr>, Some e)
                              | (fs1, None) \<Rightarrow>
                                  if wf_counter flt
                                  then (s\<lparr>ts_fs := fs1(caCounterPath \<mapsto> OtherFile)\<rparr>, Some WriteCounter)
                                  else (s\<lparr>ts_fs := fs1(caCounterPath \<mapsto> CounterFile (ts_counter s))\<rparr>, None))))))"

text \<open>The raw certificate and the key of the CA; the counter is set from its file.\<close>

definition loadCA :: "'k tool_crypto \<Rightarrow> os_env \<Rightarrow> tool_state \<Rightarrow> tool_state \<times> (tool_error + bytes \<times> 'k)" where
  "loadCA cr os s =
     (case (MtlsCAPath os, CACounterPath os) of
        (Inl e, _) \<Rightarrow> (s, Inl (ToolPath e))
      | (_, Inl e) \<Rightarrow> (s, Inl (ToolPath e))
      | (Inr caPath, Inr caCounterPath) \<Rightarrow>
          (case ts_fs s caPath of
             None \<Rightarrow> (s, Inl ReadCA)
           | Some bundle \<Rightarrow>
               (case ts_fs s caCounterPath of
                  None \<Rightarrow> (s, Inl ReadCounter)
                | Some cnt \<Rightarrow>
                    (case splitCertAndKeyPEM (case bundle of PemFile bs \<Rightarrow> bs | _ \<Rightarrow> []) of
                       (None, _) \<Rightarrow> (s, Inl NoCertBlock)
                     | (_, None) \<Rightarrow> (s, Inl NoKeyBlock)
                     | (Some certPEM, Some keyPEM) \<Rightarrow>
                         (case mk_ParseCert cr (pb_bytes certPEM) of
                            Inl e \<Rightarrow> (s, Inl (ToolCrypto e))
                          | Inr caPEM \<Rightarrow>
                              (case mk_ParseKey cr keyPEM of
                                 Inl e \<Rightarrow> (s, Inl (ToolCrypto e))
                               | Inr caKey \<Rightarrow>
                                   (case cnt of
                                      CounterFile n \<Rightarrow> (s\<lparr>ts_counter := n\<rparr>, Inr (caPEM, caKey))
                                    | _ \<Rightarrow> (s, Inl InvalidCounter))))))))"

definition leaf_template ::
    "'k tool_crypto \<Rightarrow> int \<Rightarrow> string \<Rightarrow> string \<Rightarrow> string list \<Rightarrow> ext_key_usage list \<Rightarrow> bytes \<Rightarrow> tool_template" where
  "leaf_template cr serial organization commonName domains extKeyUsage skid =
     (let (dnsNames, ipAddresses) = splitIPsAndDNS (mk_ParseIP cr) domains in
      \<lparr>tt_SerialNumber = serial, tt_Organization = [organization], tt_CommonName = commonName,
       tt_DNSNames = dnsNames, tt_IPAddresses = ipAddresses, tt_NotBefore = Truncate (mk_now cr) (1 * Hour),
       tt_NotAfter = ca_NotAfter, tt_IsCA = False, tt_ExtKeyUsage = extKeyUsage, tt_SubjectKeyId = skid\<rparr>)"

definition makeCert ::
    "'k tool_crypto \<Rightarrow> write_faults \<Rightarrow> os_env \<Rightarrow> string \<Rightarrow> string \<Rightarrow> string \<Rightarrow> string list \<Rightarrow> ext_key_usage list \<Rightarrow>
     tool_state \<Rightarrow> tool_state \<times> tool_error option" where
  "makeCert cr flt os bundlePath organization commonName domains extKeyUsage s =
     (case CACounterPath os of
        Inl e \<Rightarrow> (s, Some (ToolPath e))
      | Inr counterPath \<Rightarrow>
          if ts_fs s bundlePath \<noteq> None then (s, Some (AlreadyExists bundlePath))
          else (case loadCA cr os s of
              (s1, Inl e) \<Rightarrow> (s1, Some e)
            | (s1, Inr (caCert, caKey)) \<Rightarrow>
                (case mk_GenerateKey cr of
                   Inl e \<Rightarrow> (s1, Some (ToolCrypto e))
                 | Inr priv \<Rightarrow>
                     (case mk_SubjectKeyID cr priv of
                        Inl e \<Rightarrow> (s1, Some (ToolCrypto e))
                      | Inr skid \<Rightarrow>
                          (case mk_Create cr (leaf_template cr (ts_counter s1) organization commonName domains
                                   extKeyUsage skid) (Some caCert) priv caKey of
                             Inl e \<Rightarrow> (s1, Some (ToolCrypto e))
                           | Inr certBytes \<Rightarrow>
                               (case mk_MarshalKey cr priv of
                                  Inl e \<Rightarrow> (s1, Some (ToolCrypto e))
                                | Inr keyDER \<Rightarrow>
                                    (case writeBundle (wf_bundle flt) bundlePath
                                            [PemBlock ''CERTIFICATE'' certBytes, PemBlock ''PRIVATE KEY'' keyDER,
                                             PemBlock ''CERTIFICATE'' caCert] (ts_fs s1) of
                                       (fs1, Some e) \<Rightarrow> (s1\<lparr>ts_fs := fs1\<rparr>, Some e)
                                     | (fs1, None) \<Rightarrow>
                                         let n = ts_counter s1 + 1 in
                                         if wf_counter flt
                                         then (s1\<lparr>ts_counter := n, ts_fs := fs1(counterPath \<mapsto> OtherFile)\<rparr>, Some WriteCounter)
                                         else (s1\<lparr>ts_counter := n, ts_fs := fs1(counterPath \<mapsto> CounterFile n)\<rparr>, None)))))))) "

definition make_named ::
    "(string \<Rightarrow> string) \<Rightarrow> 'k tool_crypto \<Rightarrow> write_faults \<Rightarrow> os_env \<Rightarrow> ext_key_usage list \<Rightarrow> string \<Rightarrow> string \<Rightarrow> string \<Rightarrow>
     string list \<Rightarrow> tool_state \<Rightarrow> tool_state \<times> tool_error option" where
  "make_named tw cr flt os usage name organization commonName domains s =
     (if EqualFold_ascii (TrimSpace tw name) ''ca'' then (s, Some (ReservedName name))
      else (case MtlsBundlePath name os of
          Inl e \<Rightarrow> (s, Some (ToolPath e))
        | Inr bundlePath \<Rightarrow> makeCert cr flt os bundlePath organization commonName domains usage s))"

definition MakeServerCert ::
    "(string \<Rightarrow> string) \<Rightarrow> 'k tool_crypto \<Rightarrow> write_faults \<Rightarrow> os_env \<Rightarrow> string \<Rightarrow> string \<Rightarrow> string \<Rightarrow>
     string list \<Rightarrow> tool_state \<Rightarrow> tool_state \<times> tool_error option" where
  "MakeServerCert tw cr flt os name organization commonName domains s =
     make_named tw cr flt os [ServerAuth] name organization commonName domains s"

definition MakeClientCert ::
    "(string \<Rightarrow> string) \<Rightarrow> 'k tool_crypto \<Rightarrow> write_faults \<Rightarrow> os_env \<Rightarrow> string \<Rightarrow> string \<Rightarrow> string \<Rightarrow>
     string list \<Rightarrow> tool_state \<Rightarrow> tool_state \<times> tool_error option" where
  "MakeClientCert tw cr flt os name organization commonName domains s =
     make_named tw cr flt os [ClientAuth] name organization commonName domains s"

section \<open>Loading a bundle\<close>

text \<open>\<open>pair\<close> is \<open>tls.X509KeyPair\<close> on the blocks of the file: it takes the certificates in order, the
  first of which is the leaf, and the first key.\<close>

record 't tls_config =
  tc_Certificate :: 't
  tc_pool :: "bytes list"
  tc_requireClientCert :: bool

text \<open>\<open>AppendCertsFromPEM\<close> passes over a block that does not parse.\<close>

fun pool_loop :: "(bytes \<Rightarrow> bool) \<Rightarrow> pemBlock list \<Rightarrow> bool \<Rightarrow> bytes list" where
  "pool_loop parses [] first = []"
| "pool_loop parses (block # rest) first =
     (if pb_typ block \<noteq> ''CERTIFICATE'' then pool_loop parses rest first
      else if first then pool_loop parses rest False
      else if parses (pb_bytes block) then pb_bytes block # pool_loop parses rest False
      else pool_loop parses rest False)"

definition parseBundle ::
    "(bytes \<Rightarrow> bool) \<Rightarrow> (pemBlock list \<Rightarrow> string + 't) \<Rightarrow> string \<Rightarrow> tool_fs \<Rightarrow> string + 't \<times> bytes list" where
  "parseBundle parses pair path fs =
     (case fs path of
        None \<Rightarrow> Inl ''read''
      | Some f \<Rightarrow>
          let data = (case f of PemFile bs \<Rightarrow> bs | _ \<Rightarrow> []) in
          (case pair data of Inl e \<Rightarrow> Inl e | Inr cert \<Rightarrow> Inr (cert, pool_loop parses data True)))"

definition LoadServer :: "(bytes \<Rightarrow> bool) \<Rightarrow> (pemBlock list \<Rightarrow> string + 't) \<Rightarrow> string \<Rightarrow> tool_fs \<Rightarrow> string + 't tls_config" where
  "LoadServer parses pair bundlePath fs =
     (case parseBundle parses pair bundlePath fs of
        Inl e \<Rightarrow> Inl e
      | Inr (cert, pool) \<Rightarrow> Inr \<lparr>tc_Certificate = cert, tc_pool = pool, tc_requireClientCert = True\<rparr>)"

definition LoadClient :: "(bytes \<Rightarrow> bool) \<Rightarrow> (pemBlock list \<Rightarrow> string + 't) \<Rightarrow> string \<Rightarrow> tool_fs \<Rightarrow> string + 't tls_config" where
  "LoadClient parses pair bundlePath fs =
     (case parseBundle parses pair bundlePath fs of
        Inl e \<Rightarrow> Inl e
      | Inr (cert, pool) \<Rightarrow> Inr \<lparr>tc_Certificate = cert, tc_pool = pool, tc_requireClientCert = False\<rparr>)"

section \<open>Lemmas\<close>

text \<open>What the scan finds: the first block of each kind.\<close>

lemma split_loop_spec:
  "split_loop bs c k =
     ((case c of Some x \<Rightarrow> Some x | None \<Rightarrow> find (\<lambda>b. pb_typ b = ''CERTIFICATE'') bs),
      (case k of Some x \<Rightarrow> Some x | None \<Rightarrow> find (\<lambda>b. is_key_type (pb_typ b)) bs))"
  if "c = None \<or> k = None"
  using that
proof (induction bs arbitrary: c k)
  case (Cons b bs)
  have "\<not> (pb_typ b = ''CERTIFICATE'' \<and> is_key_type (pb_typ b))"
    by (auto simp: is_key_type_def)
  then show ?case
    using Cons by (auto simp: Let_def split: option.splits)
qed (auto split: option.splits)

lemma loadCA_ok:
  assumes "loadCA cr os s = (s1, Inr (caCert, caKey))" "CACounterPath os = Inr cp"
  shows "\<exists>n b. ts_fs s cp = Some (CounterFile n) \<and> s1 = s\<lparr>ts_counter := n\<rparr> \<and> mk_ParseCert cr b = Inr caCert \<and>
    MtlsCAPath os \<noteq> Inr cp"
  using assms
  by (auto simp: loadCA_def splitCertAndKeyPEM_def split: sum.splits option.splits prod.splits tool_file.splits)

lemma makeCert_ok:
  assumes "makeCert cr flt os bundlePath org cn domains usage s = (s', None)" "CACounterPath os = Inr cp"
  shows "\<exists>n caCert caKey priv skid der keyDER.
    loadCA cr os s = (s\<lparr>ts_counter := n\<rparr>, Inr (caCert, caKey)) \<and> ts_fs s cp = Some (CounterFile n) \<and>
    ts_fs s bundlePath = None \<and>
    mk_Create cr (leaf_template cr n org cn domains usage skid) (Some caCert) priv caKey = Inr der \<and>
    mk_MarshalKey cr priv = Inr keyDER \<and>
    s' = \<lparr>ts_counter = n + 1, ts_fs = (ts_fs s)(bundlePath \<mapsto> PemFile [PemBlock ''CERTIFICATE'' der,
      PemBlock ''PRIVATE KEY'' keyDER, PemBlock ''CERTIFICATE'' caCert], cp \<mapsto> CounterFile (n + 1))\<rparr>"
proof -
  obtain s1 caCert caKey where ca: "loadCA cr os s = (s1, Inr (caCert, caKey))" and new: "ts_fs s bundlePath = None"
    using assms by (auto simp: makeCert_def split: if_splits prod.splits sum.splits)
  obtain n where n: "ts_fs s cp = Some (CounterFile n)" "s1 = s\<lparr>ts_counter := n\<rparr>"
    using loadCA_ok [OF ca assms(2)] by blast
  obtain priv skid der keyDER where
    "mk_Create cr (leaf_template cr n org cn domains usage skid) (Some caCert) priv caKey = Inr der"
    "mk_MarshalKey cr priv = Inr keyDER"
    "s' = s1\<lparr>ts_counter := n + 1, ts_fs := (ts_fs s)(bundlePath \<mapsto> PemFile [PemBlock ''CERTIFICATE'' der,
      PemBlock ''PRIVATE KEY'' keyDER, PemBlock ''CERTIFICATE'' caCert], cp \<mapsto> CounterFile (n + 1))\<rparr>"
    using assms ca n new
    by (auto simp: makeCert_def writeBundle_def Let_def split: if_splits prod.splits sum.splits)
  then show ?thesis
    using ca n new by fastforce
qed

lemma MakeCA_ok:
  assumes "MakeCA cr flt os org cn s = (s', None)" "CACounterPath os = Inr cp" "MtlsCAPath os = Inr caPath"
  shows "\<exists>priv der keyDER. mk_Create cr (ca_template cr org cn) None priv priv = Inr der \<and> ts_fs s caPath = None \<and>
    s' = s\<lparr>ts_fs := (ts_fs s)(caPath \<mapsto> PemFile [PemBlock ''CERTIFICATE'' der, PemBlock ''PRIVATE KEY'' keyDER],
      cp \<mapsto> CounterFile (ts_counter s))\<rparr>"
  using assms
  by (auto simp: MakeCA_def writeBundle_def Let_def split: if_splits prod.splits sum.splits)

text \<open>What the two loaders make of a bundle.\<close>

lemma LoadServer_ok:
  "parseBundle parses pair path fs = Inr (cert, pool) \<Longrightarrow>
     \<exists>c. LoadServer parses pair path fs = Inr c \<and> tc_Certificate c = cert \<and> tc_pool c = pool \<and> tc_requireClientCert c"
  by (simp add: LoadServer_def)

lemma LoadClient_ok:
  "parseBundle parses pair path fs = Inr (cert, pool) \<Longrightarrow>
     \<exists>c. LoadClient parses pair path fs = Inr c \<and> tc_Certificate c = cert \<and> tc_pool c = pool"
  by (simp add: LoadClient_def)

section \<open>An example\<close>

text \<open>A toy signer and a data directory, for the examples.\<close>

definition ex_crypto :: "unit tool_crypto" where
  "ex_crypto = \<lparr>mk_GenerateKey = Inr (), mk_SubjectKeyID = (\<lambda>_. Inr ''s''),
     mk_Create = (\<lambda>t p k k'. Inr (if tt_IsCA t then ''a'' else ''l'')), mk_MarshalKey = (\<lambda>_. Inr ''k''),
     mk_ParseCert = Inr, mk_ParseKey = (\<lambda>_. Inr ()), mk_ParseIP = (\<lambda>d. if d = ''::1'' then Some ''1'' else None),
     mk_now = 0\<rparr>"

definition ex_os :: os_env where
  "ex_os = \<lparr>os_GOOS = ''linux'', os_Executable = None, os_EvalSymlinks = Some, os_MkdirAll = (\<lambda>_ _. None),
     os_Chmod = (\<lambda>_ _. None), os_dataDirOverride = ''/d''\<rparr>"

definition ex_no_faults :: write_faults where
  "ex_no_faults = \<lparr>wf_bundle = False, wf_counter = False\<rparr>"

definition ex_ca :: tool_state where
  "ex_ca = fst (MakeCA ex_crypto ex_no_faults ex_os ''O'' ''CN'' \<lparr>ts_counter = 0, ts_fs = Map.empty\<rparr>)"

definition ex_leaf :: "tool_state \<times> tool_error option" where
  "ex_leaf = makeCert ex_crypto ex_no_faults ex_os ''/d/mtls/srv.pem'' ''O'' ''srv'' [''a.b'', ''::1''] [ServerAuth] ex_ca"

lemma ex_paths:
  "MtlsCAPath ex_os = Inr ''/d/mtls/ca.pem''" "CACounterPath ex_os = Inr ''/d/mtls/counter.txt''"
  "MtlsBundlePath ''srv'' ex_os = Inr ''/d/mtls/srv.pem''"
  by code_simp+

lemma ex_MakeCA: "MakeCA ex_crypto ex_no_faults ex_os ''O'' ''CN'' \<lparr>ts_counter = 0, ts_fs = Map.empty\<rparr> = (ex_ca, None)"
  by (simp add: ex_ca_def MakeCA_def ex_paths ex_crypto_def ex_no_faults_def writeBundle_def)

lemma ex_makeCert: "makeCert ex_crypto ex_no_faults ex_os ''/d/mtls/srv.pem'' ''O'' ''srv'' [''a.b'', ''::1''] [ServerAuth] ex_ca =
    (fst ex_leaf, None)"
  by (simp add: ex_leaf_def makeCert_def loadCA_def splitCertAndKeyPEM_def is_key_type_def ex_ca_def MakeCA_def ex_paths
      ex_crypto_def ex_no_faults_def writeBundle_def Let_def)

section \<open>Properties\<close>

text \<open>
  A certificate the tool issues is one the peers accept: when \<open>makeCert\<close> succeeds, it has
  replaced no file, the serial number is the one in the counter's file, which moves by one, the
  certificate is signed by the CA for exactly the given names, split into DNS names and addresses,
  and loading the new bundle for either role gives a pool that holds exactly the CA that signed it.
\<close>

theorem issued_bundle_loads:
  assumes "makeCert cr flt os bundlePath org cn domains usage s = (s', None)"
    and "CACounterPath os = Inr cp"
    and pair: "\<And>t ca k k' der keyDER. mk_Create cr t (Some ca) k k' = Inr der \<Longrightarrow> mk_MarshalKey cr k = Inr keyDER \<Longrightarrow>
      pair [PemBlock ''CERTIFICATE'' der, PemBlock ''PRIVATE KEY'' keyDER, PemBlock ''CERTIFICATE'' ca] = Inr (leaf der k)"
    and raw: "\<And>b c. mk_ParseCert cr b = Inr c \<Longrightarrow> mk_ParseCert cr c = Inr c"
  shows "\<exists>n caCert caKey priv skid t der c c'. ts_fs s cp = Some (CounterFile n) \<and> ts_fs s' cp = Some (CounterFile (n + 1)) \<and>
    ts_fs s bundlePath = None \<and> snd (loadCA cr os s) = Inr (caCert, caKey) \<and>
    mk_Create cr t (Some caCert) priv caKey = Inr der \<and>
    t = leaf_template cr n org cn domains usage skid \<and> tt_SerialNumber t = n \<and> \<not> tt_IsCA t \<and> tt_ExtKeyUsage t = usage \<and>
    tt_DNSNames t = filter (\<lambda>d. mk_ParseIP cr d = None) domains \<and>
    tt_IPAddresses t = List.map_filter (mk_ParseIP cr) domains \<and>
    LoadServer (\<lambda>b. \<not> isl (mk_ParseCert cr b)) pair bundlePath (ts_fs s') = Inr c \<and>
    tc_Certificate c = leaf der priv \<and> tc_pool c = [caCert] \<and> tc_requireClientCert c \<and>
    LoadClient (\<lambda>b. \<not> isl (mk_ParseCert cr b)) pair bundlePath (ts_fs s') = Inr c' \<and>
    tc_Certificate c' = leaf der priv \<and> tc_pool c' = [caCert]"
proof -
  from makeCert_ok [OF assms(1,2)] obtain n caCert caKey priv skid der keyDER where
    m: "loadCA cr os s = (s\<lparr>ts_counter := n\<rparr>, Inr (caCert, caKey))" "ts_fs s cp = Some (CounterFile n)"
      "ts_fs s bundlePath = None"
      "mk_Create cr (leaf_template cr n org cn domains usage skid) (Some caCert) priv caKey = Inr der"
      "mk_MarshalKey cr priv = Inr keyDER"
      "s' = \<lparr>ts_counter = n + 1, ts_fs = (ts_fs s)(bundlePath \<mapsto> PemFile [PemBlock ''CERTIFICATE'' der,
      PemBlock ''PRIVATE KEY'' keyDER, PemBlock ''CERTIFICATE'' caCert], cp \<mapsto> CounterFile (n + 1))\<rparr>"
    by blast
  let ?t = "leaf_template cr n org cn domains usage skid"
  have t: "tt_SerialNumber ?t = n \<and> \<not> tt_IsCA ?t \<and> tt_ExtKeyUsage ?t = usage \<and>
    tt_DNSNames ?t = filter (\<lambda>d. mk_ParseIP cr d = None) domains \<and>
    tt_IPAddresses ?t = List.map_filter (mk_ParseIP cr) domains"
    by (simp add: leaf_template_def splitIPsAndDNS_def split_names_spec case_prod_beta)
  have "mk_ParseCert cr caCert = Inr caCert"
    using loadCA_ok [OF m(1) assms(2)] raw by blast
  then have "parseBundle (\<lambda>b. \<not> isl (mk_ParseCert cr b)) pair bundlePath (ts_fs s') = Inr (leaf der priv, [caCert])"
    using m(2,3,6) pair [OF m(4,5)] by (auto simp: parseBundle_def)
  note loads = LoadServer_ok [OF this] LoadClient_ok [OF this]
  have "ts_fs s' cp = Some (CounterFile (n + 1))" "snd (loadCA cr os s) = Inr (caCert, caKey)"
    using m(1,6) by simp_all
  then show ?thesis
    using m(2,3,4) t loads by metis
qed

theorem issued_bundle_loads_witness:
  "\<exists>n caCert caKey priv skid t der c c'. ts_fs ex_ca ''/d/mtls/counter.txt'' = Some (CounterFile n) \<and>
    ts_fs (fst ex_leaf) ''/d/mtls/counter.txt'' = Some (CounterFile (n + 1)) \<and>
    ts_fs ex_ca ''/d/mtls/srv.pem'' = None \<and> snd (loadCA ex_crypto ex_os ex_ca) = Inr (caCert, caKey) \<and>
    mk_Create ex_crypto t (Some caCert) priv caKey = Inr der \<and>
    t = leaf_template ex_crypto n ''O'' ''srv'' [''a.b'', ''::1''] [ServerAuth] skid \<and> tt_SerialNumber t = n \<and> \<not> tt_IsCA t \<and> tt_ExtKeyUsage t = [ServerAuth] \<and>
    tt_DNSNames t = filter (\<lambda>d. mk_ParseIP ex_crypto d = None) [''a.b'', ''::1''] \<and>
    tt_IPAddresses t = List.map_filter (mk_ParseIP ex_crypto) [''a.b'', ''::1''] \<and>
    LoadServer (\<lambda>b. \<not> isl (mk_ParseCert ex_crypto b)) (\<lambda>bs. Inr (pb_bytes (hd bs), ())) ''/d/mtls/srv.pem''
      (ts_fs (fst ex_leaf)) = Inr c \<and>
    tc_Certificate c = (der, priv) \<and> tc_pool c = [caCert] \<and> tc_requireClientCert c \<and>
    LoadClient (\<lambda>b. \<not> isl (mk_ParseCert ex_crypto b)) (\<lambda>bs. Inr (pb_bytes (hd bs), ())) ''/d/mtls/srv.pem''
      (ts_fs (fst ex_leaf)) = Inr c' \<and>
    tc_Certificate c' = (der, priv) \<and> tc_pool c' = [caCert]"
  by (rule issued_bundle_loads [OF ex_makeCert ex_paths(2), where leaf = "\<lambda>d k. (d, k)"])
    (simp_all add: ex_crypto_def)

text \<open>
  The first certificate of a new CA repeats the CA's serial number: \<open>MakeCA\<close> in a new process
  gives the CA the number 0 and writes the counter 0, so the certificate made next, with the same
  issuer name, has the number 0 as well.
\<close>

theorem first_leaf_repeats_CA_serial:
  assumes "MakeCA cr flt os org cn \<lparr>ts_counter = 0, ts_fs = fs\<rparr> = (s1, None)"
    and "makeCert cr flt' os bundlePath org' cn' domains usage s1 = (s2, None)"
    and "CACounterPath os = Inr cp" "MtlsCAPath os = Inr caPath"
  shows "\<exists>priv caDer keyDER skid parent lpriv lder lkeyDER caKey.
    ts_fs s2 caPath = Some (PemFile [PemBlock ''CERTIFICATE'' caDer, PemBlock ''PRIVATE KEY'' keyDER]) \<and>
    mk_Create cr (ca_template cr org cn) None priv priv = Inr caDer \<and>
    ts_fs s2 bundlePath = Some (PemFile [PemBlock ''CERTIFICATE'' lder, PemBlock ''PRIVATE KEY'' lkeyDER,
      PemBlock ''CERTIFICATE'' parent]) \<and>
    mk_Create cr (leaf_template cr 0 org' cn' domains usage skid) (Some parent) lpriv caKey = Inr lder \<and>
    tt_SerialNumber (leaf_template cr 0 org' cn' domains usage skid) = tt_SerialNumber (ca_template cr org cn)"
proof -
  obtain priv der keyDER where ca: "mk_Create cr (ca_template cr org cn) None priv priv = Inr der"
    "s1 = \<lparr>ts_counter = 0, ts_fs = fs(caPath \<mapsto> PemFile [PemBlock ''CERTIFICATE'' der, PemBlock ''PRIVATE KEY'' keyDER],
      cp \<mapsto> CounterFile 0)\<rparr>"
    using MakeCA_ok [OF assms(1,3,4)] by auto
  obtain n caCert caKey lpriv skid lder lkeyDER where leaf:
    "loadCA cr os s1 = (s1\<lparr>ts_counter := n\<rparr>, Inr (caCert, caKey))"
    "ts_fs s1 cp = Some (CounterFile n)" "ts_fs s1 bundlePath = None"
    "mk_Create cr (leaf_template cr n org' cn' domains usage skid) (Some caCert) lpriv caKey = Inr lder"
    "s2 = \<lparr>ts_counter = n + 1, ts_fs = (ts_fs s1)(bundlePath \<mapsto> PemFile [PemBlock ''CERTIFICATE'' lder,
      PemBlock ''PRIVATE KEY'' lkeyDER, PemBlock ''CERTIFICATE'' caCert], cp \<mapsto> CounterFile (n + 1))\<rparr>"
    using makeCert_ok [OF assms(2,3)] by blast
  have "caPath \<noteq> cp"
    using loadCA_ok [OF leaf(1) assms(3)] assms(4) by auto
  moreover have n: "n = 0" "bundlePath \<noteq> cp" "bundlePath \<noteq> caPath"
    using leaf(2,3) ca(2) by (auto split: if_splits)
  ultimately have "ts_fs s2 caPath = Some (PemFile [PemBlock ''CERTIFICATE'' der, PemBlock ''PRIVATE KEY'' keyDER])"
    "ts_fs s2 bundlePath = Some (PemFile [PemBlock ''CERTIFICATE'' lder, PemBlock ''PRIVATE KEY'' lkeyDER,
      PemBlock ''CERTIFICATE'' caCert])"
    unfolding leaf(5) ca(2) by simp_all
  moreover have "tt_SerialNumber (leaf_template cr 0 org' cn' domains usage skid) = tt_SerialNumber (ca_template cr org cn)"
    by (simp add: leaf_template_def ca_template_def case_prod_beta)
  ultimately show ?thesis
    using leaf(4) ca(1) unfolding n(1) by blast
qed

theorem first_leaf_repeats_CA_serial_witness:
  "\<exists>priv caDer keyDER skid parent lpriv lder lkeyDER caKey.
    ts_fs (fst ex_leaf) ''/d/mtls/ca.pem'' = Some (PemFile [PemBlock ''CERTIFICATE'' caDer, PemBlock ''PRIVATE KEY'' keyDER]) \<and>
    mk_Create ex_crypto (ca_template ex_crypto ''O'' ''CN'') None priv priv = Inr caDer \<and>
    ts_fs (fst ex_leaf) ''/d/mtls/srv.pem'' = Some (PemFile [PemBlock ''CERTIFICATE'' lder, PemBlock ''PRIVATE KEY'' lkeyDER,
      PemBlock ''CERTIFICATE'' parent]) \<and>
    mk_Create ex_crypto (leaf_template ex_crypto 0 ''O'' ''srv'' [''a.b'', ''::1''] [ServerAuth] skid) (Some parent) lpriv caKey = Inr lder \<and>
    tt_SerialNumber (leaf_template ex_crypto 0 ''O'' ''srv'' [''a.b'', ''::1''] [ServerAuth] skid) = tt_SerialNumber (ca_template ex_crypto ''O'' ''CN'')"
  by (rule first_leaf_repeats_CA_serial [OF ex_MakeCA ex_makeCert ex_paths(2,1)])

end
