(* ===== verification/Acme_User.thy ===== *)
theory Acme_User
  imports Mtls_Tools
begin

text \<open>
  \<open>pkg/acme/user.go\<close>, which keeps the ACME account of the server, \<open>acmeproviders/google\<close>, which asks
  for the external account key of a Google account, and the tool \<open>google-account.go\<close>. The file of
  the account key is a PEM file of one block. Cryptography, the lego client with the registration at
  the CA, and the Google service are parameters; \<open>'w\<close> is the state of these services.
\<close>

section \<open>The external account of Google\<close>

record AcmeExternalAccount =
  ea_HmacEncoded :: string
  ea_KeyId :: string

record 'w google_env =
  ge_Marshal :: "(string \<rightharpoonup> string) \<Rightarrow> string + bytes"
  ge_NewClient :: "bytes \<Rightarrow> string option"
  ge_CreateExternalAccountKey :: "bytes \<Rightarrow> string \<Rightarrow> 'w \<Rightarrow> 'w \<times> (string + string \<times> bytes)"
    \<comment> \<open>the credential and the parent; the key id and the MAC key\<close>

definition CreateExternalAccountKeyRequest ::
    "'w google_env \<Rightarrow> (string \<rightharpoonup> string) \<Rightarrow> 'w \<Rightarrow> 'w \<times> (string + AcmeExternalAccount)" where
  "CreateExternalAccountKeyRequest ge config w =
     (case ge_Marshal ge config of
        Inl e \<Rightarrow> (w, Inl e)
      | Inr credential \<Rightarrow>
          (case config ''project_id'' of
             None \<Rightarrow> (w, Inl ''no project id present'')
           | Some project_id \<Rightarrow>
               (case ge_NewClient ge credential of
                  Some e \<Rightarrow> (w, Inl e)
                | None \<Rightarrow>
                    (case ge_CreateExternalAccountKey ge credential
                            (''projects/'' @ project_id @ ''/locations/global'') w of
                       (w', Inl e) \<Rightarrow> (w', Inl e)
                     | (w', Inr (keyId, mac)) \<Rightarrow> (w', Inr \<lparr>ea_HmacEncoded = mac, ea_KeyId = keyId\<rparr>)))))"

section \<open>The account\<close>

record ('k, 'r) ACMEUser =
  au_Email :: string
  au_Registration :: "'r option"
  au_Key :: 'k

datatype write_outcome = WriteOk | WriteNothing | WritePartial

record ('k, 'r, 'w) user_env =
  uv_GenerateKey :: "string + 'k"
  uv_MarshalECPrivateKey :: "'k \<Rightarrow> string + bytes"
  uv_ParsePEMPrivateKey :: "pemBlock list \<Rightarrow> string + 'k"
  uv_NewClient :: "string \<Rightarrow> 'k \<Rightarrow> string option"
    \<comment> \<open>the error of \<open>lego.NewClient\<close> for a directory and a key, if any\<close>
  uv_Register :: "'k \<Rightarrow> string \<Rightarrow> (string \<times> string) option \<Rightarrow> 'w \<Rightarrow> 'w \<times> (string + 'r)"
    \<comment> \<open>the key, the email and the external account binding (kid, hmac)\<close>
  uv_ResolveAccountByKey :: "'k \<Rightarrow> 'w \<Rightarrow> 'w \<times> (string + 'r)"
  uv_MarshalRegistration :: "'r \<Rightarrow> string option"
  uv_write :: write_outcome      \<comment> \<open>of the key's file\<close>
  uv_removeFails :: bool
  uv_statErr :: "string option"  \<comment> \<open>an error of \<open>os.Stat\<close> other than that the file does not exist\<close>
  uv_readErr :: "string option"
  uv_google :: "'w google_env"

datatype user_error =
    UserPath string
  | UserKey string
  | SaveKey
  | UserClient string
  | RegisterFailed string
  | MarshalRegistration string
  | GoogleFailed string
  | StatFailed string
  | ReadFailed string
  | ParseKey string
  | ResolveFailed string

definition parsePEM :: "('k, 'r, 'w) user_env \<Rightarrow> pemBlock list \<Rightarrow> user_error + 'k" where
  "parsePEM ev blocks =
     (case uv_ParsePEMPrivateKey ev blocks of Inl e \<Rightarrow> Inl (ParseKey e) | Inr key \<Rightarrow> Inr key)"

definition os_Remove :: "('k, 'r, 'w) user_env \<Rightarrow> string \<Rightarrow> tool_fs \<Rightarrow> tool_fs" where
  "os_Remove ev path fs = (if uv_removeFails ev then fs else fs(path := None))"

definition RegisterAccount ::
    "('k, 'r, 'w) user_env \<Rightarrow> os_env \<Rightarrow> string \<Rightarrow> string \<Rightarrow> string \<Rightarrow> string \<Rightarrow> tool_fs \<times> 'w \<Rightarrow>
     (tool_fs \<times> 'w) \<times> user_error option" where
  "RegisterAccount ev os ACMEProvider Email Kid Hmac st =
     (case st of (fs, w) \<Rightarrow>
       (case ACMEPrivateKey Email ACMEProvider os of
          Inl e \<Rightarrow> (st, Some (UserPath e))
        | Inr keyPath \<Rightarrow>
            (case uv_GenerateKey ev of
               Inl e \<Rightarrow> (st, Some (UserKey e))
             | Inr privateKey \<Rightarrow>
                 (case uv_MarshalECPrivateKey ev privateKey of
                    Inl e \<Rightarrow> (st, Some (UserKey e))
                  | Inr x509Encoded \<Rightarrow>
                      (case uv_write ev of
                         WriteNothing \<Rightarrow> (st, Some SaveKey)
                       | WritePartial \<Rightarrow> ((fs(keyPath \<mapsto> OtherFile), w), Some SaveKey)
                       | WriteOk \<Rightarrow>
                           let fs1 = fs(keyPath \<mapsto> PemFile [PemBlock ''PRIVATE KEY'' x509Encoded]) in
                           (case uv_NewClient ev (URL ACMEProvider) privateKey of
                              Some e \<Rightarrow> ((os_Remove ev keyPath fs1, w), Some (UserClient e))
                            | None \<Rightarrow>
                                (case uv_Register ev privateKey Email
                                        (if Hmac \<noteq> [] \<and> Kid \<noteq> [] then Some (Kid, Hmac) else None) w of
                                   (w1, Inl e) \<Rightarrow> ((os_Remove ev keyPath fs1, w1), Some (RegisterFailed e))
                                 | (w1, Inr reg) \<Rightarrow>
                                     (case uv_MarshalRegistration ev reg of
                                        Some e \<Rightarrow> ((os_Remove ev keyPath fs1, w1), Some (MarshalRegistration e))
                                      | None \<Rightarrow> ((fs1, w1), None))))))))) "

text \<open>The part of \<open>makeACMEUser\<close> that makes sure the key's file exists.\<close>

definition ensure_account ::
    "('k, 'r, 'w) user_env \<Rightarrow> os_env \<Rightarrow> ServerConfig \<Rightarrow> string \<Rightarrow> tool_fs \<times> 'w \<Rightarrow> (tool_fs \<times> 'w) \<times> user_error option" where
  "ensure_account ev os c keyPath st =
     (case uv_statErr ev of
        Some e \<Rightarrow> (st, Some (StatFailed e))
      | None \<Rightarrow>
          if fst st keyPath \<noteq> None then (st, None)
          else if IsGoogle (ac_Provider (sc_ACME c)) then
            (case CreateExternalAccountKeyRequest (uv_google ev) (sc_GoogleCloudCredential c) (snd st) of
               (w1, Inl e) \<Rightarrow> ((fst st, w1), Some (GoogleFailed e))
             | (w1, Inr account) \<Rightarrow>
                 RegisterAccount ev os (ac_Provider (sc_ACME c)) (ac_Email (sc_ACME c)) (ea_KeyId account)
                   (ea_HmacEncoded account) (fst st, w1))
          else RegisterAccount ev os (ac_Provider (sc_ACME c)) (ac_Email (sc_ACME c)) [] [] st)"

definition makeACMEUser ::
    "('k, 'r, 'w) user_env \<Rightarrow> os_env \<Rightarrow> ServerConfig \<Rightarrow> tool_fs \<times> 'w \<Rightarrow>
     (tool_fs \<times> 'w) \<times> (user_error + ('k, 'r) ACMEUser)" where
  "makeACMEUser ev os c st =
     (case ACMEPrivateKey (ac_Email (sc_ACME c)) (ac_Provider (sc_ACME c)) os of
        Inl e \<Rightarrow> (st, Inl (UserPath e))
      | Inr keyPath \<Rightarrow>
          (case ensure_account ev os c keyPath st of
             (st1, Some e) \<Rightarrow> (st1, Inl e)
           | (st1, None) \<Rightarrow>
               (case uv_readErr ev of
                  Some e \<Rightarrow> (st1, Inl (ReadFailed e))
                | None \<Rightarrow>
                    (case parsePEM ev (case fst st1 keyPath of Some (PemFile bs) \<Rightarrow> bs | _ \<Rightarrow> []) of
                       Inl e \<Rightarrow> (st1, Inl e)
                     | Inr key \<Rightarrow>
                         (case uv_NewClient ev (URL (ac_Provider (sc_ACME c))) key of
                            Some e \<Rightarrow> (st1, Inl (UserClient e))
                          | None \<Rightarrow>
                              (case uv_ResolveAccountByKey ev key (snd st1) of
                                 (w2, Inl e) \<Rightarrow> ((fst st1, w2), Inl (ResolveFailed e))
                               | (w2, Inr reg) \<Rightarrow>
                                   ((fst st1, w2), Inr \<lparr>au_Email = ac_Email (sc_ACME c), au_Registration = Some reg,
                                      au_Key = key\<rparr>)))))))"

section \<open>The tool\<close>

record google_flags =
  gf_help :: bool
  gf_testAccount :: bool
  gf_email :: string
  gf_keyID :: string
  gf_hmac :: string

datatype google_result = GoogleFlags string | GoogleHelp | GoogleRequired | GoogleRegister "user_error option"

definition RegisterGoogleAccount ::
    "('k, 'r, 'w) user_env \<Rightarrow> os_env \<Rightarrow> (string + google_flags) \<Rightarrow> tool_fs \<times> 'w \<Rightarrow> (tool_fs \<times> 'w) \<times> google_result" where
  "RegisterGoogleAccount ev os flags st =
     (case flags of
        Inl e \<Rightarrow> (st, GoogleFlags e)
      | Inr fl \<Rightarrow>
          if gf_help fl then (st, GoogleHelp)
          else if gf_email fl = [] \<or> gf_keyID fl = [] \<or> gf_hmac fl = [] then (st, GoogleRequired)
          else (case RegisterAccount ev os (if gf_testAccount fl then ''googletest'' else ''google'')
                       (gf_email fl) (gf_keyID fl) (gf_hmac fl) st of
                  (st', err) \<Rightarrow> (st', GoogleRegister err)))"

section \<open>Lemmas\<close>

text \<open>The ways through \<open>RegisterAccount\<close> that change a file.\<close>

lemma RegisterAccount_ok:
  assumes "RegisterAccount ev os prov email kid hmac (fs, w) = ((fs', w'), None)"
    "ACMEPrivateKey email prov os = Inr keyPath"
  shows "\<exists>k der reg. uv_GenerateKey ev = Inr k \<and> uv_MarshalECPrivateKey ev k = Inr der \<and>
    fs' = fs(keyPath \<mapsto> PemFile [PemBlock ''PRIVATE KEY'' der]) \<and>
    uv_Register ev k email (if hmac \<noteq> [] \<and> kid \<noteq> [] then Some (kid, hmac) else None) w = (w', Inr reg)"
  using assms
  by (auto simp: RegisterAccount_def Let_def split: sum.splits option.splits write_outcome.splits prod.splits)

lemma RegisterAccount_error:
  assumes "RegisterAccount ev os prov email kid hmac (fs, w) = ((fs', w'), Some e)"
    "ACMEPrivateKey email prov os = Inr keyPath" "fs keyPath = None"
    "uv_write ev \<noteq> WritePartial" "\<not> uv_removeFails ev"
  shows "fs' = fs"
proof -
  have "fs(keyPath := None) = fs" using assms(3) by (simp add: fun_upd_idem)
  then show ?thesis
    using assms
    by (auto simp: RegisterAccount_def Let_def os_Remove_def
        split: sum.splits option.splits write_outcome.splits prod.splits)
qed

lemma ensure_account_new:
  assumes "ensure_account ev os c keyPath (fs, w) = ((fs', w'), r)" "fs keyPath = None" "uv_statErr ev = None"
    "ACMEPrivateKey (ac_Email (sc_ACME c)) (ac_Provider (sc_ACME c)) os = Inr keyPath"
  shows "(\<exists>e. fs' = fs \<and> r = Some (GoogleFailed e)) \<or>
    (\<exists>kid hmac w0. RegisterAccount ev os (ac_Provider (sc_ACME c)) (ac_Email (sc_ACME c)) kid hmac (fs, w0) = ((fs', w'), r))"
  using assms by (auto simp: ensure_account_def split: if_splits prod.splits sum.splits)

lemma makeACMEUser_ok:
  assumes "makeACMEUser ev os c st = (st', Inr u)"
    "ACMEPrivateKey (ac_Email (sc_ACME c)) (ac_Provider (sc_ACME c)) os = Inr keyPath"
  shows "\<exists>st1. ensure_account ev os c keyPath st = (st1, None) \<and> fst st' = fst st1 \<and>
    parsePEM ev (case fst st' keyPath of Some (PemFile bs) \<Rightarrow> bs | _ \<Rightarrow> []) = Inr (au_Key u) \<and>
    au_Email u = ac_Email (sc_ACME c)"
  using assms by (auto simp: makeACMEUser_def split: prod.splits option.splits sum.splits)

lemma ensure_account_exists:
  assumes "ensure_account ev os c keyPath st = (st1, None)"
    "ACMEPrivateKey (ac_Email (sc_ACME c)) (ac_Provider (sc_ACME c)) os = Inr keyPath"
  shows "fst st1 keyPath \<noteq> None"
proof (cases "fst st keyPath")
  case (Some f)
  then show ?thesis using assms(1) by (auto simp: ensure_account_def split: option.splits)
next
  case None
  obtain fs w fs1 w1 where st: "st = (fs, w)" "st1 = (fs1, w1)" by (cases st; cases st1)
  then have "uv_statErr ev = None" using assms(1) by (auto simp: ensure_account_def split: option.splits)
  then obtain kid hmac w0 where
    "RegisterAccount ev os (ac_Provider (sc_ACME c)) (ac_Email (sc_ACME c)) kid hmac (fs, w0) = ((fs1, w1), None)"
    using ensure_account_new [of ev os c keyPath fs w fs1 w1 None] assms None st by auto
  from RegisterAccount_ok [OF this assms(2)] show ?thesis using st by auto
qed

section \<open>Properties\<close>

text \<open>
  C37: A registration that fails leaves no key behind: when the server makes its account user, has no
  key yet and the step fails before or at the registration, then the files are as they were, so the
  next start registers again instead of trying to use a key that the CA does not know. When it
  succeeds the file holds the generated key, and that is the key of the account that was registered.
  The exceptions are a write that fails half way and a failing removal.
\<close>

theorem failed_registration_leaves_no_key:
  assumes "ACMEPrivateKey (ac_Email (sc_ACME c)) (ac_Provider (sc_ACME c)) os = Inr keyPath"
    and "fs keyPath = None" "uv_statErr ev = None"
    and "uv_write ev \<noteq> WritePartial" "\<not> uv_removeFails ev"
    and "ensure_account ev os c keyPath (fs, w) = ((fs', w'), r)"
  shows "case r of
      Some e \<Rightarrow> fs' = fs
    | None \<Rightarrow> (\<exists>k der reg w0 binding. uv_GenerateKey ev = Inr k \<and> uv_MarshalECPrivateKey ev k = Inr der \<and>
        fs' = fs(keyPath \<mapsto> PemFile [PemBlock ''PRIVATE KEY'' der]) \<and>
        uv_Register ev k (ac_Email (sc_ACME c)) binding w0 = (w', Inr reg))"
proof -
  consider e where "fs' = fs" "r = Some (GoogleFailed e)"
    | kid hmac w0 where
      "RegisterAccount ev os (ac_Provider (sc_ACME c)) (ac_Email (sc_ACME c)) kid hmac (fs, w0) = ((fs', w'), r)"
    using ensure_account_new [OF assms(6,2,3,1)] by blast
  then show ?thesis
  proof cases
    case reg: 2
    show ?thesis
    proof (cases r)
      case None
      then show ?thesis using RegisterAccount_ok [OF reg [unfolded None] assms(1)] unfolding None option.case by blast
    next
      case (Some e)
      then show ?thesis using RegisterAccount_error [OF reg [unfolded Some] assms(1,2,4,5)] by simp
    qed
  qed simp
qed

text \<open>
  An account is registered once: after a start that made the account user, every later start on
  the same files, whatever the state of the services by then, changes no file, registers nothing,
  asks the CA only for the account of the key in the file, and if that is found gives a user with
  the same key and email.
\<close>

theorem account_registered_once:
  assumes "makeACMEUser ev os c st = ((fs', w'), Inr u)"
    and "uv_statErr ev' = None" "uv_readErr ev' = None"
    and "uv_ParsePEMPrivateKey ev' = uv_ParsePEMPrivateKey ev"
    and "uv_NewClient ev' (URL (ac_Provider (sc_ACME c))) (au_Key u) = None"
  shows "makeACMEUser ev' os c (fs', w'') =
    (case uv_ResolveAccountByKey ev' (au_Key u) w'' of
       (w3, Inl e) \<Rightarrow> ((fs', w3), Inl (ResolveFailed e))
     | (w3, Inr reg) \<Rightarrow> ((fs', w3), Inr \<lparr>au_Email = au_Email u, au_Registration = Some reg, au_Key = au_Key u\<rparr>))"
proof -
  obtain keyPath where path: "ACMEPrivateKey (ac_Email (sc_ACME c)) (ac_Provider (sc_ACME c)) os = Inr keyPath"
    using assms(1) by (auto simp: makeACMEUser_def split: sum.splits)
  from makeACMEUser_ok [OF assms(1) path] obtain st1 where
    u: "ensure_account ev os c keyPath st = (st1, None)" "fs' = fst st1"
      "parsePEM ev (case fs' keyPath of Some (PemFile bs) \<Rightarrow> bs | _ \<Rightarrow> []) = Inr (au_Key u)"
      "au_Email u = ac_Email (sc_ACME c)"
    by auto
  have ex: "fs' keyPath \<noteq> None" using ensure_account_exists [OF u(1) path] u(2) by simp
  have "ensure_account ev' os c keyPath (fs', w'') = ((fs', w''), None)"
    using ex assms(2) by (simp add: ensure_account_def)
  moreover have "parsePEM ev' (case fs' keyPath of Some (PemFile bs) \<Rightarrow> bs | _ \<Rightarrow> []) = Inr (au_Key u)"
    using u(3) assms(4) by (simp add: parsePEM_def)
  ultimately show ?thesis
    using path assms(3,5) u(4) by (simp add: makeACMEUser_def split: prod.splits sum.splits)
qed

definition ex_user_env :: "(nat, nat, nat list) user_env" where
  "ex_user_env = \<lparr>uv_GenerateKey = Inr 7, uv_MarshalECPrivateKey = (\<lambda>_. Inr ''k''), uv_ParsePEMPrivateKey = (\<lambda>_. Inr 7),
     uv_NewClient = (\<lambda>_ _. None), uv_Register = (\<lambda>k _ _ w. (k # w, Inr k)),
     uv_ResolveAccountByKey = (\<lambda>k w. (w, if k \<in> set w then Inr k else Inl ''unknown'')),
     uv_MarshalRegistration = (\<lambda>_. None), uv_write = WriteOk, uv_removeFails = False, uv_statErr = None, uv_readErr = None,
     uv_google = \<lparr>ge_Marshal = (\<lambda>_. Inl ''e''), ge_NewClient = (\<lambda>_. None), ge_CreateExternalAccountKey = (\<lambda>_ _ w. (w, Inl ''e''))\<rparr>\<rparr>"

definition ex_user_config :: ServerConfig where
  "ex_user_config = \<lparr>sc_ACME = \<lparr>ac_ChallengeType = ''dns'', ac_Email = ''m'', ac_Provider = ''r3'', ac_RetryCount = 5,
       ac_CertLifeTime = [], ac_RenewTimeLeft = [], ac_AllowedDomains = [''a''], ac_CertLifeTimeDuration = 0,
       ac_RenewTimeLeftDuration = 0\<rparr>,
     sc_GoogleCloudCredential = Map.empty, sc_DnsProvider = None, sc_HttpProvider = None, sc_MTLS = \<lparr>mt_PEM = []\<rparr>,
     sc_HttpServer = \<lparr>hs_Enabled = False, hs_Listen = [], hs_APIPath = [], hs_AuthMethod = [], hs_Secure = False,
       hs_Names = [], hs_Token = []\<rparr>,
     sc_GRPCSDSServer = \<lparr>gs_Enabled = False, gs_Listen = []\<rparr>\<rparr>"

lemma ex_user_path:
  "ACMEPrivateKey (ac_Email (sc_ACME ex_user_config)) (ac_Provider (sc_ACME ex_user_config)) ex_os = Inr ''/d/private/m_r3.key''"
  by code_simp

lemma ex_user_google: "\<not> IsGoogle (ac_Provider (sc_ACME ex_user_config))"
  by (simp add: ex_user_config_def IsGoogle_def HasPrefix_def)

theorem failed_registration_leaves_no_key_witness:
  "\<exists>fs'. ensure_account (ex_user_env\<lparr>uv_Register := \<lambda>k _ _ w. (w, Inl ''no'')\<rparr>) ex_os ex_user_config ''/d/private/m_r3.key'' (Map.empty, [])
      = ((fs', []), Some (RegisterFailed ''no'')) \<and> fs' = Map.empty"
proof -
  let ?ev = "ex_user_env\<lparr>uv_Register := \<lambda>k _ _ w. (w, Inl ''no'')\<rparr>"
  obtain fs' where e: "ensure_account ?ev ex_os ex_user_config ''/d/private/m_r3.key'' (Map.empty, [])
      = ((fs', []), Some (RegisterFailed ''no''))"
    using ex_user_path by (simp add: ensure_account_def ex_user_google RegisterAccount_def ex_user_env_def)
  have "fs' = Map.empty"
    using failed_registration_leaves_no_key [OF ex_user_path _ _ _ _ e] by (simp add: ex_user_env_def)
  then show ?thesis using e by blast
qed

theorem account_registered_once_witness:
  "\<exists>fs' w' u. makeACMEUser ex_user_env ex_os ex_user_config (Map.empty, []) = ((fs', w'), Inr u) \<and>
    makeACMEUser ex_user_env ex_os ex_user_config (fs', []) = ((fs', []), Inl (ResolveFailed ''unknown''))"
proof -
  have "\<exists>fs' w' u. makeACMEUser ex_user_env ex_os ex_user_config (Map.empty, []) = ((fs', w'), Inr u) \<and> au_Key u = 7"
    using ex_user_path
    by (simp add: makeACMEUser_def ensure_account_def ex_user_google RegisterAccount_def parsePEM_def ex_user_env_def)
  then obtain fs' w' u where e: "makeACMEUser ex_user_env ex_os ex_user_config (Map.empty, []) = ((fs', w'), Inr u)"
    and "au_Key u = 7" by blast
  then have "makeACMEUser ex_user_env ex_os ex_user_config (fs', []) = ((fs', []), Inl (ResolveFailed ''unknown''))"
    by (subst account_registered_once [OF e]) (simp_all add: ex_user_env_def)
  then show ?thesis using e by blast
qed

end
