(* ===== verification/Caddy.thy ===== *)
theory Caddy
  imports Client_Daemon
begin

text \<open>
  \<open>exec/caddytls\<close>: the plugin for the Caddy web server. \<open>caddyfile.go\<close> reads the options of the
  plugin, \<open>certdx.go\<close> is the app that runs the client daemon and \<open>caddytls.go\<close> the certificate
  manager that asks it. Caddy's \<open>Dispenser\<close> is not part of the sources: what it dispenses is
  represented by its documented view, a tree of segments, each with its first word, the arguments
  on its line and the block that follows, if any. \<open>NextBlock\<close> also enters a block that a directive has
  not consumed and dispenses its opening brace as the next word, so the block of a directive that
  takes only an argument is an error: no directive has that name, and no argument follows it.
\<close>

section \<open>Package strconv\<close>

fun parse_digits :: "nat \<Rightarrow> string \<Rightarrow> nat option" where
  "parse_digits acc [] = Some acc"
| "parse_digits acc (c # cs) =
     (let n = (of_char c :: nat) in if 48 \<le> n \<and> n \<le> 57 then parse_digits (10 * acc + (n - 48)) cs else None)"

text \<open>\<open>strconv.Atoi\<close> on a platform whose \<open>int\<close> has 64 bits.\<close>

definition Atoi :: "string \<Rightarrow> int option" where
  "Atoi s =
     (let (neg, ds) = (case s of [] \<Rightarrow> (False, [])
                       | c # cs \<Rightarrow> if c = CHR ''-'' then (True, cs) else if c = CHR ''+'' then (False, cs) else (False, s))
      in if ds = [] then None
         else (case parse_digits 0 ds of
             None \<Rightarrow> None
           | Some n \<Rightarrow> let v = (if neg then - int n else int n) in
               if - (2 ^ 63) \<le> v \<and> v < 2 ^ 63 then Some v else None))"

section \<open>The Caddyfile\<close>

datatype segment = Seg (sg_dir: string) (sg_args: "string list") (sg_block: "segment list")

datatype caddy_error =
    ExpectedOneArg string nat
  | NoArgumentExpected string
  | InvalidValue string string
  | Unrecognized string string
  | FailedBlock string caddy_error
  | EmptyCertId
  | NoDomains string
  | AlreadyDefined string
  | NoBlockExpected

type_synonym CertificateDef = "string \<rightharpoonup> string list"

record CertDXCaddyConfig =
  ca_Common :: ClientCommonConfig
  ca_HttpMain :: ClientHttpServer
  ca_HttpStandby :: ClientHttpServer
  ca_GRPCMain :: ClientGRPCServer
  ca_GRPCStandby :: ClientGRPCServer
  ca_CertificateDefs :: CertificateDef

definition CertificateDef_Add :: "CertificateDef \<Rightarrow> string \<Rightarrow> string list \<Rightarrow> caddy_error + CertificateDef" where
  "CertificateDef_Add d certID domains =
     (if certID = [] then Inl EmptyCertId
      else if length domains = 0 then Inl (NoDomains certID)
      else if d certID \<noteq> None then Inl (AlreadyDefined certID)
      else Inr (d(certID \<mapsto> domains)))"

definition CertificateDef_Lookup :: "CertificateDef \<Rightarrow> string \<Rightarrow> string list option" where
  "CertificateDef_Lookup d certID = d certID"

definition SetDefaultConfig :: "CertDXCaddyConfig \<Rightarrow> CertDXCaddyConfig" where
  "SetDefaultConfig c =
     c\<lparr>ca_Common := (ca_Common c)\<lparr>cc_RetryCount := 5, cc_Mode := CLIENT_MODE_HTTP, cc_ReconnectInterval := ''10m''\<rparr>,
       ca_HttpMain := (ca_HttpMain c)\<lparr>ch_AuthMethod := HTTP_AUTH_TOKEN\<rparr>,
       ca_HttpStandby := (ca_HttpStandby c)\<lparr>ch_AuthMethod := HTTP_AUTH_TOKEN\<rparr>\<rparr>"

definition zero_caddy_config :: CertDXCaddyConfig where
  "zero_caddy_config =
     \<lparr>ca_Common = \<lparr>cc_RetryCount = 0, cc_Mode = [], cc_ReconnectInterval = [], cc_ReconnectDuration = 0\<rparr>,
      ca_HttpMain = \<lparr>ch_Url = [], ch_AuthMethod = [], ch_Token = [], ch_PEM = []\<rparr>,
      ca_HttpStandby = \<lparr>ch_Url = [], ch_AuthMethod = [], ch_Token = [], ch_PEM = []\<rparr>,
      ca_GRPCMain = \<lparr>cg_Server = [], cg_PEM = []\<rparr>, ca_GRPCStandby = \<lparr>cg_Server = [], cg_PEM = []\<rparr>,
      ca_CertificateDefs = Map.empty\<rparr>"

definition MakeCertDXCaddyDaemon :: CertDXCaddyConfig where
  "MakeCertDXCaddyDaemon = SetDefaultConfig zero_caddy_config"

definition expectArg1 :: "string \<Rightarrow> string list \<Rightarrow> caddy_error + string" where
  "expectArg1 directive args =
     (if length args \<noteq> 1 then Inl (ExpectedOneArg directive (length args)) else Inr (hd args))"

fun unmarshalHttpServerBlock :: "ClientHttpServer \<Rightarrow> segment list \<Rightarrow> caddy_error + ClientHttpServer" where
  "unmarshalHttpServerBlock s [] = Inr s"
| "unmarshalHttpServerBlock s (Seg directive args blk # rest) =
     (case expectArg1 directive args of
        Inl e \<Rightarrow> Inl e
      | Inr v \<Rightarrow>
          (case (if directive = ''url'' then Inr (s\<lparr>ch_Url := v\<rparr>)
                 else if directive = ''authMethod'' then Inr (s\<lparr>ch_AuthMethod := v\<rparr>)
                 else if directive = ''token'' then Inr (s\<lparr>ch_Token := v\<rparr>)
                 else if directive = ''pem'' then Inr (s\<lparr>ch_PEM := v\<rparr>)
                 else Inl (Unrecognized ''http server'' directive)) of
             Inl e \<Rightarrow> Inl e
           | Inr s' \<Rightarrow> if blk \<noteq> [] then Inl (ExpectedOneArg ''{'' 0) else unmarshalHttpServerBlock s' rest))"

fun UnmarshalHttpBlock :: "CertDXCaddyConfig \<Rightarrow> segment list \<Rightarrow> caddy_error + CertDXCaddyConfig" where
  "UnmarshalHttpBlock c [] = Inr c"
| "UnmarshalHttpBlock c (Seg directive args blk # rest) =
     (if directive = ''main_server'' then
        (case unmarshalHttpServerBlock (ca_HttpMain c) blk of
           Inl e \<Rightarrow> Inl e | Inr s \<Rightarrow> UnmarshalHttpBlock (c\<lparr>ca_HttpMain := s\<rparr>) rest)
      else if directive = ''standby_server'' then
        (case unmarshalHttpServerBlock (ca_HttpStandby c) blk of
           Inl e \<Rightarrow> Inl e | Inr s \<Rightarrow> UnmarshalHttpBlock (c\<lparr>ca_HttpStandby := s\<rparr>) rest)
      else Inl (Unrecognized ''http'' directive))"

fun unmarshalGRPCServerBlock :: "ClientGRPCServer \<Rightarrow> segment list \<Rightarrow> caddy_error + ClientGRPCServer" where
  "unmarshalGRPCServerBlock s [] = Inr s"
| "unmarshalGRPCServerBlock s (Seg directive args blk # rest) =
     (case expectArg1 directive args of
        Inl e \<Rightarrow> Inl e
      | Inr v \<Rightarrow>
          (case (if directive = ''server'' then Inr (s\<lparr>cg_Server := v\<rparr>)
                 else if directive = ''pem'' then Inr (s\<lparr>cg_PEM := v\<rparr>)
                 else Inl (Unrecognized ''grpc server'' directive)) of
             Inl e \<Rightarrow> Inl e
           | Inr s' \<Rightarrow> if blk \<noteq> [] then Inl (ExpectedOneArg ''{'' 0) else unmarshalGRPCServerBlock s' rest))"

fun UnmarshalGRPCBlock :: "CertDXCaddyConfig \<Rightarrow> segment list \<Rightarrow> caddy_error + CertDXCaddyConfig" where
  "UnmarshalGRPCBlock c [] = Inr c"
| "UnmarshalGRPCBlock c (Seg directive args blk # rest) =
     (if directive = ''main_server'' then
        (case unmarshalGRPCServerBlock (ca_GRPCMain c) blk of
           Inl e \<Rightarrow> Inl e | Inr s \<Rightarrow> UnmarshalGRPCBlock (c\<lparr>ca_GRPCMain := s\<rparr>) rest)
      else if directive = ''standby_server'' then
        (case unmarshalGRPCServerBlock (ca_GRPCStandby c) blk of
           Inl e \<Rightarrow> Inl e | Inr s \<Rightarrow> UnmarshalGRPCBlock (c\<lparr>ca_GRPCStandby := s\<rparr>) rest)
      else Inl (Unrecognized ''grpc'' directive))"

text \<open>Every word of the block is a name, the braces of a nested block included.\<close>

fun block_words :: "segment list \<Rightarrow> string list" where
  "block_words [] = []"
| "block_words (Seg word args blk # rest) = 
     word # args @ (if blk = [] then [] else ''{'' # block_words blk @ [''}'']) @ block_words rest"

definition UnmarshalCertificateBlock ::
    "string \<Rightarrow> segment list \<Rightarrow> CertDXCaddyConfig \<Rightarrow> caddy_error + CertDXCaddyConfig" where
  "UnmarshalCertificateBlock certID blk c =
     (case CertificateDef_Add (ca_CertificateDefs c) certID (block_words blk) of
        Inl e \<Rightarrow> Inl e
      | Inr defs \<Rightarrow> Inr (c\<lparr>ca_CertificateDefs := defs\<rparr>))"

fun parse_options :: "CertDXCaddyConfig \<Rightarrow> segment list \<Rightarrow> caddy_error + CertDXCaddyConfig" where
  "parse_options c [] = Inr c"
| "parse_options c (Seg directive args blk # rest) =
     (if directive = ''retry_count'' then
        (case expectArg1 directive args of
           Inl e \<Rightarrow> Inl e
         | Inr v \<Rightarrow>
             (case Atoi v of
                None \<Rightarrow> Inl (InvalidValue directive v)
              | Some n \<Rightarrow>
                  if blk \<noteq> [] then Inl (Unrecognized ''certdx'' ''{'')
                  else parse_options (c\<lparr>ca_Common := (ca_Common c)\<lparr>cc_RetryCount := n\<rparr>\<rparr>) rest))
      else if directive = ''mode'' then
        (case expectArg1 directive args of
           Inl e \<Rightarrow> Inl e
         | Inr v \<Rightarrow>
             if blk \<noteq> [] then Inl (Unrecognized ''certdx'' ''{'')
             else parse_options (c\<lparr>ca_Common := (ca_Common c)\<lparr>cc_Mode := v\<rparr>\<rparr>) rest)
      else if directive = ''reconnect_interval'' then
        (case expectArg1 directive args of
           Inl e \<Rightarrow> Inl e
         | Inr v \<Rightarrow>
             if blk \<noteq> [] then Inl (Unrecognized ''certdx'' ''{'')
             else parse_options (c\<lparr>ca_Common := (ca_Common c)\<lparr>cc_ReconnectInterval := v\<rparr>\<rparr>) rest)
      else if directive = ''http'' then
        (if args \<noteq> [] then Inl (NoArgumentExpected ''http'')
         else (case UnmarshalHttpBlock c blk of
             Inl e \<Rightarrow> Inl (FailedBlock ''http'' e) | Inr c' \<Rightarrow> parse_options c' rest))
      else if directive = ''GRPC'' then
        (if args \<noteq> [] then Inl (NoArgumentExpected ''GRPC'')
         else (case UnmarshalGRPCBlock c blk of
             Inl e \<Rightarrow> Inl (FailedBlock ''GRPC'' e) | Inr c' \<Rightarrow> parse_options c' rest))
      else if directive = ''certificate'' then
        (case expectArg1 directive args of
           Inl e \<Rightarrow> Inl e
         | Inr certID \<Rightarrow>
             (case UnmarshalCertificateBlock certID blk c of
                Inl e \<Rightarrow> Inl (FailedBlock ''certificate'' e) | Inr c' \<Rightarrow> parse_options c' rest))
      else Inl (Unrecognized ''certdx'' directive))"

definition parseCertDXGlobalOptions :: "segment \<Rightarrow> caddy_error + CertDXCaddyConfig" where
  "parseCertDXGlobalOptions seg =
     (if sg_args seg \<noteq> [] then Inl (NoArgumentExpected ''certdx'')
      else parse_options MakeCertDXCaddyDaemon (sg_block seg))"

section \<open>The app\<close>

text \<open>\<open>order\<close> is the order in which the loop visits the map of definitions.\<close>

definition Provision ::
    "(string \<Rightarrow> string) \<Rightarrow> (string \<Rightarrow> duration option) \<Rightarrow> ClientConfig \<Rightarrow> (string \<times> string list) list \<Rightarrow>
     CertDXCaddyConfig \<Rightarrow> string + 'h CertDXClientDaemon" where
  "Provision lw parse zero order m =
     (let d0 = MakeCertDXClientDaemon zero;
          c1 = (dm_Config d0)\<lparr>cl_Common := ca_Common m, cl_HttpMain := ca_HttpMain m,
                 cl_HttpStandby := ca_HttpStandby m, cl_GRPCMain := ca_GRPCMain m, cl_GRPCStandby := ca_GRPCStandby m\<rparr>
      in (case parse (cc_ReconnectInterval (ca_Common m)) of
            None \<Rightarrow> Inl (cc_ReconnectInterval (ca_Common m))
          | Some d \<Rightarrow>
              Inr (foldl (\<lambda>r cd. AddCertToWatch lw (fst cd) (snd cd) r)
                (d0\<lparr>dm_Config := c1\<lparr>cl_Common := (cl_Common c1)\<lparr>cc_ReconnectDuration := d\<rparr>\<rparr>\<rparr>) order)))"

datatype caddy_start = StartHttp | StartGrpc | StartError string

definition caddy_Start :: "'h CertDXClientDaemon \<Rightarrow> caddy_start" where
  "caddy_Start d =
     (let mode = cc_Mode (cl_Common (dm_Config d)) in
      if mode = CLIENT_MODE_HTTP then
        (if ch_Url (cl_HttpMain (dm_Config d)) = [] then StartError ''http main_server url is required'' else StartHttp)
      else if mode = CLIENT_MODE_GRPC then
        (if cg_Server (cl_GRPCMain (dm_Config d)) = [] then StartError ''grpc main_server is required'' else StartGrpc)
      else StartError ''unsupported mode'')"

text \<open>\<open>Stop\<close> stops the daemon; the wait for its goroutines that follows changes no state here.\<close>

definition caddy_Stop :: "'h CertDXClientDaemon \<Rightarrow> 'h CertDXClientDaemon" where
  "caddy_Stop d = daemon_Stop d"

definition caddy_GetCertificate :: "(bytes \<Rightarrow> bytes \<Rightarrow> 't option) \<Rightarrow> Key \<Rightarrow> 'h CertDXClientDaemon \<Rightarrow> 't option" where
  "caddy_GetCertificate pair certHash d = GetCertificate pair certHash d"

section \<open>The certificate manager\<close>

record CertDXTls =
  ct_CertId :: string
  ct_certHash :: Key

definition CertDXTls_UnmarshalCaddyfile :: "segment \<Rightarrow> CertDXTls \<Rightarrow> caddy_error + CertDXTls" where
  "CertDXTls_UnmarshalCaddyfile seg certdx =
     (if length (sg_args seg) \<noteq> 1 then Inl (ExpectedOneArg ''certdx'' (length (sg_args seg)))
      else if sg_block seg \<noteq> [] then Inl NoBlockExpected
      else Inr (certdx\<lparr>ct_CertId := hd (sg_args seg)\<rparr>))"

text \<open>\<open>app\<close> is the app that Caddy has for the name certdx, if there is one.\<close>

datatype validate_error = AppNotConfigured | NoDefinition string

definition CertDXTls_Validate ::
    "(string \<Rightarrow> string) \<Rightarrow> CertDXCaddyConfig option \<Rightarrow> CertDXTls \<Rightarrow> validate_error + CertDXTls" where
  "CertDXTls_Validate lw app certdx =
     (case app of
        None \<Rightarrow> Inl AppNotConfigured
      | Some a \<Rightarrow>
          (case CertificateDef_Lookup (ca_CertificateDefs a) (ct_CertId certdx) of
             None \<Rightarrow> Inl (NoDefinition (ct_CertId certdx))
           | Some domains \<Rightarrow> Inr (certdx\<lparr>ct_certHash := AsKey lw domains\<rparr>)))"

definition CertDXTls_GetCertificate ::
    "(bytes \<Rightarrow> bytes \<Rightarrow> 't option) \<Rightarrow> CertDXTls \<Rightarrow> 'h CertDXClientDaemon \<Rightarrow> 't option" where
  "CertDXTls_GetCertificate pair certdx d = caddy_GetCertificate pair (ct_certHash certdx) d"

section \<open>Writing a Caddyfile\<close>

text \<open>The reference: a configuration as the options that state it.\<close>

fun digits :: "nat \<Rightarrow> string" where
  "digits n = (if n < 10 then [char_of (48 + n)] else digits (n div 10) @ [char_of (48 + n mod 10)])"

declare digits.simps [simp del]

definition Itoa :: "int \<Rightarrow> string" where
  "Itoa n = (if n < 0 then CHR ''-'' # digits (nat (- n)) else digits (nat n))"

definition setting :: "string \<Rightarrow> string \<Rightarrow> segment" where
  "setting directive v = Seg directive [v] []"

definition print_http_server :: "string \<Rightarrow> ClientHttpServer \<Rightarrow> segment" where
  "print_http_server name s = Seg name []
     [setting ''url'' (ch_Url s), setting ''authMethod'' (ch_AuthMethod s), setting ''token'' (ch_Token s), setting ''pem'' (ch_PEM s)]"

definition print_grpc_server :: "string \<Rightarrow> ClientGRPCServer \<Rightarrow> segment" where
  "print_grpc_server name s = Seg name [] [setting ''server'' (cg_Server s), setting ''pem'' (cg_PEM s)]"

definition print_certificate :: "string \<times> string list \<Rightarrow> segment" where
  "print_certificate cd = Seg ''certificate'' [fst cd] (map (\<lambda>d. Seg d [] []) (snd cd))"

definition print_config :: "(string \<times> string list) list \<Rightarrow> CertDXCaddyConfig \<Rightarrow> segment" where
  "print_config defs c = Seg ''certdx'' []
     ([setting ''retry_count'' (Itoa (cc_RetryCount (ca_Common c))), setting ''mode'' (cc_Mode (ca_Common c)),
       setting ''reconnect_interval'' (cc_ReconnectInterval (ca_Common c)),
       Seg ''http'' [] [print_http_server ''main_server'' (ca_HttpMain c), print_http_server ''standby_server'' (ca_HttpStandby c)],
       Seg ''GRPC'' [] [print_grpc_server ''main_server'' (ca_GRPCMain c), print_grpc_server ''standby_server'' (ca_GRPCStandby c)]]
      @ map print_certificate defs)"

section \<open>Lemmas\<close>

lemma of_char_digit: "n < 10 \<Longrightarrow> (of_char (char_of (48 + n :: nat) :: char) :: nat) = 48 + n"
  by simp

lemma parse_digits_append:
  "parse_digits acc (xs @ ys) = (case parse_digits acc xs of None \<Rightarrow> None | Some a \<Rightarrow> parse_digits a ys)"
  by (induction acc xs rule: parse_digits.induct) (auto simp: Let_def)

lemma parse_digits_digits: "parse_digits 0 (digits n) = Some n"
proof (induction n rule: digits.induct)
  case (1 n)
  show ?case
  proof (cases "n < 10")
    case True
    then show ?thesis by (simp add: digits.simps [of n] of_char_digit)
  next
    case False
    then show ?thesis
      using 1 by (simp add: digits.simps [of n] parse_digits_append of_char_digit)
  qed
qed

lemma digits_not_Nil [simp]: "digits n \<noteq> []"
  by (subst digits.simps) simp

lemma hd_digits: "\<exists>m < 10. hd (digits n) = char_of (48 + m :: nat)"
proof (induction n rule: digits.induct)
  case (1 n)
  then show ?case by (cases "n < 10") (auto simp: digits.simps [of n])
qed

lemma digits_no_sign: "hd (digits n) \<noteq> CHR ''-''" "hd (digits n) \<noteq> CHR ''+''"
proof -
  obtain m where m: "m < 10" "hd (digits n) = char_of (48 + m :: nat)" using hd_digits by blast
  have "(of_char (hd (digits n)) :: nat) = 48 + m" using m by (simp add: of_char_digit)
  then show "hd (digits n) \<noteq> CHR ''-''" "hd (digits n) \<noteq> CHR ''+''" by auto
qed

lemma Atoi_Itoa:
  assumes "- (2 ^ 63) \<le> n" "n < 2 ^ 63"
  shows "Atoi (Itoa n) = Some n"
proof (cases "n < 0")
  case True
  then show ?thesis using assms by (simp add: Atoi_def Itoa_def parse_digits_digits)
next
  case False
  obtain c cs where d: "digits (nat n) = c # cs" by (meson digits_not_Nil neq_Nil_conv)
  then have "c \<noteq> CHR ''-''" "c \<noteq> CHR ''+''" using digits_no_sign [of "nat n"] by simp_all
  then show ?thesis
    using False assms d parse_digits_digits [of "nat n"] by (simp add: Atoi_def Itoa_def)
qed

lemma block_words_names [simp]: "block_words (map (\<lambda>d. Seg d [] []) ds) = ds"
  by (induction ds) auto

lemma expectArg1_one [simp]: "expectArg1 directive [v] = Inr v"
  by (simp add: expectArg1_def)

lemma http_server_print [simp]:
  "unmarshalHttpServerBlock s (sg_block (print_http_server name t)) = Inr t"
  by (simp add: print_http_server_def setting_def)

lemma grpc_server_print [simp]:
  "unmarshalGRPCServerBlock s (sg_block (print_grpc_server name t)) = Inr t"
  by (simp add: print_grpc_server_def setting_def)

text \<open>The definitions of certificates accumulate.\<close>

lemma parse_certificates:
  assumes "distinct (map fst defs)" "\<forall>(i, ds) \<in> set defs. i \<noteq> [] \<and> ds \<noteq> []"
    and "\<forall>i \<in> fst ` set defs. ca_CertificateDefs c i = None"
  shows "parse_options c (map print_certificate defs) =
    Inr (c\<lparr>ca_CertificateDefs := ca_CertificateDefs c ++ map_of defs\<rparr>)"
  using assms
proof (induction defs arbitrary: c)
  case (Cons cd defs)
  obtain i ds where cd: "cd = (i, ds)" by (cases cd)
  let ?c = "c\<lparr>ca_CertificateDefs := (ca_CertificateDefs c)(i \<mapsto> ds)\<rparr>"
  have "UnmarshalCertificateBlock i (map (\<lambda>d. Seg d [] []) ds) c = Inr ?c"
    using Cons.prems cd by (simp add: UnmarshalCertificateBlock_def CertificateDef_Add_def)
  then have "parse_options c (map print_certificate (cd # defs)) = parse_options ?c (map print_certificate defs)"
    by (simp add: print_certificate_def cd)
  also have "\<dots> = Inr (?c\<lparr>ca_CertificateDefs := ca_CertificateDefs ?c ++ map_of defs\<rparr>)"
    using Cons.prems cd by (intro Cons.IH) auto
  also have "?c\<lparr>ca_CertificateDefs := ca_CertificateDefs ?c ++ map_of defs\<rparr> =
      c\<lparr>ca_CertificateDefs := ca_CertificateDefs c ++ map_of (cd # defs)\<rparr>"
  proof -
    have "i \<notin> dom (map_of defs)" using Cons.prems(1) cd by (simp add: dom_map_of_conv_image_fst)
    then have "(ca_CertificateDefs c)(i \<mapsto> ds) ++ map_of defs = ca_CertificateDefs c ++ map_of (cd # defs)"
      by (simp add: cd map_add_upd_left)
    then show ?thesis by simp
  qed
  finally show ?case .
qed simp

text \<open>Registering the definitions with the daemon.\<close>

definition fresh_plain :: "string \<times> string list \<Rightarrow> 'h watchingCert" where
  "fresh_plain cd =
     \<lparr>wc_Data = \<lparr>cd_Domains = snd cd, cd_Fullchain = [], cd_Key = []\<rparr>,
      wc_Config = \<lparr>cf_Name = fst cd, cf_SavePath = [], cf_Domains = snd cd, cf_ReloadCommand = []\<rparr>,
      wc_UpdateHandlers = []\<rparr>"

lemma add_plain:
  "foldl (\<lambda>r cd. AddCertToWatch lw (fst cd) (snd cd) r) r order =
     r\<lparr>dm_certs := foldl (\<lambda>m cd. m(AsKey lw (snd cd) \<mapsto> fresh_plain cd)) (dm_certs r) order\<rparr>"
  by (induction order arbitrary: r) (simp_all add: AddCertToWatch_def AddCertToWatchOpt_def fresh_plain_def Let_def)

section \<open>Properties\<close>

text \<open>
  C38: The options of the Caddyfile can state every configuration: writing out a configuration, with
  the definitions of certificates in any order, and reading it gives exactly this configuration.
  The retry count has to fit an int, identifiers have to be different and, like the lists of names,
  not empty.
\<close>

theorem caddyfile_roundtrip:
  assumes "- (2 ^ 63) \<le> cc_RetryCount (ca_Common c)" "cc_RetryCount (ca_Common c) < 2 ^ 63"
    and "cc_ReconnectDuration (ca_Common c) = 0"
    and "ca_CertificateDefs c = map_of defs" "distinct (map fst defs)"
    and "\<forall>(i, ds) \<in> set defs. i \<noteq> [] \<and> ds \<noteq> []"
  shows "parseCertDXGlobalOptions (print_config defs c) = Inr c"
proof -
  let ?c0 = "c\<lparr>ca_CertificateDefs := Map.empty\<rparr>"
  have "parseCertDXGlobalOptions (print_config defs c) = parse_options ?c0 (map print_certificate defs)"
    using assms(3) Atoi_Itoa [OF assms(1,2)]
    by (cases c, cases "ca_Common c", cases "ca_HttpMain c", cases "ca_HttpStandby c", cases "ca_GRPCMain c",
        cases "ca_GRPCStandby c") (simp add: parseCertDXGlobalOptions_def print_config_def setting_def
        print_http_server_def print_grpc_server_def MakeCertDXCaddyDaemon_def SetDefaultConfig_def zero_caddy_config_def)
  also have "\<dots> = Inr (?c0\<lparr>ca_CertificateDefs := ca_CertificateDefs ?c0 ++ map_of defs\<rparr>)"
    by (rule parse_certificates) (use assms(5,6) in auto)
  finally show ?thesis using assms(4) by simp
qed

text \<open>
  A certificate manager that Caddy accepted serves the bundle it names: when the app was
  provisioned from the same definitions and the manager's certificate id was validated, then the
  daemon watches the bundle of the definition under the manager's key, whatever order the map is
  visited in, and after any updates the manager hands out the last chain and key.
\<close>

theorem caddy_serves_bundle:
  assumes "Provision lw parse zero order m = Inr (d :: 'h CertDXClientDaemon)"
    and "map_of order = ca_CertificateDefs m"
    and "CertDXTls_Validate lw (Some m) t = Inr t'"
  shows "\<exists>wc. dm_certs d (ct_certHash t') = Some wc \<and> AsKey lw (cd_Domains (wc_Data wc)) = ct_certHash t' \<and>
    (\<exists>domains. ca_CertificateDefs m (ct_CertId t) = Some domains \<and> ct_certHash t' = AsKey lw domains) \<and>
    (ds \<noteq> [] \<longrightarrow> CertDXTls_GetCertificate pair t'
        (d\<lparr>dm_certs := (dm_certs d)(ct_certHash t' \<mapsto> fst (watchUpdate ds wc))\<rparr>) =
      pair (cd_Fullchain (last ds)) (cd_Key (last ds)))"
proof -
  obtain domains where dom: "ca_CertificateDefs m (ct_CertId t) = Some domains" "ct_certHash t' = AsKey lw domains"
    using assms(3) by (auto simp: CertDXTls_Validate_def CertificateDef_Lookup_def split: option.splits)
  have "(ct_CertId t, domains) \<in> set order" using dom(1) assms(2) by (metis map_of_SomeD)
  then have ne: "filter (\<lambda>cd. AsKey lw (snd cd) = AsKey lw domains) order \<noteq> []"
    unfolding filter_empty_conv by (metis snd_conv)
  have "dm_certs d (AsKey lw domains) = Some (fresh_plain (last (filter (\<lambda>cd. AsKey lw (snd cd) = AsKey lw domains) order)))"
    using assms(1) ne by (auto simp: Provision_def Let_def add_plain MakeCertDXClientDaemon_def foldl_upd_at
        split: option.splits list.splits)
  moreover have "AsKey lw (snd (last (filter (\<lambda>cd. AsKey lw (snd cd) = AsKey lw domains) order))) = AsKey lw domains"
    using last_in_set [OF ne] by simp
  moreover have "ds \<noteq> [] \<Longrightarrow> material (wc_Data (fst (watchUpdate ds wc))) = material (last ds)" for wc :: "'h watchingCert"
    using watchUpdate_spec [of ds wc] by (simp add: last_map)
  ultimately show ?thesis
    using dom by (auto simp: fresh_plain_def CertDXTls_GetCertificate_def caddy_GetCertificate_def GetCertificate_def material_def)
qed

definition ex_caddy :: CertDXCaddyConfig where
  "ex_caddy = MakeCertDXCaddyDaemon\<lparr>ca_CertificateDefs := map_of [(''site'', [''a.b'', ''c.b'']), (''api'', [''d.b''])]\<rparr>"

theorem caddyfile_roundtrip_witness:
  "parseCertDXGlobalOptions (print_config [(''site'', [''a.b'', ''c.b'']), (''api'', [''d.b''])] ex_caddy) = Inr ex_caddy"
  by (rule caddyfile_roundtrip)
    (simp_all add: ex_caddy_def MakeCertDXCaddyDaemon_def SetDefaultConfig_def zero_caddy_config_def)

theorem caddy_serves_bundle_witness:
  "\<exists>d t' wc. Provision id (\<lambda>_. Some 1) example_client_config [(''api'', [''d.b'']), (''site'', [''a.b'', ''c.b''])] ex_caddy =
      Inr (d :: unit CertDXClientDaemon) \<and>
    CertDXTls_Validate id (Some ex_caddy) \<lparr>ct_CertId = ''site'', ct_certHash = 0\<rparr> = Inr t' \<and>
    dm_certs d (ct_certHash t') = Some wc"
proof -
  let ?order = "[(''api'', [''d.b'']), (''site'', [''a.b'', ''c.b''])]"
  obtain d where d: "Provision id (\<lambda>_. Some 1) example_client_config ?order ex_caddy = Inr (d :: unit CertDXClientDaemon)"
    by (simp add: Provision_def Let_def)
  have o: "map_of ?order = ca_CertificateDefs ex_caddy"
    by (auto simp: ex_caddy_def)
  obtain t' where t: "CertDXTls_Validate id (Some ex_caddy) \<lparr>ct_CertId = ''site'', ct_certHash = 0\<rparr> = Inr t'"
    by (simp add: CertDXTls_Validate_def CertificateDef_Lookup_def ex_caddy_def)
  show ?thesis using caddy_serves_bundle [OF d o t] d t by blast
qed

end
