(* ===== verification/Sds_Server.thy ===== *)
theory Sds_Server
  imports Server "HOL-Library.AList" "HOL-Library.Multiset"
begin

text \<open>
  \<open>pkg/server/sds.go\<close>: the gRPC endpoint that speaks Envoy's secret discovery service. A stream has
  a receiving goroutine, which is the function \<open>recv_request\<close> on one request, and one goroutine
  \<open>handleCert\<close> per pack of names, which is a step relation. The messages are records with the
  fields the code reads; a metadata value is what \<open>structpb\<close> gives.
\<close>

section \<open>Messages\<close>

datatype pval = PNull | PBool bool | PNumber int | PString string | PList "pval list" | PStruct "string \<rightharpoonup> pval"

record sds_node =
  nd_Metadata :: "(string \<rightharpoonup> pval) option"

record DiscoveryRequest =
  dr_TypeUrl :: string
  dr_VersionInfo :: string
  dr_Node :: "sds_node option"
  dr_ResourceNames :: "string list"
  dr_ErrorDetail :: "(int \<times> string) option"

record DiscoveryResponse =
  ds_VersionInfo :: string
  ds_TypeUrl :: string
  ds_Name :: string           \<comment> \<open>the one secret in \<open>Resources\<close>\<close>
  ds_CertificateChain :: bytes
  ds_PrivateKey :: bytes

definition typeUrl :: string where
  "typeUrl = ''type.googleapis.com/envoy.extensions.transport_sockets.tls.v3.Secret''"

definition domainKey :: string where
  "domainKey = ''domains''"

datatype sds_error =
    UnexpectedType string
  | MissingNodeMetadata
  | NoDomainKey
  | DomainsNotMap
  | MissingPack string
  | PackNotArray
  | DomainNotString
  | DomainsNotAllowed "string list"

section \<open>The receiving goroutine\<close>

text \<open>The state of a stream: the domain sets of the first request, one channel per pack, and the
  handlers that were started, with their names and entries.\<close>

record 'w sds_stream =
  sd_domainSets :: "(string \<rightharpoonup> pval) option"
  sd_dispatch :: "string \<rightharpoonup> nat"
  sd_handlers :: "(string \<times> string list \<times> Key) list"
  sd_srv :: "'w CertDXServer"

fun as_strings :: "pval list \<Rightarrow> string list option" where
  "as_strings [] = Some []"
| "as_strings (PString v # items) = map_option (\<lambda>ds. v # ds) (as_strings items)"
| "as_strings (_ # items) = None"

text \<open>The domain sets: those of the stream, or those of the metadata of this request.\<close>

definition domain_sets ::
    "(string \<rightharpoonup> pval) option \<Rightarrow> DiscoveryRequest \<Rightarrow> sds_error + (string \<rightharpoonup> pval)" where
  "domain_sets sets req =
     (case sets of
        Some m \<Rightarrow> Inr m
      | None \<Rightarrow>
          (case dr_Node req of
             None \<Rightarrow> Inl MissingNodeMetadata
           | Some n \<Rightarrow>
               (case nd_Metadata n of
                  None \<Rightarrow> Inl MissingNodeMetadata
                | Some flds \<Rightarrow>
                    (case flds domainKey of
                       None \<Rightarrow> Inl NoDomainKey
                     | Some (PStruct m) \<Rightarrow> Inr m
                     | Some _ \<Rightarrow> Inl DomainsNotMap))))"

text \<open>
  The loop over \<open>ResourceNames\<close>: a name with a channel is an acknowledgement, which is handed to
  its handler; the others are collected in \<open>packRequests\<close>. The result lists the names that were
  handed on before the loop ended.
\<close>

fun scan_names ::
    "(string \<Rightarrow> string) \<Rightarrow> string list \<Rightarrow> (string \<rightharpoonup> nat) \<Rightarrow> (string \<rightharpoonup> pval) \<Rightarrow> string list \<Rightarrow>
     (string \<times> string list) list \<Rightarrow> string list \<times> (sds_error + (string \<times> string list) list)" where
  "scan_names lw allowed dispatch sets [] packs = ([], Inr packs)"
| "scan_names lw allowed dispatch sets (name # names) packs =
     (case dispatch name of
        Some _ \<Rightarrow> (case scan_names lw allowed dispatch sets names packs of (acks, r) \<Rightarrow> (name # acks, r))
      | None \<Rightarrow>
          (case sets name of
             None \<Rightarrow> ([], Inl (MissingPack name))
           | Some (PList items) \<Rightarrow>
               (case as_strings items of
                  None \<Rightarrow> ([], Inl DomainNotString)
                | Some domains \<Rightarrow>
                    if \<not> AllAllowed lw allowed domains then ([], Inl (DomainsNotAllowed domains))
                    else scan_names lw allowed dispatch sets names (AList.update name domains packs))
           | Some _ \<Rightarrow> ([], Inl PackNotArray)))"

text \<open>Starting the handlers, in the order in which the map is iterated.\<close>

fun start_handlers :: "(string \<Rightarrow> string) \<Rightarrow> (string \<times> string list) list \<Rightarrow> 'w sds_stream \<Rightarrow> 'w sds_stream" where
  "start_handlers lw [] st = st"
| "start_handlers lw ((name, domains) # packs) st =
     (let (k, m) = get lw (sv_chans (sd_srv st)) domains (sv_cache (sd_srv st)) in
      start_handlers lw packs
        (st\<lparr>sd_srv := (sd_srv st)\<lparr>sv_cache := m, sv_chans := sv_chans (sd_srv st) + 1\<rparr>,
            sd_dispatch := (sd_dispatch st)(name \<mapsto> length (sd_handlers st)),
            sd_handlers := sd_handlers st @ [(name, domains, k)]\<rparr>))"

text \<open>One iteration of the loop on a received request: the acknowledgements that were handed on,
  the error that ends the stream, if any, and the state. \<open>iter\<close> is the order of the map.\<close>

definition recv_request ::
    "(string \<Rightarrow> string) \<Rightarrow> ((string \<times> string list) list \<Rightarrow> (string \<times> string list) list) \<Rightarrow>
     DiscoveryRequest \<Rightarrow> 'w sds_stream \<Rightarrow> string list \<times> sds_error option \<times> 'w sds_stream" where
  "recv_request lw iter req st =
     (if dr_TypeUrl req \<noteq> typeUrl then ([], Some (UnexpectedType (dr_TypeUrl req)), st)
      else (case domain_sets (sd_domainSets st) req of
          Inl e \<Rightarrow> ([], Some e, st)
        | Inr sets \<Rightarrow>
            let st1 = st\<lparr>sd_domainSets := Some sets\<rparr> in
            (case scan_names lw (ac_AllowedDomains (sc_ACME (sv_Config (sd_srv st)))) (sd_dispatch st) sets
                    (dr_ResourceNames req) [] of
               (acks, Inl e) \<Rightarrow> (acks, Some e, st1)
             | (acks, Inr packs) \<Rightarrow> (acks, None, start_handlers lw (iter packs) st1))))"

text \<open>The requests of a stream up to the first that ends it.\<close>

fun recv_all ::
    "(string \<Rightarrow> string) \<Rightarrow> ((string \<times> string list) list \<Rightarrow> (string \<times> string list) list) \<Rightarrow>
     DiscoveryRequest list \<Rightarrow> 'w sds_stream \<Rightarrow> sds_error option \<times> 'w sds_stream" where
  "recv_all lw iter [] st = (None, st)"
| "recv_all lw iter (req # reqs) st =
     (case recv_request lw iter req st of
        (_, Some e, st') \<Rightarrow> (Some e, st')
      | (_, None, st') \<Rightarrow> recv_all lw iter reqs st')"

definition new_stream :: "'w CertDXServer \<Rightarrow> 'w sds_stream" where
  "new_stream s = \<lparr>sd_domainSets = None, sd_dispatch = Map.empty, sd_handlers = [], sd_srv = s\<rparr>"

section \<open>Lemmas on the receiving goroutine\<close>

lemma scan_names_packs:
  assumes "scan_names lw allowed dispatch sets names packs = (acks, Inr packs')"
    and "distinct (map fst packs)"
    and "\<And>n ds. (n, ds) \<in> set packs \<Longrightarrow> dispatch n = None \<and> AllAllowed lw allowed ds"
  shows "distinct (map fst packs') \<and> (\<forall>(n, ds) \<in> set packs'. dispatch n = None \<and> AllAllowed lw allowed ds)"
  using assms
proof (induction lw allowed dispatch sets names packs arbitrary: acks
    rule: scan_names.induct)
  case (1 lw allowed dispatch sets packs)
  then show ?case by auto
next
  case (2 lw allowed dispatch sets name names packs)
  show ?case
  proof (cases "dispatch name")
    case None
    then obtain items ds where d: "sets name = Some (PList items)" "as_strings items = Some ds"
      "AllAllowed lw allowed ds"
      "scan_names lw allowed dispatch sets names (AList.update name ds packs) = (acks, Inr packs')"
      using "2.prems"(1) by (auto split: option.splits pval.splits if_splits)
    have "\<And>n es. (n, es) \<in> set (AList.update name ds packs) \<Longrightarrow> dispatch n = None \<and> AllAllowed lw allowed es"
      using "2.prems"(3) None d(3) update_keys
      by (metis (no_types, lifting) distinct_update map_of_eq_Some_iff "2.prems"(2) update_conv'
          fun_upd_apply option.inject)
    then show ?thesis
      using "2.IH"(1) [OF None d(1) refl d(2) _ d(4)] "2.prems"(2) d(3) by (simp add: distinct_update)
  next
    case (Some ch)
    then show ?thesis
      using "2.IH"(2) [OF Some] "2.prems" by (auto split: prod.splits)
  qed
qed

lemma start_handlers_config [simp]: "sv_Config (sd_srv (start_handlers lw packs st)) = sv_Config (sd_srv st)"
  by (induction lw packs st rule: start_handlers.induct) (auto simp: Let_def split: prod.splits)

lemma start_handlers_handlers:
  "sd_handlers (start_handlers lw packs st) = sd_handlers st @ map (\<lambda>(n, ds). (n, ds, AsKey lw ds)) packs"
  by (induction lw packs st rule: start_handlers.induct)
    (auto simp: Let_def get_def getNoLock_def split: prod.splits option.splits)

lemma start_handlers_dispatch:
  "dom (sd_dispatch (start_handlers lw packs st)) = dom (sd_dispatch st) \<union> fst ` set packs"
  by (induction lw packs st rule: start_handlers.induct) (auto simp: Let_def split: prod.splits)

lemma start_handlers_cache:
  "dom (sv_cache (sd_srv st)) \<union> (\<lambda>(n, ds). AsKey lw ds) ` set packs \<subseteq> dom (sv_cache (sd_srv (start_handlers lw packs st)))"
proof (induction lw packs st rule: start_handlers.induct)
  case (2 lw name domains packs st)
  obtain k m where g: "get lw (sv_chans (sd_srv st)) domains (sv_cache (sd_srv st)) = (k, m)" by fastforce
  have "k = AsKey lw domains" "insert k (dom (sv_cache (sd_srv st))) \<subseteq> dom m"
    using g by (auto simp: get_def getNoLock_def Let_def split: option.splits)
  then show ?case
    using "2.IH" [OF g [symmetric] refl] g by auto
qed simp

text \<open>At most one handler per name, each for names under the allow-list and on the entry of its
  bundle.\<close>

definition stream_inv :: "(string \<Rightarrow> string) \<Rightarrow> string set \<Rightarrow> 'w sds_stream \<Rightarrow> bool" where
  "stream_inv lw requested st \<longleftrightarrow>
     distinct (map fst (sd_handlers st)) \<and> dom (sd_dispatch st) = fst ` set (sd_handlers st) \<and>
     (\<forall>(n, ds, k) \<in> set (sd_handlers st). n \<in> requested \<and> k = AsKey lw ds \<and>
        AllAllowed lw (ac_AllowedDomains (sc_ACME (sv_Config (sd_srv st)))) ds \<and>
        sv_cache (sd_srv st) k \<noteq> None)"

lemma scan_names_requested:
  "scan_names lw allowed dispatch sets names packs = (acks, Inr packs') \<Longrightarrow>
     fst ` set packs' \<subseteq> fst ` set packs \<union> set names"
proof (induction lw allowed dispatch sets names packs arbitrary: acks rule: scan_names.induct)
  case (2 lw allowed dispatch sets name names packs)
  have upd: "fst ` set (AList.update name ds packs) = insert name (fst ` set packs)" for ds
    by (induction packs) auto
  show ?case
  proof (cases "dispatch name")
    case None
    then obtain items ds where d: "sets name = Some (PList items)" "as_strings items = Some ds"
      "AllAllowed lw allowed ds"
      "scan_names lw allowed dispatch sets names (AList.update name ds packs) = (acks, Inr packs')"
      using "2.prems" by (auto split: option.splits pval.splits if_splits)
    then show ?thesis
      using "2.IH"(1) [OF None d(1) refl d(2) _ d(4)] upd by auto
  next
    case (Some ch)
    then show ?thesis
      using "2.IH"(2) [OF Some] "2.prems" by (auto split: prod.splits)
  qed
qed simp

lemma stream_inv_start:
  assumes inv: "stream_inv lw R st" and "distinct (map fst packs)"
    and "\<And>n ds. (n, ds) \<in> set packs \<Longrightarrow> sd_dispatch st n = None \<and> n \<in> R' \<and>
      AllAllowed lw (ac_AllowedDomains (sc_ACME (sv_Config (sd_srv st)))) ds"
    and "R \<subseteq> R'"
  shows "stream_inv lw R' (start_handlers lw packs st)"
proof -
  let ?st = "start_handlers lw packs st"
  have fst: "map fst (sd_handlers ?st) = map fst (sd_handlers st) @ map fst packs"
    by (simp add: start_handlers_handlers case_prod_beta comp_def)
  have "fst ` set packs \<inter> dom (sd_dispatch st) = {}"
    using assms(3) by (auto simp: domIff)
  then have "distinct (map fst (sd_handlers ?st))"
    using inv assms(2) unfolding fst by (simp add: stream_inv_def Int_commute)
  moreover have "dom (sd_dispatch ?st) = fst ` set (sd_handlers ?st)"
    using inv by (auto simp: start_handlers_dispatch start_handlers_handlers stream_inv_def image_Un image_image case_prod_beta)
  moreover have "n \<in> R' \<and> k = AsKey lw ds \<and>
      AllAllowed lw (ac_AllowedDomains (sc_ACME (sv_Config (sd_srv ?st)))) ds \<and> sv_cache (sd_srv ?st) k \<noteq> None"
    if mem: "(n, ds, k) \<in> set (sd_handlers ?st)" for n ds k
  proof -
    consider "(n, ds, k) \<in> set (sd_handlers st)" | "(n, ds) \<in> set packs" "k = AsKey lw ds"
      using mem by (auto simp: start_handlers_handlers)
    then show ?thesis
    proof cases
      case 1
      then have "n \<in> R \<and> k = AsKey lw ds \<and> k \<in> dom (sv_cache (sd_srv st)) \<and>
          AllAllowed lw (ac_AllowedDomains (sc_ACME (sv_Config (sd_srv st)))) ds"
        using inv by (auto simp: stream_inv_def)
      then show ?thesis
        using assms(4) start_handlers_cache [of st lw packs] by auto
    next
      case 2
      moreover have "AsKey lw ds \<in> (\<lambda>(n, ds). AsKey lw ds) ` set packs"
        using 2(1) by (force simp: image_iff)
      ultimately show ?thesis
        using assms(3) [OF 2(1)] start_handlers_cache [of st lw packs] by auto
    qed
  qed
  ultimately show ?thesis
    by (auto simp: stream_inv_def)
qed

lemma recv_request_inv:
  assumes inv: "stream_inv lw R st" and iter: "\<And>ps. mset (iter ps) = mset ps"
    and "recv_request lw iter req st = (acks, err, st')"
  shows "stream_inv lw (R \<union> set (dr_ResourceNames req)) st' \<and> sv_Config (sd_srv st') = sv_Config (sd_srv st) \<and>
    (err \<noteq> None \<longrightarrow> sd_handlers st' = sd_handlers st \<and> sd_srv st' = sd_srv st)"
proof (cases err)
  case (Some e)
  then have "sd_handlers st' = sd_handlers st" "sd_srv st' = sd_srv st" "sd_dispatch st' = sd_dispatch st"
    using assms(3) by (auto simp: recv_request_def Let_def split: if_splits sum.splits prod.splits)
  then show ?thesis
    using inv by (auto simp: stream_inv_def)
next
  case None
  let ?al = "ac_AllowedDomains (sc_ACME (sv_Config (sd_srv st)))"
  obtain sets packs where sc: "scan_names lw ?al (sd_dispatch st) sets (dr_ResourceNames req) [] = (acks, Inr packs)"
    and st': "st' = start_handlers lw (iter packs) (st\<lparr>sd_domainSets := Some sets\<rparr>)"
    using assms(3) None by (auto simp: recv_request_def Let_def split: if_splits sum.splits prod.splits)
  have set_iter: "set (iter packs) = set packs"
    using iter [of packs] by (metis set_mset_mset)
  have dist: "distinct (map fst (iter packs))"
    using scan_names_packs [OF sc] iter [of packs] by (simp add: mset_eq_imp_distinct_iff [of "map fst (iter packs)" "map fst packs"])
  have ok: "sd_dispatch st n = None \<and> AllAllowed lw ?al ds \<and> n \<in> set (dr_ResourceNames req)"
    if "(n, ds) \<in> set packs" for n ds
    using scan_names_packs [OF sc] scan_names_requested [OF sc] that by force
  have "stream_inv lw R (st\<lparr>sd_domainSets := Some sets\<rparr>)"
    using inv by (simp add: stream_inv_def)
  then have "stream_inv lw (R \<union> set (dr_ResourceNames req)) st'"
    unfolding st' by (rule stream_inv_start [OF _ dist]) (use ok set_iter in auto)
  then show ?thesis
    using None st' by simp
qed

lemma recv_all_inv:
  assumes "stream_inv lw R st" and iter: "\<And>ps. mset (iter ps) = mset ps"
    and "recv_all lw iter reqs st = (err, st')"
  shows "stream_inv lw (R \<union> (\<Union>r \<in> set reqs. set (dr_ResourceNames r))) st' \<and> sv_Config (sd_srv st') = sv_Config (sd_srv st)"
  using assms(1,3)
proof (induction reqs arbitrary: R st)
  case (Cons req reqs)
  obtain acks e st1 where r: "recv_request lw iter req st = (acks, e, st1)" by (metis prod.exhaust)
  note inv = recv_request_inv [OF Cons.prems(1) iter r]
  have mono: "stream_inv lw A x \<Longrightarrow> A \<subseteq> B \<Longrightarrow> stream_inv lw B x" for A B and x :: "'a sds_stream"
    by (auto simp: stream_inv_def)
  show ?case
  proof (cases e)
    case None
    then show ?thesis
      using Cons.IH [of _ st1] Cons.prems(2) r inv by (fastforce simp: Un_assoc)
  next
    case (Some x)
    then show ?thesis
      using Cons.prems(2) r inv by (auto intro: mono)
  qed
qed simp

section \<open>The goroutine of a pack\<close>

text \<open>
  A contract that the entry offers to those that follow it: a snapshot pairs a certificate with a
  version, and publishing replaces the certificate and moves the version by one.
\<close>

locale versioned_cert =
  fixes snap :: "'s \<Rightarrow> 'c \<times> 64 word"
    and pub :: "'c \<Rightarrow> 's \<Rightarrow> 's"
  assumes snap_pub: "snap (pub c s) = (c, snd (snap s) + 1)"
begin

lemma snap_pubs: "snd (snap (foldl (\<lambda>s c. pub c s) s cs)) = snd (snap s) + of_nat (length cs)"
  by (induction cs arbitrary: s) (auto simp: snap_pub)

lemma same_version:
  assumes "length cs < 2 ^ 64" "snd (snap (foldl (\<lambda>s c. pub c s) s cs)) = snd (snap s)"
  shows "cs = []"
proof -
  have "(of_nat (length cs) :: 64 word) = 0"
    using assms(2) by (simp add: snap_pubs)
  then have "(2 :: nat) ^ 64 dvd length cs"
    by (simp add: word_of_nat_eq_0_iff)
  then have "length cs = 0"
    using assms(1) by (meson dvd_imp_le not_gr_zero not_le)
  then show ?thesis by simp
qed

end

text \<open>The entry after publications. The channel does not matter for a snapshot.\<close>

definition pub :: "CertT \<Rightarrow> certEntry \<Rightarrow> certEntry" where
  "pub c e = snd (publish c 0 e)"

definition pubs_on :: "certEntry \<Rightarrow> CertT list \<Rightarrow> certEntry" where
  "pubs_on e cs = foldl (\<lambda>e c. pub c e) e cs"

interpretation entry_versions: versioned_cert Snapshot pub
  by unfold_locales (simp add: pub_def publish_def Snapshot_def)

datatype pack_pc =
    PSubscribe
  | PFirst
  | PFirstWait "64 word"
  | PSnap
  | POffer CertT "64 word" nat
  | PAck string CertT "64 word" nat
  | PUpdate CertT "64 word" nat
  | PEnd
  | PCrash           \<comment> \<open>a nil \<open>ErrorDetail\<close> was dereferenced\<close>

text \<open>The number in a position is history: the renewals published when the snapshot was taken. So
  are the fields of the renewals since the start and of the responses that were sent.\<close>

record pack =
  pk_entry :: certEntry
  pk_pc :: pack_pc
  pk_now :: time
  pk_done :: bool
  pk_pubs :: "CertT list"
  pk_offers :: "(nat \<times> DiscoveryResponse) list"

definition secret_response :: "(time \<Rightarrow> string) \<Rightarrow> string \<Rightarrow> CertT \<Rightarrow> DiscoveryResponse" where
  "secret_response fmt name cert =
     \<lparr>ds_VersionInfo = fmt (c_RenewAt cert), ds_TypeUrl = typeUrl, ds_Name = name,
      ds_CertificateChain = c_FullChain cert, ds_PrivateKey = c_Key cert\<rparr>"

definition waits_on_ctx :: "pack_pc \<Rightarrow> bool" where
  "waits_on_ctx pc \<longleftrightarrow>
     (case pc of PFirstWait _ \<Rightarrow> True | POffer _ _ _ \<Rightarrow> True | PAck _ _ _ _ \<Rightarrow> True
      | PUpdate _ _ _ \<Rightarrow> True | _ \<Rightarrow> False)"

text \<open>
  \<open>handleCert\<close> on an entry that others renew, subscribe to and release. A call of \<open>WaitForUpdate\<close> returns when the version
  differs from the one seen or the context is done; \<open>fmt\<close> is \<open>Format(time.RFC3339)\<close>. In
  \<open>fails\<close> the response could not be constructed.
\<close>

inductive pack_step :: "(time \<Rightarrow> string) \<Rightarrow> string \<Rightarrow> pack \<Rightarrow> pack \<Rightarrow> bool" for fmt name where
  renewal: "publish cert ch (pk_entry p) = (old, e) \<Longrightarrow>
    pack_step fmt name p (p\<lparr>pk_entry := e, pk_pubs := pk_pubs p @ [cert]\<rparr>)"
| time_passes: "0 \<le> d \<Longrightarrow> pack_step fmt name p (p\<lparr>pk_now := pk_now p + d\<rparr>)"
| ctx_ends: "pack_step fmt name p (p\<lparr>pk_done := True\<rparr>)"
| subscribes: "pk_pc p = PSubscribe \<Longrightarrow> subscribe ctx (pk_entry p) = (st, e) \<Longrightarrow>
    pack_step fmt name p (p\<lparr>pk_entry := e, pk_pc := PFirst\<rparr>)"
| first_valid: "pk_pc p = PFirst \<Longrightarrow> Snapshot (pk_entry p) = (cert, seen) \<Longrightarrow> IsValid (pk_now p) cert \<Longrightarrow>
    pack_step fmt name p (p\<lparr>pk_pc := POffer cert seen (length (pk_pubs p))\<rparr>)"
| first_invalid: "pk_pc p = PFirst \<Longrightarrow> Snapshot (pk_entry p) = (cert, seen) \<Longrightarrow> \<not> IsValid (pk_now p) cert \<Longrightarrow>
    pack_step fmt name p (p\<lparr>pk_pc := PFirstWait seen\<rparr>)"
| first_wakes: "pk_pc p = PFirstWait seen \<Longrightarrow> e_version (pk_entry p) \<noteq> seen \<Longrightarrow> \<not> pk_done p \<Longrightarrow>
    pack_step fmt name p (p\<lparr>pk_pc := PSnap\<rparr>)"
| snapshots: "pk_pc p = PSnap \<Longrightarrow> Snapshot (pk_entry p) = (cert, seen) \<Longrightarrow>
    pack_step fmt name p (p\<lparr>pk_pc := POffer cert seen (length (pk_pubs p))\<rparr>)"
| offers: "pk_pc p = POffer cert seen n \<Longrightarrow>
    pack_step fmt name p (p\<lparr>pk_pc := PAck (fmt (c_RenewAt cert)) cert seen n,
      pk_offers := pk_offers p @ [(n, secret_response fmt name cert)]\<rparr>)"
| acked: "pk_pc p = PAck version cert seen n \<Longrightarrow> dr_VersionInfo (ack :: DiscoveryRequest) = version \<or> dr_ErrorDetail ack \<noteq> None \<Longrightarrow>
    pack_step fmt name p (p\<lparr>pk_pc := PUpdate cert seen n\<rparr>)"
| bad_ack: "pk_pc p = PAck version cert seen n \<Longrightarrow> dr_VersionInfo (ack :: DiscoveryRequest) \<noteq> version \<Longrightarrow> dr_ErrorDetail ack = None \<Longrightarrow>
    pack_step fmt name p (p\<lparr>pk_pc := PCrash\<rparr>)"
| wakes: "pk_pc p = PUpdate cert seen n \<Longrightarrow> e_version (pk_entry p) \<noteq> seen \<Longrightarrow> \<not> pk_done p \<Longrightarrow>
    pack_step fmt name p (p\<lparr>pk_pc := PSnap\<rparr>)"
| ends: "waits_on_ctx (pk_pc p) \<Longrightarrow> pk_done p \<Longrightarrow> release (pk_entry p) = (cn, e) \<Longrightarrow>
    pack_step fmt name p (p\<lparr>pk_entry := e, pk_pc := PEnd\<rparr>)"
| fails: "pk_pc p = POffer cert seen n \<Longrightarrow> release (pk_entry p) = (cn, e) \<Longrightarrow>
    pack_step fmt name p (p\<lparr>pk_entry := e, pk_pc := PEnd\<rparr>)"
| other_subscribes: "subscribe ctx (pk_entry p) = (st, e) \<Longrightarrow> pack_step fmt name p (p\<lparr>pk_entry := e\<rparr>)"
| other_releases: "release (pk_entry p) = (cn, e) \<Longrightarrow> pack_step fmt name p (p\<lparr>pk_entry := e\<rparr>)"

definition pack_init :: "certEntry \<Rightarrow> pack \<Rightarrow> bool" where
  "pack_init e\<^sub>0 p \<longleftrightarrow> pk_entry p = e\<^sub>0 \<and> pk_pc p = PSubscribe \<and> pk_pubs p = [] \<and> pk_offers p = []"

section \<open>Lemmas on the goroutine of a pack\<close>

definition snap_at :: "certEntry \<Rightarrow> CertT list \<Rightarrow> nat \<Rightarrow> CertT \<times> 64 word" where
  "snap_at e\<^sub>0 cs n = Snapshot (pubs_on e\<^sub>0 (take n cs))"

definition pc_inv :: "certEntry \<Rightarrow> CertT list \<Rightarrow> nat list \<Rightarrow> pack_pc \<Rightarrow> bool" where
  "pc_inv e\<^sub>0 cs offered pc \<longleftrightarrow>
     (case pc of
        POffer cert seen n \<Rightarrow> n \<le> length cs \<and> (cert, seen) = snap_at e\<^sub>0 cs n \<and> (\<forall>m \<in> set offered. m < n)
      | PAck v cert seen n \<Rightarrow> n \<le> length cs \<and> (cert, seen) = snap_at e\<^sub>0 cs n \<and> offered \<noteq> [] \<and> last offered = n
      | PUpdate cert seen n \<Rightarrow> n \<le> length cs \<and> (cert, seen) = snap_at e\<^sub>0 cs n \<and> offered \<noteq> [] \<and> last offered = n
      | PSnap \<Rightarrow> \<forall>m \<in> set offered. m < length cs
      | PEnd \<Rightarrow> True
      | PCrash \<Rightarrow> True
      | _ \<Rightarrow> offered = [])"

definition pack_inv :: "(time \<Rightarrow> string) \<Rightarrow> string \<Rightarrow> certEntry \<Rightarrow> pack \<Rightarrow> bool" where
  "pack_inv fmt name e\<^sub>0 p \<longleftrightarrow>
     Snapshot (pk_entry p) = snap_at e\<^sub>0 (pk_pubs p) (length (pk_pubs p)) \<and>
     pc_inv e\<^sub>0 (pk_pubs p) (map fst (pk_offers p)) (pk_pc p) \<and>
     sorted_wrt (<) (map fst (pk_offers p)) \<and>
     (\<forall>(n, r) \<in> set (pk_offers p). n \<le> length (pk_pubs p) \<and>
        r = secret_response fmt name (fst (snap_at e\<^sub>0 (pk_pubs p) n)))"

lemma snap_at_snoc [simp]: "n \<le> length cs \<Longrightarrow> snap_at e\<^sub>0 (cs @ [c]) n = snap_at e\<^sub>0 cs n"
  by (simp add: snap_at_def)

text \<open>A version that is still the current one is the last.\<close>

lemma snap_at_current:
  assumes "n \<le> length cs" "length cs < 2 ^ 64" "snd (snap_at e\<^sub>0 cs n) = snd (snap_at e\<^sub>0 cs (length cs))"
  shows "n = length cs"
proof -
  let ?e = "pubs_on e\<^sub>0 (take n cs)" and ?new = "drop n cs"
  have "foldl (\<lambda>e c. pub c e) ?e ?new = pubs_on e\<^sub>0 cs"
    by (metis append_take_drop_id foldl_append pubs_on_def)
  then have "snd (Snapshot (foldl (\<lambda>e c. pub c e) ?e ?new)) = snd (Snapshot ?e)"
    using assms(3) by (simp add: snap_at_def)
  moreover have "length ?new < 2 ^ 64"
    using assms(2) unfolding length_drop by linarith
  ultimately have "?new = []"
    by (rule entry_versions.same_version [rotated])
  then show ?thesis using assms(1) by simp
qed

lemma pc_inv_snoc: "pc_inv e\<^sub>0 cs ns pc \<Longrightarrow> pc_inv e\<^sub>0 (cs @ [c]) ns pc"
  by (auto simp: pc_inv_def split: pack_pc.splits)

lemma snap_publish: "publish c ch e = (old, e') \<Longrightarrow> Snapshot e' = (c, e_version e + 1)"
  by (auto simp: publish_def Snapshot_def)

lemma snap_at_new: "snap_at e\<^sub>0 (cs @ [c]) (length (cs @ [c])) = (c, snd (snap_at e\<^sub>0 cs (length cs)) + 1)"
  by (simp add: snap_at_def pubs_on_def entry_versions.snap_pub)

lemma sorted_last: "sorted_wrt (<) ns \<Longrightarrow> ns \<noteq> [] \<Longrightarrow> last ns < (k :: nat) \<Longrightarrow> m \<in> set ns \<Longrightarrow> m < k"
  by (induction ns rule: rev_induct) (auto simp: sorted_wrt_append)

lemma pack_inv_pc:
  "pack_inv fmt name e\<^sub>0 p \<Longrightarrow> pc_inv e\<^sub>0 (pk_pubs p) (map fst (pk_offers p)) pc \<Longrightarrow>
     pack_inv fmt name e\<^sub>0 (p\<lparr>pk_pc := pc\<rparr>)"
  by (simp add: pack_inv_def)

lemma pack_inv_snap:
  "pack_inv fmt name e\<^sub>0 p \<Longrightarrow>
     snap_at e\<^sub>0 (pk_pubs p) (length (pk_pubs p)) = (e_cert (pk_entry p), e_version (pk_entry p))"
  by (simp add: pack_inv_def Snapshot_def)

lemma pack_inv_entry:
  "pack_inv fmt name e\<^sub>0 p \<Longrightarrow> Snapshot e = Snapshot (pk_entry p) \<Longrightarrow> pack_inv fmt name e\<^sub>0 (p\<lparr>pk_entry := e\<rparr>)"
  by (simp add: pack_inv_def)

lemma Snapshot_frames:
  "subscribe ctx e = (st, e') \<Longrightarrow> Snapshot e' = Snapshot e"
  "release e = (cn, e') \<Longrightarrow> Snapshot e' = Snapshot e"
  by (auto simp: subscribe_def release_def Let_def Snapshot_def split: if_splits)

lemma pack_wakes:
  assumes inv: "pack_inv fmt name e\<^sub>0 p" and "pk_pc p = PUpdate cert seen n" "e_version (pk_entry p) \<noteq> seen"
  shows "pack_inv fmt name e\<^sub>0 (p\<lparr>pk_pc := PSnap\<rparr>)"
proof (rule pack_inv_pc [OF inv])
  have n: "n \<le> length (pk_pubs p)" "(cert, seen) = snap_at e\<^sub>0 (pk_pubs p) n"
    "map fst (pk_offers p) \<noteq> []" "last (map fst (pk_offers p)) = n"
    using assms by (auto simp: pack_inv_def pc_inv_def)
  have "n \<noteq> length (pk_pubs p)"
    using assms(3) n(2) pack_inv_snap [OF inv] by auto
  then show "pc_inv e\<^sub>0 (pk_pubs p) (map fst (pk_offers p)) PSnap"
    using n sorted_last [of "map fst (pk_offers p)" "length (pk_pubs p)"] inv
    by (auto simp: pc_inv_def pack_inv_def)
qed

lemma pack_offers:
  assumes inv: "pack_inv fmt name e\<^sub>0 p" and "pk_pc p = POffer cert seen n"
  shows "pack_inv fmt name e\<^sub>0 (p\<lparr>pk_pc := PAck (fmt (c_RenewAt cert)) cert seen n,
      pk_offers := pk_offers p @ [(n, secret_response fmt name cert)]\<rparr>)"
proof -
  have n: "n \<le> length (pk_pubs p)" "snap_at e\<^sub>0 (pk_pubs p) n = (cert, seen)" "\<forall>m \<in> set (map fst (pk_offers p)). m < n"
    using assms by (auto simp: pack_inv_def pc_inv_def)
  then show ?thesis
    using inv by (auto simp: pack_inv_def pc_inv_def sorted_wrt_append)
qed

lemma pack_inv_step:
  assumes inv: "pack_inv fmt name e\<^sub>0 p" and "pack_step fmt name p p'"
  shows "pack_inv fmt name e\<^sub>0 p'"
  using assms(2)
proof (cases rule: pack_step.cases)
  case (renewal cert ch old e)
  have "Snapshot e = snap_at e\<^sub>0 (pk_pubs p @ [cert]) (length (pk_pubs p @ [cert]))"
    using snap_publish [OF renewal(2)] pack_inv_snap [OF inv] unfolding snap_at_new by simp
  then show ?thesis
    using inv renewal(1) by (fastforce simp: pack_inv_def intro: pc_inv_snoc)
next
  case (subscribes ctx st e)
  then show ?thesis
    using pack_inv_pc [OF pack_inv_entry [OF inv Snapshot_frames(1) [OF subscribes(3)]], of PFirst] inv
    by (simp add: pack_inv_def pc_inv_def)
next
  case (first_valid cert seen)
  then show ?thesis
    using inv by (auto intro!: pack_inv_pc simp: pack_inv_def pc_inv_def)
next
  case (first_invalid cert seen)
  then show ?thesis
    using inv by (auto intro!: pack_inv_pc simp: pack_inv_def pc_inv_def)
next
  case (first_wakes seen)
  then show ?thesis
    using inv by (auto intro!: pack_inv_pc simp: pack_inv_def pc_inv_def)
next
  case (snapshots cert seen)
  then show ?thesis
    using inv by (auto intro!: pack_inv_pc simp: pack_inv_def pc_inv_def)
next
  case (offers cert seen n)
  then show ?thesis
    using pack_offers [OF inv] by simp
next
  case (acked version cert seen n ack)
  then show ?thesis
    using inv by (auto intro!: pack_inv_pc simp: pack_inv_def pc_inv_def)
next
  case (bad_ack version cert seen n ack)
  then show ?thesis
    using inv by (auto intro!: pack_inv_pc simp: pack_inv_def pc_inv_def)
next
  case (wakes cert seen n)
  then show ?thesis
    using pack_wakes [OF inv] by simp
next
  case (ends cn e)
  then show ?thesis
    using pack_inv_pc [OF pack_inv_entry [OF inv Snapshot_frames(2) [OF ends(4)]], of PEnd]
    by (simp add: pc_inv_def)
next
  case (fails cert seen n cn e)
  then show ?thesis
    using pack_inv_pc [OF pack_inv_entry [OF inv Snapshot_frames(2) [OF fails(3)]], of PEnd]
    by (simp add: pc_inv_def)
next
  case (other_subscribes ctx st e)
  then show ?thesis using pack_inv_entry [OF inv Snapshot_frames(1)] by simp
next
  case (other_releases cn e)
  then show ?thesis using pack_inv_entry [OF inv Snapshot_frames(2)] by simp
qed (use inv in \<open>simp_all add: pack_inv_def\<close>)

text \<open>The certificates of the snapshots are the first one and the published ones.\<close>

lemma snap_at_cert: "n \<le> length cs \<Longrightarrow> fst (snap_at e\<^sub>0 cs n) = (e_cert e\<^sub>0 # cs) ! n"
proof (induction cs rule: rev_induct)
  case (snoc c cs)
  then show ?case
    using snap_at_new [of e\<^sub>0 cs c]
    by (cases "n = length (cs @ [c])") (auto simp: nth_Cons nth_append split: nat.splits)
qed (simp add: snap_at_def pubs_on_def Snapshot_def)

lemma pack_inv_offer:
  assumes "pack_inv fmt name e\<^sub>0 p" "(n, r) \<in> set (pk_offers p)"
  shows "n \<le> length (pk_pubs p) \<and> r = secret_response fmt name ((e_cert e\<^sub>0 # pk_pubs p) ! n)"
  using assms snap_at_cert [of n "pk_pubs p"] by (auto simp: pack_inv_def)

text \<open>A handler that waits for the current version to change has offered the current certificate.\<close>

lemma pack_inv_current:
  assumes inv: "pack_inv fmt name e\<^sub>0 p" and pc: "pk_pc p = PUpdate cert seen n"
    and seen: "seen = e_version (pk_entry p)" and few: "length (pk_pubs p) < 2 ^ 64"
  shows "snd (last (pk_offers p)) = secret_response fmt name (e_cert (pk_entry p))"
proof -
  have n: "n \<le> length (pk_pubs p)" "snap_at e\<^sub>0 (pk_pubs p) n = (cert, seen)" "pk_offers p \<noteq> []"
    "fst (last (pk_offers p)) = n"
    using inv pc by (auto simp: pack_inv_def pc_inv_def last_map)
  have "n = length (pk_pubs p)"
    using snap_at_current [OF n(1) few, of e\<^sub>0] n(2) seen pack_inv_snap [OF inv] by simp
  moreover have "last (pk_offers p) \<in> set (pk_offers p)"
    using n(3) by simp
  ultimately have "snd (last (pk_offers p)) =
      secret_response fmt name (fst (snap_at e\<^sub>0 (pk_pubs p) (length (pk_pubs p))))"
    using inv n(4) unfolding pack_inv_def by (cases "last (pk_offers p)") auto
  then show ?thesis
    using pack_inv_snap [OF inv] by simp
qed

interpretation pack: step_invariant "pack_init e\<^sub>0" "pack_step fmt name" "pack_inv fmt name e\<^sub>0"
  for e\<^sub>0 fmt name
proof
  show "pack_inv fmt name e\<^sub>0 p" if "pack_init e\<^sub>0 p" for p
    using that by (auto simp: pack_init_def pack_inv_def pc_inv_def snap_at_def pubs_on_def)
qed (rule pack_inv_step)

section \<open>Properties\<close>

text \<open>
  C9: Whatever requests arrive on a stream, and in whatever order the code iterates over the packs
  of a request, at most one handler is started per resource name; each is for a name some request
  listed, for names of hosts that all lie under the allow-list, and on the entry of exactly that
  bundle. A request that ends the stream starts none.
\<close>

theorem sds_handlers_allowed:
  assumes "\<And>packs. mset (iter packs) = mset packs"
    and "recv_all lw iter reqs (new_stream s) = (err, st)"
  shows "distinct (map fst (sd_handlers st)) \<and>
    (\<forall>(name, domains, k) \<in> set (sd_handlers st).
       (\<exists>r \<in> set reqs. name \<in> set (dr_ResourceNames r)) \<and>
       AllAllowed lw (ac_AllowedDomains (sc_ACME (sv_Config s))) domains \<and>
       k = AsKey lw domains \<and> sv_cache (sd_srv st) k \<noteq> None) \<and>
    (\<forall>req acks e st'. recv_request lw iter req st = (acks, Some e, st') \<longrightarrow>
       sd_handlers st' = sd_handlers st \<and> sd_srv st' = sd_srv st)"
proof -
  have "stream_inv lw {} (new_stream s)"
    by (simp add: stream_inv_def new_stream_def)
  from recv_all_inv [OF this assms]
  have inv: "stream_inv lw (\<Union>r \<in> set reqs. set (dr_ResourceNames r)) st" and "sv_Config (sd_srv st) = sv_Config s"
    by (auto simp: new_stream_def)
  moreover have "sd_handlers st' = sd_handlers st \<and> sd_srv st' = sd_srv st"
    if "recv_request lw iter req st = (acks, Some e, st')" for req acks e st'
    using recv_request_inv [OF inv assms(1) that] by simp
  ultimately show ?thesis
    by (auto simp: stream_inv_def)
qed

definition example_sds_request :: DiscoveryRequest where
  "example_sds_request =
     \<lparr>dr_TypeUrl = typeUrl, dr_VersionInfo = [],
      dr_Node = Some \<lparr>nd_Metadata = Some [domainKey \<mapsto> PStruct [''p'' \<mapsto> PList [PString ''a.b'']]]\<rparr>,
      dr_ResourceNames = [''p'', ''p''], dr_ErrorDetail = None\<rparr>"

theorem sds_handlers_allowed_witness:
  "\<exists>st. recv_all id id [example_sds_request] (new_stream (example_server\<lparr>sv_Config := (sv_Config example_server)
      \<lparr>sc_ACME := (sc_ACME (sv_Config example_server))\<lparr>ac_AllowedDomains := [''b'']\<rparr>\<rparr>\<rparr>)) = (None, st) \<and>
    sd_handlers st = [(''p'', [''a.b''], AsKey id [''a.b''])] \<and> sv_cache (sd_srv st) (AsKey id [''a.b'']) \<noteq> None"
proof -
  have "IsSubdomain id ''a.b'' [''b'']"
    by code_simp
  then obtain st where st: "recv_all id id [example_sds_request]
      (new_stream (example_server\<lparr>sv_Config := (sv_Config example_server)
      \<lparr>sc_ACME := (sc_ACME (sv_Config example_server))\<lparr>ac_AllowedDomains := [''b'']\<rparr>\<rparr>\<rparr>)) = (None, st)"
    "sd_handlers st = [(''p'', [''a.b''], AsKey id [''a.b''])]"
    by (simp add: recv_request_def example_sds_request_def new_stream_def domain_sets_def Let_def
        get_def getNoLock_def split: option.splits)
  then show ?thesis
    using sds_handlers_allowed [OF _ st(1)] by auto
qed

text \<open>
  The certificates a pack's handler offers on a stream are those that were published, each at
  most once and never an older one after a newer one, as a response with its chain, its key and its
  time of renewal as version. When the handler waits and the version it waits to change is still
  the current one, the last response it sent carries the current certificate (until the counter of
  64 bits wraps).
\<close>

theorem sds_offers_latest:
  assumes "pack_init e\<^sub>0 p\<^sub>0" "(pack_step fmt name)\<^sup>*\<^sup>* p\<^sub>0 p"
  shows "sorted_wrt (<) (map fst (pk_offers p)) \<and>
    (\<forall>(n, r) \<in> set (pk_offers p). n \<le> length (pk_pubs p) \<and>
       r = secret_response fmt name ((e_cert e\<^sub>0 # pk_pubs p) ! n)) \<and>
    (\<forall>cert seen n. pk_pc p = PUpdate cert seen n \<longrightarrow> seen = e_version (pk_entry p) \<longrightarrow>
       length (pk_pubs p) < 2 ^ 64 \<longrightarrow>
       snd (last (pk_offers p)) = secret_response fmt name (e_cert (pk_entry p)))"
proof -
  have inv: "pack_inv fmt name e\<^sub>0 p"
    using pack.inv_reachable [OF assms] .
  then show ?thesis
    using pack_inv_offer [OF inv] pack_inv_current [OF inv] by (auto simp: pack_inv_def)
qed

definition example_pack :: pack where
  "example_pack = \<lparr>pk_entry = newCertEntry 0 [''a.b''], pk_pc = PSubscribe, pk_now = 5, pk_done = False,
     pk_pubs = [], pk_offers = []\<rparr>"

definition example_cert :: CertT where
  "example_cert = \<lparr>c_FullChain = ''c'', c_Key = ''k'', c_ValidBefore = 900, c_RenewAt = 6\<rparr>"

lemma example_pack_run:
  "\<exists>p. (pack_step fmt ''p'')\<^sup>*\<^sup>* example_pack p \<and> pk_pc p = PUpdate example_cert 1 1 \<and>
     e_version (pk_entry p) = 1 \<and> e_cert (pk_entry p) = example_cert \<and> length (pk_pubs p) = 1"
proof -
  note ev = example_pack_def newCertEntry_def subscribe_def Snapshot_def IsValid_def zero_CertT_def publish_def
  show ?thesis
    apply (rule exI)
    apply (rule conjI)
     apply (rule converse_rtranclp_into_rtranclp, rule subscribes, simp add: ev, simp add: ev)
     apply (rule converse_rtranclp_into_rtranclp, rule first_invalid, simp, simp add: ev, simp add: ev)
     apply (rule converse_rtranclp_into_rtranclp, rule renewal [where cert = example_cert and ch = 1], simp add: ev)
     apply (rule converse_rtranclp_into_rtranclp, rule first_wakes, simp, simp, simp add: ev)
     apply (rule converse_rtranclp_into_rtranclp, rule snapshots, simp, simp add: ev)
     apply (rule converse_rtranclp_into_rtranclp, rule offers, simp)
     apply (rule converse_rtranclp_into_rtranclp, rule acked [where ack = "example_sds_request\<lparr>dr_ErrorDetail := Some (0, [])\<rparr>"],
        simp, simp)
     apply (rule rtranclp.rtrancl_refl)
    apply (simp add: ev)
    done
qed

theorem sds_offers_latest_witness:
  "\<exists>p. (pack_step (\<lambda>_. ''v'') ''p'')\<^sup>*\<^sup>* example_pack p \<and>
     snd (last (pk_offers p)) = secret_response (\<lambda>_. ''v'') ''p'' example_cert"
proof -
  obtain p where p: "(pack_step (\<lambda>_. ''v'') ''p'')\<^sup>*\<^sup>* example_pack p" "pk_pc p = PUpdate example_cert 1 1"
    "e_version (pk_entry p) = 1" "e_cert (pk_entry p) = example_cert" "length (pk_pubs p) = 1"
    using example_pack_run by blast
  have "pack_init (newCertEntry 0 [''a.b'']) example_pack"
    by (simp add: pack_init_def example_pack_def)
  from sds_offers_latest [OF this p(1)] show ?thesis
    using p by auto
qed

end
