(* ===== verification/Sds_Client.thy ===== *)
theory Sds_Client
  imports Sds_Server Client_Daemon
begin

text \<open>
  \<open>pkg/client/sds.go\<close>: the client's end of a secret discovery stream. Its goroutines are functions
  on the messages: what the sender sends first, what the receiver does with a response, and what the
  handler of a certificate does with a secret. A resource is the secret it decodes to, if it does.
\<close>

section \<open>Messages\<close>

datatype secret_type = TlsCertificate bytes bytes | OtherSecret

record secret =
  sec_Name :: string
  sec_Type :: secret_type

record sds_response =
  sr_VersionInfo :: string
  sr_Resources :: "secret option list"

record respData =
  rd_Version :: string
  rd_Secret :: secret

datatype stream_error = NoResources | CannotUnmarshal | UnexpectedCert string | UnexpectedRespType

section \<open>The stream\<close>

record CertDXgRPCClient =
  gc_Received :: nat                \<comment> \<open>the channel of the last message: messages received so far\<close>
  gc_Running :: bool
  gc_cancel :: "nat option"         \<comment> \<open>the stream that \<open>Kill\<close> cancels\<close>

text \<open>\<open>loadOk\<close>: \<open>mtls.LoadClient\<close> succeeds; otherwise the process ends.\<close>

definition MakeCertDXgRPCClient :: "bool \<Rightarrow> CertDXgRPCClient option" where
  "MakeCertDXgRPCClient loadOk =
     (if loadOk then Some \<lparr>gc_Received = 0, gc_Running = False, gc_cancel = None\<rparr> else None)"

definition Kill :: "CertDXgRPCClient \<Rightarrow> nat option" where
  "Kill c = gc_cancel c"

text \<open>The sender's first message. The certificates are in the order of the iteration.\<close>

definition domain_set :: "'h watchingCert \<Rightarrow> pval" where
  "domain_set cert = PList (map PString (cf_Domains (wc_Config cert)))"

definition client_domainSets :: "'h watchingCert list \<Rightarrow> (string \<rightharpoonup> pval)" where
  "client_domainSets certs = foldl (\<lambda>m c. m(cf_Name (wc_Config c) \<mapsto> domain_set c)) Map.empty certs"

definition packReq :: "'h watchingCert list \<Rightarrow> DiscoveryRequest" where
  "packReq certs =
     \<lparr>dr_TypeUrl = typeUrl, dr_VersionInfo = [],
      dr_Node = Some \<lparr>nd_Metadata = Some [domainKey \<mapsto> PStruct (client_domainSets certs)]\<rparr>,
      dr_ResourceNames = map (\<lambda>c. cf_Name (wc_Config c)) certs, dr_ErrorDetail = None\<rparr>"

text \<open>One response in the receiving goroutine: the name of the handler it goes to, or an error.
  \<open>dispatch\<close> holds the names of the watched certificates.\<close>

definition recv_response ::
    "string set \<Rightarrow> sds_response \<Rightarrow> CertDXgRPCClient \<Rightarrow> CertDXgRPCClient \<times> (stream_error + string \<times> respData)" where
  "recv_response dispatch resp c =
     (case sr_Resources resp of
        [] \<Rightarrow> (c, Inl NoResources)
      | res # _ \<Rightarrow>
          let c' = c\<lparr>gc_Received := gc_Received c + 1\<rparr> in
          (case res of
             None \<Rightarrow> (c', Inl CannotUnmarshal)
           | Some secretResp \<Rightarrow>
               if sec_Name secretResp \<notin> dispatch then (c', Inl (UnexpectedCert (sec_Name secretResp)))
               else (c', Inr (sec_Name secretResp, \<lparr>rd_Version = sr_VersionInfo resp, rd_Secret = secretResp\<rparr>))))"

text \<open>\<open>handleCert\<close> on one secret: the update for the watcher and the acknowledgement.\<close>

definition client_handleCert ::
    "'h watchingCert \<Rightarrow> respData \<Rightarrow> stream_error + certData \<times> DiscoveryRequest" where
  "client_handleCert cert d =
     (case sec_Type (rd_Secret d) of
        OtherSecret \<Rightarrow> Inl UnexpectedRespType
      | TlsCertificate chain key \<Rightarrow>
          Inr (\<lparr>cd_Domains = cf_Domains (wc_Config cert), cd_Fullchain = chain, cd_Key = key\<rparr>,
               \<lparr>dr_TypeUrl = typeUrl, dr_VersionInfo = rd_Version d, dr_Node = None,
                dr_ResourceNames = [cf_Name (wc_Config cert)], dr_ErrorDetail = None\<rparr>))"

text \<open>What a response of the server is on the client's side.\<close>

definition wire :: "DiscoveryResponse \<Rightarrow> sds_response" where
  "wire r = \<lparr>sr_VersionInfo = ds_VersionInfo r,
     sr_Resources = [Some \<lparr>sec_Name = ds_Name r, sec_Type = TlsCertificate (ds_CertificateChain r) (ds_PrivateKey r)\<rparr>]\<rparr>"

section \<open>Lemmas\<close>

lemma client_domainSets_at:
  assumes "distinct (map (\<lambda>c. cf_Name (wc_Config c)) certs)" "c \<in> set certs"
  shows "client_domainSets certs (cf_Name (wc_Config c)) = Some (domain_set c)"
proof -
  have one: "ys = [c]" if "ys = filter (\<lambda>x. cf_Name (wc_Config x) = cf_Name (wc_Config c)) certs" for ys
    unfolding that using assms
  proof (induction certs)
    case (Cons a certs)
    then show ?case
      by (cases "a = c") (auto simp: filter_empty_conv image_iff)
  qed simp
  show ?thesis
    using one [OF refl] by (simp add: client_domainSets_def foldl_upd_at)
qed

lemma as_strings_map [simp]: "as_strings (map PString ds) = Some ds"
  by (induction ds) auto

lemma update_new: "k \<notin> fst ` set xs \<Longrightarrow> AList.update k v xs = xs @ [(k, v)]"
  by (induction xs) auto

text \<open>The server collects one pack per certificate, in order.\<close>

lemma scan_client_names:
  assumes "distinct (map fst packs @ map (\<lambda>c. cf_Name (wc_Config c)) certs)"
    and "\<And>c. c \<in> set certs \<Longrightarrow> sets (cf_Name (wc_Config c)) = Some (domain_set c) \<and>
      AllAllowed lw allowed (cf_Domains (wc_Config c))"
  shows "scan_names lw allowed Map.empty sets (map (\<lambda>c. cf_Name (wc_Config c)) certs) packs
    = ([], Inr (packs @ map (\<lambda>c. (cf_Name (wc_Config c), cf_Domains (wc_Config c))) certs))"
  using assms
proof (induction certs arbitrary: packs)
  case (Cons c certs)
  have "AList.update (cf_Name (wc_Config c)) (cf_Domains (wc_Config c)) packs
      = packs @ [(cf_Name (wc_Config c), cf_Domains (wc_Config c))]"
    using Cons.prems(1) by (intro update_new) auto
  then show ?case
    using Cons.IH [of "packs @ [(cf_Name (wc_Config c), cf_Domains (wc_Config c))]"] Cons.prems
    by (simp add: domain_set_def)
qed simp

text \<open>The server accepts the first request and starts one handler per certificate.\<close>

lemma recv_packReq:
  assumes "distinct (map (\<lambda>c. cf_Name (wc_Config c)) certs)"
    and "\<And>c. c \<in> set certs \<Longrightarrow> AllAllowed lw (ac_AllowedDomains (sc_ACME (sv_Config s))) (cf_Domains (wc_Config c))"
  shows "\<exists>st. recv_request lw id (packReq certs) (new_stream s) = ([], None, st) \<and>
    sd_handlers st = map (\<lambda>c. (cf_Name (wc_Config c), cf_Domains (wc_Config c), AsKey lw (cf_Domains (wc_Config c)))) certs"
proof -
  let ?al = "ac_AllowedDomains (sc_ACME (sv_Config s))"
  have "scan_names lw ?al Map.empty (client_domainSets certs) (map (\<lambda>c. cf_Name (wc_Config c)) certs) []
      = ([], Inr (map (\<lambda>c. (cf_Name (wc_Config c), cf_Domains (wc_Config c))) certs))"
    using scan_client_names [of "[]" certs "client_domainSets certs" lw ?al] assms client_domainSets_at [OF assms(1)]
    by simp
  then show ?thesis
    by (simp add: recv_request_def packReq_def new_stream_def domain_sets_def start_handlers_handlers comp_def)
qed

section \<open>Properties\<close>

text \<open>
  The two ends of a stream fit together. When the names of the watched certificates are
  different and their domains are under the server's allow-list, the server accepts the client's
  first request and starts exactly one handler per certificate, for its name, its domains and the
  entry of that bundle. A response of such a handler reaches the watcher of the certificate of that
  name with the same chain and key, and the acknowledgement carries the version of the response, so
  it is never the kind that the server takes for a rejection.
\<close>

theorem sds_ends_agree:
  assumes "distinct (map (\<lambda>c. cf_Name (wc_Config c)) certs)"
    and "\<And>c. c \<in> set certs \<Longrightarrow> AllAllowed lw (ac_AllowedDomains (sc_ACME (sv_Config s))) (cf_Domains (wc_Config c))"
    and "cert \<in> set certs"
  shows "(\<exists>st. recv_request lw id (packReq certs) (new_stream s) = ([], None, st) \<and>
      sd_handlers st = map (\<lambda>c. (cf_Name (wc_Config c), cf_Domains (wc_Config c), AsKey lw (cf_Domains (wc_Config c)))) certs) \<and>
    (\<exists>cl' d. recv_response ((\<lambda>c. cf_Name (wc_Config c)) ` set certs)
        (wire (secret_response fmt (cf_Name (wc_Config cert)) x)) cl = (cl', Inr (cf_Name (wc_Config cert), d)) \<and>
      (\<exists>upd ack. client_handleCert cert d = Inr (upd, ack) \<and>
         material upd = (c_FullChain x, c_Key x) \<and> cd_Domains upd = cf_Domains (wc_Config cert) \<and>
         dr_VersionInfo ack = fmt (c_RenewAt x) \<and> dr_ResourceNames ack = [cf_Name (wc_Config cert)]))"
  using recv_packReq [OF assms(1,2)] assms(3)
  by (auto simp: recv_response_def wire_def secret_response_def client_handleCert_def material_def)

theorem sds_ends_agree_witness:
  "\<exists>st. recv_request id id (packReq [\<lparr>wc_Data = \<lparr>cd_Domains = [], cd_Fullchain = [], cd_Key = []\<rparr>,
       wc_Config = example_certification, wc_UpdateHandlers = [()]\<rparr>])
     (new_stream (example_server\<lparr>sv_Config := (sv_Config example_server)
      \<lparr>sc_ACME := (sc_ACME (sv_Config example_server))\<lparr>ac_AllowedDomains := [''b'']\<rparr>\<rparr>\<rparr>)) = ([], None, st) \<and>
     sd_handlers st = [(''n'', [''a.b''], AsKey id [''a.b''])]"
proof -
  let ?c = "\<lparr>wc_Data = \<lparr>cd_Domains = [], cd_Fullchain = [], cd_Key = []\<rparr>,
       wc_Config = example_certification, wc_UpdateHandlers = [()]\<rparr>"
  let ?s = "example_server\<lparr>sv_Config := (sv_Config example_server)
      \<lparr>sc_ACME := (sc_ACME (sv_Config example_server))\<lparr>ac_AllowedDomains := [''b'']\<rparr>\<rparr>\<rparr>"
  have "IsSubdomain id ''a.b'' [''b'']"
    by code_simp
  then have "\<And>c. c \<in> set [?c] \<Longrightarrow> AllAllowed id (ac_AllowedDomains (sc_ACME (sv_Config ?s))) (cf_Domains (wc_Config c))"
    by (simp add: example_certification_def)
  from sds_ends_agree [OF _ this, of "[?c]" ?c] show ?thesis
    by (simp add: example_certification_def)
qed

end
