(* ===== verification/Sds_Stream.thy ===== *)
theory Sds_Stream
  imports Sds_Client "HOL-Library.Multiset"
begin

text \<open>
  A secret discovery stream with the goroutines of both ends: \<open>StreamSecrets\<close> of
  \<open>pkg/server/sds.go\<close> (the function itself, the goroutine that merges the contexts, the sender,
  the receiver and one handler per pack) and \<open>Stream\<close> of \<open>pkg/client/sds.go\<close> (the function itself,
  the receiver, the sender and one handler per certificate). A program counter holds what the
  goroutine is about to do at its next channel operation or call; an unbuffered channel is a step of
  two goroutines; \<open>errChan\<close> has one place. The wires are queues of messages. What an end does with a
  message is the function of \<open>Sds_Server\<close> or \<open>Sds_Client\<close>.
\<close>

section \<open>The server's end\<close>

datatype srv_err = SendErr | RecvErr | ScanErr sds_error | SecretErr

datatype sender_pc = SIdle | SSend DiscoveryResponse | SReport | SEnd

text \<open>\<open>RHand req acks err st\<close>: the names that are still to be handed the request, the error of the
  scan, if any, and the stream after it.\<close>

datatype 'w receiver_pc =
    RTop
  | RRecv
  | RHand DiscoveryRequest "string list" "sds_error option" "'w sds_stream"
  | RReport srv_err
  | REnd

text \<open>\<open>handleCert\<close>: its first snapshot and wait, the snapshot after a renewal, the offer of a
  certificate, the wait for its acknowledgement and the wait for the next renewal.\<close>

datatype handler_pc = HFirst | HSnap | HOffer CertT | HAck CertT | HWait | HReport | HEnd

text \<open>\<open>se_broken\<close>: the connection is gone, so the calls of gRPC fail. \<open>se_main\<close> is what
  \<open>StreamSecrets\<close> has returned: \<open>Some None\<close> for the error of the context. \<open>se_handlers\<close> runs
  parallel to the handlers of the stream. \<open>se_offers\<close> is history.\<close>

record 'w srv_end =
  se_stream :: "'w sds_stream"
  se_root :: bool
  se_broken :: bool
  se_done :: bool
  se_errs :: "srv_err list"
  se_main :: "srv_err option option"
  se_merger :: bool
  se_sender :: sender_pc
  se_receiver :: "'w receiver_pc"
  se_handlers :: "handler_pc list"
  se_crashed :: bool
  se_offers :: "(string \<times> CertT) list"

type_synonym 'w srv_wired = "'w srv_end \<times> DiscoveryRequest list \<times> sds_response list"

definition StreamSecrets_start :: "'w CertDXServer \<Rightarrow> 'w srv_end" where
  "StreamSecrets_start srv =
     \<lparr>se_stream = new_stream srv, se_root = False, se_broken = False, se_done = False, se_errs = [],
      se_main = None, se_merger = True, se_sender = SIdle, se_receiver = RTop, se_handlers = [],
      se_crashed = False, se_offers = []\<rparr>"

abbreviation handler_at :: "'w srv_end \<Rightarrow> nat \<Rightarrow> handler_pc \<Rightarrow> bool" where
  "handler_at s i pc \<equiv> i < length (se_handlers s) \<and> se_handlers s ! i = pc"

abbreviation set_handler :: "nat \<Rightarrow> handler_pc \<Rightarrow> 'w srv_end \<Rightarrow> 'w srv_end" where
  "set_handler i pc s \<equiv> s\<lparr>se_handlers := (se_handlers s)[i := pc]\<rparr>"

abbreviation handler_name :: "'w srv_end \<Rightarrow> nat \<Rightarrow> string" where
  "handler_name s i \<equiv> fst (sd_handlers (se_stream s) ! i)"

text \<open>The receiver iterates over the packs of a request in any order. gRPC fails a call once the connection is gone or the handler of the stream has returned.\<close>

abbreviation grpc_over :: "'w srv_end \<Rightarrow> bool" where
  "grpc_over s \<equiv> se_broken s \<or> se_main s \<noteq> None"

inductive srv_go :: "(time \<Rightarrow> string) \<Rightarrow> (string \<Rightarrow> string) \<Rightarrow>
    'w srv_wired \<Rightarrow> 'w srv_wired \<Rightarrow> bool"
  for fmt lw where
  merge_root: "se_merger s \<Longrightarrow> se_root s \<Longrightarrow>
    srv_go fmt lw (s, up, down) (s\<lparr>se_merger := False, se_done := True\<rparr>, up, down)"
| merge_ctx: "se_merger s \<Longrightarrow> se_done s \<Longrightarrow>
    srv_go fmt lw (s, up, down) (s\<lparr>se_merger := False\<rparr>, up, down)"
| main_ctx: "se_main s = None \<Longrightarrow> se_done s \<Longrightarrow>
    srv_go fmt lw (s, up, down) (s\<lparr>se_main := Some None\<rparr>, up, down)"
| main_err: "se_main s = None \<Longrightarrow> se_errs s = e # es \<Longrightarrow>
    srv_go fmt lw (s, up, down) (s\<lparr>se_main := Some (Some e), se_errs := es, se_done := True\<rparr>, up, down)"
| send_take: "se_sender s = SIdle \<Longrightarrow> handler_at s i (HOffer x) \<Longrightarrow>
    srv_go fmt lw (s, up, down)
      (set_handler i (HAck x) (s\<lparr>se_sender := SSend (secret_response fmt (handler_name s i) x),
         se_offers := se_offers s @ [(handler_name s i, x)]\<rparr>), up, down)"
| send_ok: "se_sender s = SSend r \<Longrightarrow>
    srv_go fmt lw (s, up, down) (s\<lparr>se_sender := SIdle\<rparr>, up, down @ [wire r])"
| send_fails: "se_sender s = SSend r \<Longrightarrow> grpc_over s \<Longrightarrow>
    srv_go fmt lw (s, up, down) (s\<lparr>se_sender := SReport\<rparr>, up, down)"
| send_reports: "se_sender s = SReport \<Longrightarrow> se_errs s = [] \<Longrightarrow>
    srv_go fmt lw (s, up, down) (s\<lparr>se_sender := SEnd, se_errs := [SendErr]\<rparr>, up, down)"
| send_drops: "se_sender s = SReport \<Longrightarrow> se_done s \<Longrightarrow>
    srv_go fmt lw (s, up, down) (s\<lparr>se_sender := SEnd\<rparr>, up, down)"
| send_ctx: "se_sender s = SIdle \<Longrightarrow> se_done s \<Longrightarrow>
    srv_go fmt lw (s, up, down) (s\<lparr>se_sender := SEnd\<rparr>, up, down)"
| recv_ctx: "se_receiver s = RTop \<Longrightarrow> se_done s \<Longrightarrow>
    srv_go fmt lw (s, up, down) (s\<lparr>se_receiver := REnd\<rparr>, up, down)"
| recv_calls: "se_receiver s = RTop \<Longrightarrow> \<not> se_done s \<Longrightarrow>
    srv_go fmt lw (s, up, down) (s\<lparr>se_receiver := RRecv\<rparr>, up, down)"
| recv_fails: "se_receiver s = RRecv \<Longrightarrow> grpc_over s \<Longrightarrow>
    srv_go fmt lw (s, up, down) (s\<lparr>se_receiver := RReport RecvErr\<rparr>, up, down)"
| recv_gets: "se_receiver s = RRecv \<Longrightarrow> (\<forall>ps. mset (iter ps) = mset ps) \<Longrightarrow> recv_request lw iter req (se_stream s) = (acks, err, st) \<Longrightarrow>
    srv_go fmt lw (s, req # up, down) (s\<lparr>se_receiver := RHand req acks err st\<rparr>, up, down)"
| recv_acks: "se_receiver s = RHand req (n # acks) err st \<Longrightarrow> sd_dispatch (se_stream s) n = Some i \<Longrightarrow>
    handler_at s i (HAck x) \<Longrightarrow> dr_VersionInfo req = fmt (c_RenewAt x) \<or> dr_ErrorDetail req \<noteq> None \<Longrightarrow>
    srv_go fmt lw (s, up, down) (set_handler i HWait (s\<lparr>se_receiver := RHand req acks err st\<rparr>), up, down)"
| recv_crashes: "se_receiver s = RHand req (n # acks) err st \<Longrightarrow> sd_dispatch (se_stream s) n = Some i \<Longrightarrow>
    handler_at s i (HAck x) \<Longrightarrow> dr_VersionInfo req \<noteq> fmt (c_RenewAt x) \<Longrightarrow> dr_ErrorDetail req = None \<Longrightarrow>
    srv_go fmt lw (s, up, down) (s\<lparr>se_crashed := True\<rparr>, up, down)"
| recv_hand_ctx: "se_receiver s = RHand req (n # acks) err st \<Longrightarrow> se_done s \<Longrightarrow>
    srv_go fmt lw (s, up, down) (s\<lparr>se_receiver := REnd\<rparr>, up, down)"
| recv_starts: "se_receiver s = RHand req [] None st \<Longrightarrow>
    srv_go fmt lw (s, up, down)
      (s\<lparr>se_receiver := RTop, se_stream := st,
         se_handlers := se_handlers s @ replicate (length (sd_handlers st) - length (se_handlers s)) HFirst\<rparr>, up, down)"
| recv_rejects: "se_receiver s = RHand req [] (Some e) st \<Longrightarrow>
    srv_go fmt lw (s, up, down) (s\<lparr>se_receiver := RReport (ScanErr e), se_stream := st\<rparr>, up, down)"
| recv_reports: "se_receiver s = RReport e \<Longrightarrow> se_errs s = [] \<Longrightarrow>
    srv_go fmt lw (s, up, down) (s\<lparr>se_receiver := REnd, se_errs := [e]\<rparr>, up, down)"
| recv_drops: "se_receiver s = RReport e \<Longrightarrow> se_done s \<Longrightarrow>
    srv_go fmt lw (s, up, down) (s\<lparr>se_receiver := REnd\<rparr>, up, down)"
| handler_offers: "handler_at s i HFirst \<or> handler_at s i HSnap \<Longrightarrow>
    srv_go fmt lw (s, up, down) (set_handler i (HOffer x) s, up, down)"
| handler_fails: "handler_at s i HFirst \<or> handler_at s i HSnap \<Longrightarrow>
    srv_go fmt lw (s, up, down) (set_handler i HReport s, up, down)"
| handler_reports: "handler_at s i HReport \<Longrightarrow> se_errs s = [] \<Longrightarrow>
    srv_go fmt lw (s, up, down) (set_handler i HEnd (s\<lparr>se_errs := [SecretErr]\<rparr>), up, down)"
| handler_wakes: "handler_at s i HWait \<Longrightarrow> \<not> se_done s \<Longrightarrow>
    srv_go fmt lw (s, up, down) (set_handler i HSnap s, up, down)"
| handler_ctx: "handler_at s i pc \<Longrightarrow> pc \<notin> {HSnap, HEnd} \<Longrightarrow> se_done s \<Longrightarrow>
    srv_go fmt lw (s, up, down) (set_handler i HEnd s, up, down)"

text \<open>A panic ends the process.\<close>

definition srv_step where
  "srv_step fmt lw w w' \<longleftrightarrow> \<not> se_crashed (fst w) \<and> srv_go fmt lw w w'"

definition srv_all_ended :: "'w srv_end \<Rightarrow> bool" where
  "srv_all_ended s \<longleftrightarrow> se_main s \<noteq> None \<and> \<not> se_merger s \<and> se_sender s = SEnd \<and> se_receiver s = REnd \<and>
     list_all (\<lambda>pc. pc = HEnd) (se_handlers s)"

section \<open>The client's end\<close>

datatype cli_err = CSendErr | CRecvErr | CMetaErr | CStreamErr stream_error

datatype creceiver_pc = CTop | CRecv | CHand nat respData | CReport cli_err | CREnd

datatype chandler_pc = CIdle | CUpdate certData DiscoveryRequest | CAck DiscoveryRequest | CHReport cli_err | CHEnd

datatype csender_pc = CFirst | CSIdle | CSSend DiscoveryRequest | CSReport cli_err | CSEnd

text \<open>\<open>ce_main\<close> is what \<open>Stream\<close> has returned. \<open>ce_delivered\<close> lists what the watchers took from
  their channels.\<close>

record cli_end =
  ce_client :: CertDXgRPCClient
  ce_broken :: bool
  ce_done :: bool
  ce_errs :: "cli_err list"
  ce_main :: "cli_err option option"
  ce_receiver :: creceiver_pc
  ce_sender :: csender_pc
  ce_handlers :: "chandler_pc list"
  ce_delivered :: "(nat \<times> certData) list"

type_synonym cli_wired = "cli_end \<times> DiscoveryRequest list \<times> sds_response list"

abbreviation cert_name :: "'h watchingCert \<Rightarrow> string" where
  "cert_name c \<equiv> cf_Name (wc_Config c)"

text \<open>\<open>dispatch\<close>: of two certificates of the same name the later one gets the responses.\<close>

definition client_dispatch :: "'h watchingCert list \<Rightarrow> (string \<rightharpoonup> nat)" where
  "client_dispatch certs = map_of (rev (zip (map cert_name certs) [0..<length certs]))"

text \<open>The part of \<open>Stream\<close> before the goroutines: \<open>cancel\<close> is the cancel function it stores. The
  second component is the error with which it returns.\<close>

datatype stream_start_error = NewClientFailed | StreamSecretsFailed

definition stream_leave :: "CertDXgRPCClient \<Rightarrow> CertDXgRPCClient" where
  "stream_leave c = c\<lparr>gc_cancel := None, gc_Running := False\<rparr>"

definition Stream_start ::
    "bool \<Rightarrow> bool \<Rightarrow> nat \<Rightarrow> 'h watchingCert list \<Rightarrow> CertDXgRPCClient \<Rightarrow> CertDXgRPCClient \<times> (stream_start_error + cli_end)" where
  "Stream_start newOk streamOk cancel certs c =
     (let c1 = c\<lparr>gc_cancel := Some cancel\<rparr> in
      if \<not> newOk then (c1\<lparr>gc_cancel := None\<rparr>, Inl NewClientFailed)
      else
        let c2 = c1\<lparr>gc_Running := True\<rparr> in
        if \<not> streamOk then (stream_leave c2, Inl StreamSecretsFailed)
        else (c2, Inr \<lparr>ce_client = c2, ce_broken = False, ce_done = False, ce_errs = [], ce_main = None,
               ce_receiver = CTop, ce_sender = CFirst, ce_handlers = replicate (length certs) CIdle,
               ce_delivered = []\<rparr>))"

abbreviation chandler_at :: "cli_end \<Rightarrow> nat \<Rightarrow> chandler_pc \<Rightarrow> bool" where
  "chandler_at c i pc \<equiv> i < length (ce_handlers c) \<and> ce_handlers c ! i = pc"

abbreviation set_chandler :: "nat \<Rightarrow> chandler_pc \<Rightarrow> cli_end \<Rightarrow> cli_end" where
  "set_chandler i pc c \<equiv> c\<lparr>ce_handlers := (ce_handlers c)[i := pc]\<rparr>"

abbreviation cgrpc_over :: "cli_end \<Rightarrow> bool" where
  "cgrpc_over c \<equiv> ce_broken c \<or> ce_main c \<noteq> None"

text \<open>\<open>metaOk\<close>: \<open>structpb.NewStruct\<close> accepts the names and domains.\<close>

inductive cli_step :: "bool \<Rightarrow> 'h watchingCert list \<Rightarrow> cli_wired \<Rightarrow> cli_wired \<Rightarrow> bool" for metaOk certs where
  cmain_ctx: "ce_main c = None \<Longrightarrow> ce_done c \<Longrightarrow>
    cli_step metaOk certs (c, up, down) (c\<lparr>ce_main := Some None, ce_client := stream_leave (ce_client c)\<rparr>, up, down)"
| cmain_err: "ce_main c = None \<Longrightarrow> ce_errs c = e # es \<Longrightarrow>
    cli_step metaOk certs (c, up, down)
      (c\<lparr>ce_main := Some (Some e), ce_errs := es, ce_done := True, ce_client := stream_leave (ce_client c)\<rparr>, up, down)"
| crecv_ctx: "ce_receiver c = CTop \<Longrightarrow> ce_done c \<Longrightarrow>
    cli_step metaOk certs (c, up, down) (c\<lparr>ce_receiver := CREnd\<rparr>, up, down)"
| crecv_calls: "ce_receiver c = CTop \<Longrightarrow> \<not> ce_done c \<Longrightarrow>
    cli_step metaOk certs (c, up, down) (c\<lparr>ce_receiver := CRecv\<rparr>, up, down)"
| crecv_fails: "ce_receiver c = CRecv \<Longrightarrow> cgrpc_over c \<Longrightarrow>
    cli_step metaOk certs (c, up, down) (c\<lparr>ce_receiver := CReport CRecvErr\<rparr>, up, down)"
| crecv_bad: "ce_receiver c = CRecv \<Longrightarrow>
    recv_response (dom (client_dispatch certs)) resp (ce_client c) = (cl, Inl e) \<Longrightarrow>
    cli_step metaOk certs (c, up, resp # down)
      (c\<lparr>ce_receiver := CReport (CStreamErr e), ce_client := cl\<rparr>, up, down)"
| crecv_gets: "ce_receiver c = CRecv \<Longrightarrow>
    recv_response (dom (client_dispatch certs)) resp (ce_client c) = (cl, Inr (n, d)) \<Longrightarrow>
    client_dispatch certs n = Some i \<Longrightarrow>
    cli_step metaOk certs (c, up, resp # down) (c\<lparr>ce_receiver := CHand i d, ce_client := cl\<rparr>, up, down)"
| crecv_hands: "ce_receiver c = CHand i d \<Longrightarrow> chandler_at c i CIdle \<Longrightarrow>
    client_handleCert (certs ! i) d = Inr (upd, ack) \<Longrightarrow>
    cli_step metaOk certs (c, up, down) (set_chandler i (CUpdate upd ack) (c\<lparr>ce_receiver := CTop\<rparr>), up, down)"
| crecv_hands_bad: "ce_receiver c = CHand i d \<Longrightarrow> chandler_at c i CIdle \<Longrightarrow>
    client_handleCert (certs ! i) d = Inl e \<Longrightarrow>
    cli_step metaOk certs (c, up, down) (set_chandler i (CHReport (CStreamErr e)) (c\<lparr>ce_receiver := CTop\<rparr>), up, down)"
| crecv_hand_ctx: "ce_receiver c = CHand i d \<Longrightarrow> ce_done c \<Longrightarrow>
    cli_step metaOk certs (c, up, down) (c\<lparr>ce_receiver := CTop\<rparr>, up, down)"
| crecv_reports: "ce_receiver c = CReport e \<Longrightarrow> ce_errs c = [] \<Longrightarrow>
    cli_step metaOk certs (c, up, down) (c\<lparr>ce_receiver := CREnd, ce_errs := [e]\<rparr>, up, down)"
| crecv_drops: "ce_receiver c = CReport e \<Longrightarrow> ce_done c \<Longrightarrow>
    cli_step metaOk certs (c, up, down) (c\<lparr>ce_receiver := CREnd\<rparr>, up, down)"
| chandler_updates: "chandler_at c i (CUpdate upd ack) \<Longrightarrow>
    cli_step metaOk certs (c, up, down)
      (set_chandler i (CAck ack) (c\<lparr>ce_delivered := ce_delivered c @ [(i, upd)]\<rparr>), up, down)"
| chandler_acks: "chandler_at c i (CAck ack) \<Longrightarrow> ce_sender c = CSIdle \<Longrightarrow>
    cli_step metaOk certs (c, up, down) (set_chandler i CIdle (c\<lparr>ce_sender := CSSend ack\<rparr>), up, down)"
| chandler_reports: "chandler_at c i (CHReport e) \<Longrightarrow> ce_errs c = [] \<Longrightarrow>
    cli_step metaOk certs (c, up, down) (set_chandler i CHEnd (c\<lparr>ce_errs := [e]\<rparr>), up, down)"
| chandler_ctx: "chandler_at c i pc \<Longrightarrow> pc \<noteq> CHEnd \<Longrightarrow> ce_done c \<Longrightarrow>
    cli_step metaOk certs (c, up, down) (set_chandler i CHEnd c, up, down)"
| csend_first: "ce_sender c = CFirst \<Longrightarrow> metaOk \<Longrightarrow>
    cli_step metaOk certs (c, up, down) (c\<lparr>ce_sender := CSIdle\<rparr>, up @ [packReq certs], down)"
| csend_first_fails: "ce_sender c = CFirst \<Longrightarrow> metaOk \<Longrightarrow> cgrpc_over c \<Longrightarrow>
    cli_step metaOk certs (c, up, down) (c\<lparr>ce_sender := CSReport CSendErr\<rparr>, up, down)"
| csend_meta: "ce_sender c = CFirst \<Longrightarrow> \<not> metaOk \<Longrightarrow>
    cli_step metaOk certs (c, up, down) (c\<lparr>ce_sender := CSReport CMetaErr\<rparr>, up, down)"
| csend_ok: "ce_sender c = CSSend a \<Longrightarrow>
    cli_step metaOk certs (c, up, down) (c\<lparr>ce_sender := CSIdle\<rparr>, up @ [a], down)"
| csend_fails: "ce_sender c = CSSend a \<Longrightarrow> cgrpc_over c \<Longrightarrow>
    cli_step metaOk certs (c, up, down) (c\<lparr>ce_sender := CSReport CSendErr\<rparr>, up, down)"
| csend_reports: "ce_sender c = CSReport e \<Longrightarrow> ce_errs c = [] \<Longrightarrow>
    cli_step metaOk certs (c, up, down) (c\<lparr>ce_sender := CSEnd, ce_errs := [e]\<rparr>, up, down)"
| csend_drops: "ce_sender c = CSReport e \<Longrightarrow> ce_done c \<Longrightarrow>
    cli_step metaOk certs (c, up, down) (c\<lparr>ce_sender := CSEnd\<rparr>, up, down)"
| csend_ctx: "ce_sender c = CSIdle \<Longrightarrow> ce_done c \<Longrightarrow>
    cli_step metaOk certs (c, up, down) (c\<lparr>ce_sender := CSEnd\<rparr>, up, down)"

definition cli_all_ended :: "cli_end \<Rightarrow> bool" where
  "cli_all_ended c \<longleftrightarrow> ce_main c \<noteq> None \<and> ce_receiver c = CREnd \<and> ce_sender c = CSEnd \<and>
     list_all (\<lambda>pc. pc = CHEnd) (ce_handlers c)"

section \<open>Teardown of the server's end\<close>

text \<open>The receiver can start any number of handlers with the request it may still read, so its
  position comes first in the order.\<close>

fun receiver_phase :: "'w receiver_pc \<Rightarrow> nat" where
  "receiver_phase RRecv = 4"
| "receiver_phase (RHand _ _ _ _) = 3"
| "receiver_phase (RReport _) = 2"
| "receiver_phase RTop = 1"
| "receiver_phase REnd = 0"

fun hand_length :: "'w receiver_pc \<Rightarrow> nat" where
  "hand_length (RHand _ acks _ _) = length acks"
| "hand_length _ = 0"

fun sender_weight :: "sender_pc \<Rightarrow> nat" where
  "sender_weight (SSend _) = 4"
| "sender_weight SReport = 2"
| "sender_weight SIdle = 1"
| "sender_weight SEnd = 0"

fun handler_weight :: "handler_pc \<Rightarrow> nat" where
  "handler_weight HFirst = 20"
| "handler_weight HSnap = 20"
| "handler_weight (HOffer _) = 16"
| "handler_weight (HAck _) = 8"
| "handler_weight HWait = 6"
| "handler_weight HReport = 2"
| "handler_weight HEnd = 0"

definition srv_weight :: "'w srv_end \<Rightarrow> nat" where
  "srv_weight s = of_bool (se_main s = None) + of_bool (se_merger s) + of_bool (\<not> se_crashed s) +
     sender_weight (se_sender s) + sum_list (map handler_weight (se_handlers s))"

definition srv_order :: "('w srv_wired \<times> 'w srv_wired) set" where
  "srv_order = inv_image (less_than <*lex*> less_than <*lex*> less_than)
     (\<lambda>(s, up, down). (receiver_phase (se_receiver s), hand_length (se_receiver s), srv_weight s))"

lemma wf_srv_order: "wf srv_order"
  by (simp add: srv_order_def wf_lex_prod)

lemma handlers_weight_upd:
  "i < length hs \<Longrightarrow> sum_list (map f (hs[i := h])) + f (hs ! i) = sum_list (map f hs) + (f h :: nat)"
  by (induction hs arbitrary: i) (auto split: nat.splits)

lemma weight_drop:
  fixes f :: "'a \<Rightarrow> nat"
  assumes "i < length hs"
  shows "f h < f (hs ! i) \<Longrightarrow> sum_list (map f (hs[i := h])) < sum_list (map f hs)"
    and "k + f h < f (hs ! i) \<Longrightarrow> k + sum_list (map f (hs[i := h])) < sum_list (map f hs)"
    and "f h < k + f (hs ! i) \<Longrightarrow> sum_list (map f (hs[i := h])) < k + sum_list (map f hs)"
  using handlers_weight_upd [OF assms, of f h] by linarith+

lemma handler_weight_pos: "pc \<noteq> HEnd \<Longrightarrow> 0 < handler_weight pc"
  by (cases pc) auto

lemma srv_goes_down:
  assumes "srv_go fmt lw w w'" "\<not> se_crashed (fst w)" "se_done (fst w)"
  shows "(w', w) \<in> srv_order"
  using assms
  by (induction rule: srv_go.induct)
    (auto simp: srv_order_def srv_weight_def handler_weight_pos intro!: weight_drop)

lemma srv_done_stays: "srv_go fmt lw w w' \<Longrightarrow> se_done (fst w) \<Longrightarrow> se_done (fst w')"
  by (induction rule: srv_go.induct) auto

text \<open>At its end a goroutine that has not ended can always take a step.\<close>

lemma srv_progress:
  assumes d: "se_done s" and "\<not> srv_all_ended s"
  shows "\<exists>w'. srv_go fmt lw (s, up, down) w'"
proof -
  consider "se_main s = None" | "se_merger s" | "se_main s \<noteq> None" "se_sender s \<noteq> SEnd"
    | "se_main s \<noteq> None" "se_receiver s \<noteq> REnd"
    | i where "i < length (se_handlers s)" "se_handlers s ! i \<noteq> HEnd"
    using assms(2) by (auto simp: srv_all_ended_def list_all_length)
  then show ?thesis
  proof cases
    case 3
    then show ?thesis using d by (cases "se_sender s") (blast intro: srv_go.intros)+
  next
    case 4
    show ?thesis
    proof (cases "se_receiver s")
      case (RHand req acks err st)
      then show ?thesis using d by (cases acks; cases err) (blast intro: srv_go.intros)+
    qed (use d 4 in \<open>blast intro: srv_go.intros\<close>)+
  next
    case (5 i)
    then show ?thesis
      using d by (cases "se_handlers s ! i = HSnap") (blast intro: srv_go.intros)+
  qed (use d in \<open>blast intro: srv_go.intros\<close>)+
qed

interpretation srv: teardown "srv_step fmt lw" "\<lambda>w. se_done (fst w)"
    "\<lambda>w. se_crashed (fst w) \<or> srv_all_ended (fst w)" srv_order
proof
  fix w :: "'a srv_wired"
  assume "se_done (fst w)" "\<not> (se_crashed (fst w) \<or> srv_all_ended (fst w))"
  then show "\<exists>t. srv_step fmt lw w t"
    using srv_progress [of "fst w" fmt lw "fst (snd w)" "snd (snd w)"] by (auto simp: srv_step_def)
qed (auto simp: srv_step_def wf_srv_order intro: srv_done_stays srv_goes_down)

section \<open>Teardown of the client's end\<close>

fun creceiver_weight :: "creceiver_pc \<Rightarrow> nat" where
  "creceiver_weight CRecv = 40"
| "creceiver_weight (CHand _ _) = 30"
| "creceiver_weight (CReport _) = 2"
| "creceiver_weight CTop = 1"
| "creceiver_weight CREnd = 0"

fun chandler_weight :: "chandler_pc \<Rightarrow> nat" where
  "chandler_weight (CUpdate _ _) = 10"
| "chandler_weight (CAck _) = 8"
| "chandler_weight (CHReport _) = 3"
| "chandler_weight CIdle = 2"
| "chandler_weight CHEnd = 0"

fun csender_weight :: "csender_pc \<Rightarrow> nat" where
  "csender_weight CFirst = 6"
| "csender_weight (CSSend _) = 4"
| "csender_weight (CSReport _) = 2"
| "csender_weight CSIdle = 1"
| "csender_weight CSEnd = 0"

definition cli_weight :: "cli_wired \<Rightarrow> nat" where
  "cli_weight = (\<lambda>(c, up, down). of_bool (ce_main c = None) + creceiver_weight (ce_receiver c) +
     csender_weight (ce_sender c) + sum_list (map chandler_weight (ce_handlers c)))"

lemma chandler_weight_pos: "pc \<noteq> CHEnd \<Longrightarrow> 0 < chandler_weight pc"
  by (cases pc) auto

lemma cli_goes_down:
  "cli_step metaOk certs w w' \<Longrightarrow> ce_done (fst w) \<Longrightarrow> cli_weight w' < cli_weight w"
  by (induction rule: cli_step.induct)
    (auto simp: cli_weight_def chandler_weight_pos intro!: weight_drop)

lemma cli_done_stays: "cli_step metaOk certs w w' \<Longrightarrow> ce_done (fst w) \<Longrightarrow> ce_done (fst w')"
  by (induction rule: cli_step.induct) auto

lemma cli_progress:
  assumes d: "ce_done c" and "\<not> cli_all_ended c"
  shows "\<exists>w'. cli_step metaOk certs (c, up, down) w'"
proof -
  consider "ce_main c = None" | "ce_main c \<noteq> None" "ce_sender c \<noteq> CSEnd"
    | "ce_main c \<noteq> None" "ce_receiver c \<noteq> CREnd"
    | i where "i < length (ce_handlers c)" "ce_handlers c ! i \<noteq> CHEnd"
    using assms(2) by (auto simp: cli_all_ended_def list_all_length)
  then show ?thesis
  proof cases
    case 2
    then show ?thesis using d by (cases "ce_sender c"; cases metaOk) (blast intro: cli_step.intros)+
  next
    case 3
    then show ?thesis using d by (cases "ce_receiver c") (blast intro: cli_step.intros)+
  qed (use d in \<open>blast intro: cli_step.intros\<close>)+
qed

interpretation cli: teardown "cli_step metaOk certs" "\<lambda>w. ce_done (fst w)"
    "\<lambda>w. cli_all_ended (fst w)" "measure cli_weight"
proof
  fix w :: cli_wired
  assume "ce_done (fst w)" "\<not> cli_all_ended (fst w)"
  then show "\<exists>t. cli_step metaOk certs w t"
    using cli_progress [of "fst w" metaOk certs "fst (snd w)" "snd (snd w)"] by auto
qed (auto intro: cli_done_stays cli_goes_down)

section \<open>Properties\<close>

text \<open>
  C19: No goroutine of a stream outlives it. Once the context of a stream is done, at either end,
  its goroutines cannot go on for ever in any schedule, and when they have come to rest all have
  ended, \<open>StreamSecrets\<close> or \<open>Stream\<close> itself included - unless the server process has crashed on an
  acknowledgement; such an end can be reached. This holds whatever requests and responses are still
  on the wires.
\<close>

theorem streams_end:
  assumes "se_done (fst (fs 0))" and "ce_done (fst (fc 0))"
  shows "\<not> (\<forall>i. srv_step fmt lw (fs i) (fs (Suc i))) \<and>
    \<not> (\<forall>i. cli_step metaOk certs (fc i) (fc (Suc i))) \<and>
    (\<forall>s. (srv_step fmt lw)\<^sup>*\<^sup>* (fs 0) s \<and> \<not> (\<exists>s'. srv_step fmt lw s s') \<longrightarrow>
       se_crashed (fst s) \<or> srv_all_ended (fst s)) \<and>
    (\<forall>c. (cli_step metaOk certs)\<^sup>*\<^sup>* (fc 0) c \<and> \<not> (\<exists>c'. cli_step metaOk certs c c') \<longrightarrow> cli_all_ended (fst c)) \<and>
    (\<exists>s. (srv_step fmt lw)\<^sup>*\<^sup>* (fs 0) s \<and> (se_crashed (fst s) \<or> srv_all_ended (fst s))) \<and>
    (\<exists>c. (cli_step metaOk certs)\<^sup>*\<^sup>* (fc 0) c \<and> cli_all_ended (fst c))"
  using srv.no_endless_run [where f = fs, OF assms(1)] cli.no_endless_run [where f = fc, OF assms(2)]
    srv.stuck_ended [OF assms(1)] cli.stuck_ended [OF assms(2)]
    srv.comes_to_end [OF assms(1)] cli.comes_to_end [OF assms(2)] by blast

definition ex_srv :: "nat srv_wired" where
  "ex_srv = ((StreamSecrets_start example_server)\<lparr>se_done := True, se_receiver := RRecv,
     se_handlers := [HOffer zero_CertT, HWait]\<rparr>, [], [])"

definition ex_cli :: cli_wired where
  "ex_cli = (\<lparr>ce_client = \<lparr>gc_Received = 0, gc_Running = True, gc_cancel = Some 0\<rparr>, ce_broken = False,
     ce_done = True, ce_errs = [], ce_main = None, ce_receiver = CRecv, ce_sender = CFirst,
     ce_handlers = [CIdle, CIdle], ce_delivered = []\<rparr>, [], [])"

theorem streams_end_witness:
  "(\<exists>s. (srv_step (\<lambda>t. []) id)\<^sup>*\<^sup>* ex_srv s \<and> (se_crashed (fst s) \<or> srv_all_ended (fst s))) \<and>
   (\<exists>c. (cli_step True ([] :: unit watchingCert list))\<^sup>*\<^sup>* ex_cli c \<and> cli_all_ended (fst c))"
  using streams_end [of "\<lambda>_. ex_srv" "\<lambda>_. ex_cli" "\<lambda>t. []" id True "[] :: unit watchingCert list"]
  by (simp add: ex_srv_def ex_cli_def)

text \<open>
  A request that acknowledges two packs at once, with the version of the first and no error, as a
  client of the protocol may do that names all its resources in every request, brings the server
  process down: the handler of the second pack takes the foreign version for a rejection and reads
  the error that is not there.
\<close>

theorem joint_ack_crashes:
  assumes "se_receiver s = RRecv" "\<not> se_crashed s" "sd_domainSets (se_stream s) \<noteq> None"
    and d: "sd_dispatch (se_stream s) a = Some i" "sd_dispatch (se_stream s) b = Some j" "i \<noteq> j"
    and h: "handler_at s i (HAck x)" "handler_at s j (HAck y)"
    and r: "dr_TypeUrl req = typeUrl" "dr_ResourceNames req = [a, b]" "dr_ErrorDetail req = None"
      "dr_VersionInfo req = fmt (c_RenewAt x)" "dr_VersionInfo req \<noteq> fmt (c_RenewAt y)"
  shows "\<exists>w. (srv_step fmt lw)\<^sup>*\<^sup>* (s, req # up, down) w \<and> se_crashed (fst w)"
proof -
  obtain st where "recv_request lw id req (se_stream s) = ([a, b], None, st)"
    using assms(3) d r by (auto simp: recv_request_def domain_sets_def)
  then have 1: "srv_step fmt lw (s, req # up, down) (s\<lparr>se_receiver := RHand req [a, b] None st\<rparr>, up, down)"
    using assms(1,2) recv_gets [of s id lw req "[a, b]" None st fmt up down] by (simp add: srv_step_def)
  let ?s = "s\<lparr>se_receiver := RHand req [b] None st, se_handlers := (se_handlers s)[i := HWait]\<rparr>"
  have 2: "srv_step fmt lw (s\<lparr>se_receiver := RHand req [a, b] None st\<rparr>, up, down) (?s, up, down)"
    using recv_acks [where s = "s\<lparr>se_receiver := RHand req [a, b] None st\<rparr>" and i = i and x = x and fmt = fmt and lw = lw
        and req = req and n = a and acks = "[b]" and err = None and st = st and up = up and down = down] assms(2) d h r
    by (simp add: srv_step_def)
  have 3: "srv_step fmt lw (?s, up, down) (?s\<lparr>se_crashed := True\<rparr>, up, down)"
    using recv_crashes [where s = ?s and i = j and x = y and fmt = fmt and lw = lw
        and req = req and n = b and acks = "[]" and err = None and st = st and up = up and down = down] assms(2) d h r
    by (simp add: srv_step_def)
  have "(srv_step fmt lw)\<^sup>*\<^sup>* (s, req # up, down) (?s\<lparr>se_crashed := True\<rparr>, up, down)"
    using 1 2 3 by (blast intro: converse_rtranclp_into_rtranclp)
  moreover have "se_crashed (fst (?s\<lparr>se_crashed := True\<rparr>, up, down))" by simp
  ultimately show ?thesis by blast
qed

end
