(* ===== verification/Sds_Duplex.thy ===== *)
theory Sds_Duplex
  imports Sds_Stream
begin

text \<open>
  The two ends of \<open>Sds_Stream\<close> on one connection. Each offer of a pack handler of the server is
  followed through the sender, the wire, the client's receiver, handler and sender and back to the
  server's receiver: at any time there is at most one message under way for a pack, and its handler
  waits for just this one. So no acknowledgement of a certdx client keeps the server's receiver
  waiting, and none is of the kind on which the server crashes.
\<close>

record 'w duplex =
  du_srv :: "'w srv_end"
  du_up :: "DiscoveryRequest list"
  du_down :: "sds_response list"
  du_cli :: cli_end

text \<open>Besides the goroutines: the server is stopped, the connection breaks, the client's stream is
  cancelled by \<open>Kill\<close> or its context.\<close>

inductive duplex_step :: "(time \<Rightarrow> string) \<Rightarrow> (string \<Rightarrow> string) \<Rightarrow> bool \<Rightarrow> 'h watchingCert list \<Rightarrow>
    'w duplex \<Rightarrow> 'w duplex \<Rightarrow> bool"
  for fmt lw metaOk certs where
  du_server: "srv_step fmt lw (du_srv d, du_up d, du_down d) (s, up, down) \<Longrightarrow>
    duplex_step fmt lw metaOk certs d (d\<lparr>du_srv := s, du_up := up, du_down := down\<rparr>)"
| du_client: "cli_step metaOk certs (du_cli d, du_up d, du_down d) (c, up, down) \<Longrightarrow>
    duplex_step fmt lw metaOk certs d (d\<lparr>du_cli := c, du_up := up, du_down := down\<rparr>)"
| du_stop: "duplex_step fmt lw metaOk certs d (d\<lparr>du_srv := (du_srv d)\<lparr>se_root := True\<rparr>\<rparr>)"
| du_srv_breaks: "duplex_step fmt lw metaOk certs d
    (d\<lparr>du_srv := (du_srv d)\<lparr>se_broken := True, se_done := True\<rparr>\<rparr>)"
| du_cli_breaks: "duplex_step fmt lw metaOk certs d (d\<lparr>du_cli := (du_cli d)\<lparr>ce_broken := True\<rparr>\<rparr>)"
| du_kill: "duplex_step fmt lw metaOk certs d (d\<lparr>du_cli := (du_cli d)\<lparr>ce_done := True\<rparr>\<rparr>)"

definition duplex_init :: "'h watchingCert list \<Rightarrow> 'w duplex \<Rightarrow> bool" where
  "duplex_init certs d \<longleftrightarrow> (\<exists>srv cancel cl cl' c. du_srv d = StreamSecrets_start srv \<and>
     Stream_start True True cancel certs cl = (cl', Inr c) \<and> du_cli d = c \<and> du_up d = [] \<and> du_down d = [])"

section \<open>Messages under way\<close>

text \<open>A message is a pack's name and a version.\<close>

type_synonym token = "string \<times> string"

definition req_toks :: "DiscoveryRequest \<Rightarrow> token multiset" where
  "req_toks req = (if dr_Node req = None then mset (map (\<lambda>n. (n, dr_VersionInfo req)) (dr_ResourceNames req)) else {#})"

definition resp_toks :: "sds_response \<Rightarrow> token multiset" where
  "resp_toks r = mset (map (\<lambda>sec. (sec_Name sec, sr_VersionInfo r)) (List.map_filter id (sr_Resources r)))"

fun sender_toks :: "sender_pc \<Rightarrow> token multiset" where
  "sender_toks (SSend r) = {#(ds_Name r, ds_VersionInfo r)#}"
| "sender_toks _ = {#}"

fun receiver_toks :: "'w receiver_pc \<Rightarrow> token multiset" where
  "receiver_toks (RHand req acks _ _) = mset (map (\<lambda>n. (n, dr_VersionInfo req)) acks)"
| "receiver_toks _ = {#}"

fun creceiver_toks :: "creceiver_pc \<Rightarrow> token multiset" where
  "creceiver_toks (CHand i d) = {#(sec_Name (rd_Secret d), rd_Version d)#}"
| "creceiver_toks _ = {#}"

fun chandler_toks :: "chandler_pc \<Rightarrow> token multiset" where
  "chandler_toks (CUpdate upd ack) = req_toks ack"
| "chandler_toks (CAck ack) = req_toks ack"
| "chandler_toks _ = {#}"

fun csender_toks :: "csender_pc \<Rightarrow> token multiset" where
  "csender_toks (CSSend a) = req_toks a"
| "csender_toks _ = {#}"

definition srv_toks :: "'w srv_end \<Rightarrow> token multiset" where
  "srv_toks s = sender_toks (se_sender s) + receiver_toks (se_receiver s)"

definition cli_toks :: "cli_end \<Rightarrow> token multiset" where
  "cli_toks c = creceiver_toks (ce_receiver c) + sum_list (map chandler_toks (ce_handlers c)) + csender_toks (ce_sender c)"

definition up_toks :: "DiscoveryRequest list \<Rightarrow> token multiset" where
  "up_toks up = sum_list (map req_toks up)"

definition down_toks :: "sds_response list \<Rightarrow> token multiset" where
  "down_toks down = sum_list (map resp_toks down)"

definition toks :: "'w duplex \<Rightarrow> token multiset" where
  "toks d = srv_toks (du_srv d) + down_toks (du_down d) + cli_toks (du_cli d) + up_toks (du_up d)"

section \<open>The invariant\<close>

text \<open>The handler of a message's pack waits for this message or has ended.\<close>

definition awaited :: "(time \<Rightarrow> string) \<Rightarrow> (string \<rightharpoonup> nat) \<Rightarrow> handler_pc list \<Rightarrow> token \<Rightarrow> bool" where
  "awaited fmt dispatch hs t \<longleftrightarrow> (\<exists>i. dispatch (fst t) = Some i \<and> i < length hs \<and>
     (hs ! i = HEnd \<or> (\<exists>x. hs ! i = HAck x \<and> snd t = fmt (c_RenewAt x))))"

definition tok_inv :: "(time \<Rightarrow> string) \<Rightarrow> (string \<rightharpoonup> nat) \<Rightarrow> handler_pc list \<Rightarrow> token multiset \<Rightarrow> bool" where
  "tok_inv fmt dispatch hs T \<longleftrightarrow> (\<forall>n. count (image_mset fst T) n \<le> 1) \<and> (\<forall>t \<in># T. awaited fmt dispatch hs t)"

text \<open>The channels of a stream and its handlers match.\<close>

definition stream_ok :: "'w sds_stream \<Rightarrow> bool" where
  "stream_ok st \<longleftrightarrow> (\<forall>n i. sd_dispatch st n = Some i \<longleftrightarrow> i < length (sd_handlers st) \<and> fst (sd_handlers st ! i) = n) \<and>
     (sd_handlers st \<noteq> [] \<longrightarrow> sd_domainSets st \<noteq> None)"

definition srv_ok :: "'w srv_end \<Rightarrow> bool" where
  "srv_ok s \<longleftrightarrow> \<not> se_crashed s \<and> stream_ok (se_stream s) \<and> length (se_handlers s) = length (sd_handlers (se_stream s)) \<and>
     (\<forall>req acks err st. se_receiver s = RHand req acks err st \<longrightarrow>
        (st = se_stream s \<and> err = None \<and> dr_ErrorDetail req = None) \<or>
        (acks = [] \<and> se_handlers s = [] \<and> stream_ok st \<and> (err \<noteq> None \<longrightarrow> sd_handlers st = [])))"

text \<open>An acknowledgement of the client.\<close>

definition is_ack :: "DiscoveryRequest \<Rightarrow> bool" where
  "is_ack a \<longleftrightarrow> dr_TypeUrl a = typeUrl \<and> dr_Node a = None \<and> dr_ErrorDetail a = None \<and> (\<exists>n. dr_ResourceNames a = [n])"

fun chandler_ok :: "chandler_pc \<Rightarrow> bool" where
  "chandler_ok (CUpdate upd ack) = is_ack ack"
| "chandler_ok (CAck ack) = is_ack ack"
| "chandler_ok _ = True"

definition cli_ok :: "'h watchingCert list \<Rightarrow> cli_end \<Rightarrow> bool" where
  "cli_ok certs c \<longleftrightarrow> length (ce_handlers c) = length certs \<and> list_all chandler_ok (ce_handlers c) \<and>
     (\<forall>a. ce_sender c = CSSend a \<longrightarrow> is_ack a) \<and>
     (\<forall>i d. ce_receiver c = CHand i d \<longrightarrow> i < length certs \<and> sec_Name (rd_Secret d) = cert_name (certs ! i))"

fun handing :: "'w receiver_pc \<Rightarrow> bool" where
  "handing (RHand _ _ _ _) = True"
| "handing _ = False"

text \<open>The first request is sent once, and there are no handlers before it has been received.\<close>

definition first_ok :: "'h watchingCert list \<Rightarrow> 'w srv_end \<Rightarrow> DiscoveryRequest list \<Rightarrow> cli_end \<Rightarrow> bool" where
  "first_ok certs s up c \<longleftrightarrow> list_all (\<lambda>a. is_ack a \<or> a = packReq certs) up \<and>
     (ce_sender c = CFirst \<longrightarrow> up = []) \<and>
     (ce_sender c = CFirst \<or> packReq certs \<in> set up \<longrightarrow>
        sd_handlers (se_stream s) = [] \<and> count_list up (packReq certs) \<le> 1 \<and>
        \<not> handing (se_receiver s))"

definition duplex_inv :: "(time \<Rightarrow> string) \<Rightarrow> 'h watchingCert list \<Rightarrow> 'w duplex \<Rightarrow> bool" where
  "duplex_inv fmt certs d \<longleftrightarrow> tok_inv fmt (sd_dispatch (se_stream (du_srv d))) (se_handlers (du_srv d)) (toks d) \<and>
     srv_ok (du_srv d) \<and> cli_ok certs (du_cli d) \<and>
     first_ok certs (du_srv d) (du_up d) (du_cli d)"

section \<open>Lemmas\<close>

lemma no_token: "count (image_mset fst T) n = 0 \<longleftrightarrow> (\<forall>t \<in># T. fst t \<noteq> n)"
  by (simp only: count_eq_zero_iff set_image_mset) blast

text \<open>A handler moves; the messages of the other packs are as they were.\<close>

lemma awaited_elsewhere:
  assumes "inj_on dispatch (dom dispatch)" "dispatch n = Some i" "fst t \<noteq> n" "awaited fmt dispatch hs t"
  shows "awaited fmt dispatch (hs[i := pc]) t"
proof -
  obtain j where j: "dispatch (fst t) = Some j" "j < length hs"
    "hs ! j = HEnd \<or> (\<exists>x. hs ! j = HAck x \<and> snd t = fmt (c_RenewAt x))"
    using assms(4) by (auto simp: awaited_def)
  have "j \<noteq> i" using assms(1-3) j(1) by (metis domI inj_onD)
  then show ?thesis using j by (simp add: awaited_def)
qed

lemma tok_inv_mono:
  assumes "tok_inv fmt dispatch hs T" "T' \<subseteq># T"
    and "\<And>t. t \<in># T' \<Longrightarrow> awaited fmt dispatch hs t \<Longrightarrow> awaited fmt dispatch' hs' t"
  shows "tok_inv fmt dispatch' hs' T'"
proof -
  have "count (image_mset fst T') n \<le> count (image_mset fst T) n" for n
    by (rule mset_subset_eq_count) (rule image_mset_subseteq_mono [OF assms(2)])
  then have "\<forall>n. count (image_mset fst T') n \<le> 1"
    using assms(1) le_trans unfolding tok_inv_def by blast
  moreover have "\<forall>t \<in># T'. awaited fmt dispatch' hs' t"
    using assms mset_subset_eqD [OF assms(2)] unfolding tok_inv_def by blast
  ultimately show ?thesis unfolding tok_inv_def by blast
qed

lemma tok_inv_less: "tok_inv fmt dispatch hs (K + T) \<Longrightarrow> tok_inv fmt dispatch hs T"
  using tok_inv_mono [of fmt dispatch hs "K + T" T dispatch hs] by simp

text \<open>A new message for a pack whose handler was not waiting.\<close>

lemma tok_inv_offer:
  assumes "tok_inv fmt dispatch hs T" "inj_on dispatch (dom dispatch)" "dispatch n = Some i"
    and "i < length hs" "hs ! i = HOffer x"
  shows "tok_inv fmt dispatch (hs[i := HAck x]) (add_mset (n, fmt (c_RenewAt x)) T)"
proof -
  have other: "fst t \<noteq> n" if "t \<in># T" for t
    using assms(1,3,5) that by (force simp: tok_inv_def awaited_def)
  then have "count (image_mset fst T) n = 0"
    unfolding no_token by blast
  moreover have "awaited fmt dispatch (hs[i := HAck x]) t" if "t \<in># T" for t
    using awaited_elsewhere [OF assms(2,3) other [OF that]] assms(1) that by (simp add: tok_inv_def)
  moreover have "awaited fmt dispatch (hs[i := HAck x]) (n, fmt (c_RenewAt x))"
    using assms(3,4) by (simp add: awaited_def)
  ultimately show ?thesis
    using assms(1) by (simp add: tok_inv_def)
qed

text \<open>The awaited acknowledgement arrives.\<close>

lemma tok_inv_ack:
  assumes "tok_inv fmt dispatch hs (add_mset (n, v) T)" "inj_on dispatch (dom dispatch)" "dispatch n = Some i"
  shows "tok_inv fmt dispatch (hs[i := pc]) T"
proof -
  have other: "fst t \<noteq> n" if "t \<in># T" for t
  proof
    assume "fst t = n"
    then have "count (image_mset fst T) n \<noteq> 0" using that unfolding no_token by blast
    moreover have "count (image_mset fst (add_mset (n, v) T)) n \<le> 1" using assms(1) unfolding tok_inv_def by blast
    moreover have "count (image_mset fst (add_mset (n, v) T)) n = Suc (count (image_mset fst T) n)" by simp
    ultimately show False by linarith
  qed
  show ?thesis
  proof (rule tok_inv_mono [OF assms(1)])
    fix t assume "t \<in># T" "awaited fmt dispatch hs t"
    then show "awaited fmt dispatch (hs[i := pc]) t"
      using awaited_elsewhere [OF assms(2,3) other] by blast
  qed simp
qed

text \<open>A handler that does not wait for an acknowledgement may move, and any may end.\<close>

lemma tok_inv_handler:
  assumes "tok_inv fmt dispatch hs T" "pc = HEnd \<or> hs ! i \<noteq> HEnd \<and> (\<forall>x. hs ! i \<noteq> HAck x)"
  shows "tok_inv fmt dispatch (hs[i := pc]) T"
proof (rule tok_inv_mono [OF assms(1)])
  fix t assume "awaited fmt dispatch hs t"
  then obtain j where j: "dispatch (fst t) = Some j" "j < length hs"
    "hs ! j = HEnd \<or> (\<exists>x. hs ! j = HAck x \<and> snd t = fmt (c_RenewAt x))"
    by (auto simp: awaited_def)
  then have "hs[i := pc] ! j = HEnd \<or> (\<exists>x. hs[i := pc] ! j = HAck x \<and> snd t = fmt (c_RenewAt x))"
    using assms(2) by (cases "j = i") auto
  then show "awaited fmt dispatch (hs[i := pc]) t"
    using j(1,2) by (simp add: awaited_def)
qed simp

lemma stream_ok_inj: "stream_ok st \<Longrightarrow> inj_on (sd_dispatch st) (dom (sd_dispatch st))"
  unfolding stream_ok_def inj_on_def by (metis domD)

lemma start_handlers_ok:
  assumes "stream_ok st" "sd_domainSets st \<noteq> None" "distinct (map fst packs)"
    and "\<forall>(n, ds) \<in> set packs. sd_dispatch st n = None"
  shows "stream_ok (start_handlers lw packs st)"
  using assms
proof (induction lw packs st rule: start_handlers.induct)
  case (2 lw name domains packs st)
  obtain k m where km: "get lw (sv_chans (sd_srv st)) domains (sv_cache (sd_srv st)) = (k, m)"
    by fastforce
  let ?st = "st\<lparr>sd_srv := (sd_srv st)\<lparr>sv_cache := m, sv_chans := sv_chans (sd_srv st) + 1\<rparr>,
    sd_dispatch := (sd_dispatch st)(name \<mapsto> length (sd_handlers st)),
    sd_handlers := sd_handlers st @ [(name, domains, k)]\<rparr>"
  have "sd_dispatch st name = None" using 2(5) by simp
  then have "\<forall>i < length (sd_handlers st). fst (sd_handlers st ! i) \<noteq> name"
    using 2(2) unfolding stream_ok_def by (metis option.distinct(1))
  then have "stream_ok ?st"
    using 2(2,3) by (auto simp: stream_ok_def nth_append less_Suc_eq)
  moreover have "\<forall>(n, ds) \<in> set packs. sd_dispatch ?st n = None"
    using 2(4,5) by (force split: if_splits)
  ultimately show ?case
    using 2(1) [OF km [symmetric] refl] 2(3,4) km by simp
qed simp

lemma scan_names_no_acks: "scan_names lw allowed Map.empty sets names packs = (acks, r) \<Longrightarrow> acks = []"
  by (induction lw allowed "Map.empty :: string \<rightharpoonup> nat" sets names packs rule: scan_names.induct)
    (auto split: option.splits pval.splits if_splits)

lemma stream_ok_no_handlers: "stream_ok st \<Longrightarrow> sd_handlers st = [] \<Longrightarrow> sd_dispatch st = Map.empty"
  by (auto simp: stream_ok_def fun_eq_iff)

text \<open>The request that finds no handlers is handed to none.\<close>

lemma recv_first:
  assumes perm: "\<And>ps. mset (iter ps) = mset ps"
    and st: "stream_ok st" "sd_handlers st = []"
    and recv: "recv_request lw iter req st = (acks, err, st')"
  shows "acks = [] \<and> stream_ok st' \<and> (err \<noteq> None \<longrightarrow> sd_handlers st' = [])"
proof -
  note e = stream_ok_no_handlers [OF st]
  have "stream_ok (start_handlers lw (iter packs) (st\<lparr>sd_domainSets := Some sets\<rparr>))"
    if "scan_names lw al Map.empty sets names [] = (acks', Inr packs)" for sets al names acks' packs
  proof (rule start_handlers_ok)
    have "set (iter packs) = set packs" "distinct (map fst (iter packs)) = distinct (map fst packs)"
      using perm [of packs] by (metis set_mset_mset) (metis perm mset_map mset_eq_imp_distinct_iff)
    then show "distinct (map fst (iter packs))"
      using scan_names_packs [OF that] by simp
  qed (use st e in \<open>auto simp: stream_ok_def\<close>)
  moreover have "stream_ok (st\<lparr>sd_domainSets := Some sets\<rparr>)" for sets
    using st by (simp add: stream_ok_def)
  ultimately show ?thesis
    using recv st scan_names_no_acks
    by (simp add: recv_request_def e Let_def split: if_splits sum.splits prod.splits) (blast | auto)+
qed

text \<open>An acknowledgement finds its handler.\<close>

lemma recv_ack:
  assumes perm: "\<And>ps. mset (iter ps) = mset ps"
    and "is_ack a" "dr_ResourceNames a = [n]" "stream_ok st" "sd_dispatch st n = Some i"
  shows "recv_request lw iter a st = ([n], None, st)"
proof -
  have "iter [] = []" using perm [of "[]"] by simp
  moreover obtain sets where "sd_domainSets st = Some sets"
    using assms(4,5) by (fastforce simp: stream_ok_def)
  moreover from this have "st\<lparr>sd_domainSets := Some sets\<rparr> = st" by simp
  ultimately show ?thesis
    using assms(2,3,5) by (simp add: recv_request_def is_ack_def domain_sets_def)
qed

section \<open>Steps of the server\<close>

definition wired_toks :: "cli_end \<Rightarrow> 'w srv_wired \<Rightarrow> token multiset" where
  "wired_toks c w = srv_toks (fst w) + down_toks (snd (snd w)) + cli_toks c + up_toks (fst (snd w))"

definition wired_inv :: "(time \<Rightarrow> string) \<Rightarrow> 'h watchingCert list \<Rightarrow> cli_end \<Rightarrow> 'w srv_wired \<Rightarrow> bool" where
  "wired_inv fmt certs c w \<longleftrightarrow>
     tok_inv fmt (sd_dispatch (se_stream (fst w))) (se_handlers (fst w)) (wired_toks c w) \<and> srv_ok (fst w) \<and> cli_ok certs c \<and>
     first_ok certs (fst w) (fst (snd w)) c"

lemma duplex_inv_wired: "duplex_inv fmt certs d \<longleftrightarrow> wired_inv fmt certs (du_cli d) (du_srv d, du_up d, du_down d)"
  by (simp add: duplex_inv_def wired_inv_def wired_toks_def toks_def)

lemma toks_Cons [simp]:
  "up_toks [] = {#}" "up_toks (a # up) = req_toks a + up_toks up" "up_toks (up @ [a]) = req_toks a + up_toks up"
  "down_toks [] = {#}" "down_toks (r # down) = resp_toks r + down_toks down" "down_toks (down @ [r]) = resp_toks r + down_toks down"
  by (simp_all add: up_toks_def down_toks_def)

lemma resp_toks_wire [simp]: "resp_toks (wire r) = {#(ds_Name r, ds_VersionInfo r)#}"
  by (simp add: resp_toks_def wire_def List.map_filter_def)

lemma secret_response_sel [simp]:
  "ds_Name (secret_response fmt n x) = n" "ds_VersionInfo (secret_response fmt n x) = fmt (c_RenewAt x)"
  by (simp_all add: secret_response_def)

lemma req_toks_ack: "is_ack a \<Longrightarrow> dr_ResourceNames a = [n] \<Longrightarrow> req_toks a = {#(n, dr_VersionInfo a)#}"
  by (simp add: req_toks_def is_ack_def)

lemma req_toks_first [simp]: "req_toks (packReq certs) = {#}"
  by (simp add: req_toks_def packReq_def)

lemma not_ack_first [simp]: "\<not> is_ack (packReq certs)"
  by (simp add: is_ack_def packReq_def)

text \<open>What is read from the wire: the first request, which finds no handlers, or an acknowledgement
  that its handler waits for.\<close>

lemma recv_gets_inv:
  assumes perm: "\<And>ps. mset (iter ps) = mset ps"
    and recv: "se_receiver s = RRecv" "recv_request lw iter req (se_stream s) = (acks, err, st)"
    and inv: "wired_inv fmt certs c (s, req # up, down)"
  shows "wired_inv fmt certs c (s\<lparr>se_receiver := RHand req acks err st\<rparr>, up, down)"
proof (cases "is_ack req")
  case True
  then obtain n where n: "dr_ResourceNames req = [n]" by (auto simp: is_ack_def)
  have T: "wired_toks c (s, req # up, down) = wired_toks c (s\<lparr>se_receiver := RHand req [n] err st\<rparr>, up, down)"
    using recv(1) by (simp add: wired_toks_def srv_toks_def req_toks_ack [OF True n])
  have "(n, dr_VersionInfo req) \<in># wired_toks c (s, req # up, down)"
    by (simp add: wired_toks_def req_toks_ack [OF True n])
  then have "awaited fmt (sd_dispatch (se_stream s)) (se_handlers s) (n, dr_VersionInfo req)" using inv by (simp add: wired_inv_def tok_inv_def)
  then obtain i where i: "sd_dispatch (se_stream s) n = Some i" by (auto simp: awaited_def)
  have ok: "stream_ok (se_stream s)" using inv by (simp add: wired_inv_def srv_ok_def)
  have r: "acks = [n]" "err = None" "st = se_stream s"
    using recv_ack [OF perm True n ok i, of lw] recv(2) by simp_all
  have "first_ok certs (s\<lparr>se_receiver := RHand req [n] None (se_stream s)\<rparr>) up c"
    using inv True i ok
    by (auto simp: wired_inv_def first_ok_def stream_ok_no_handlers)
  moreover have "srv_ok (s\<lparr>se_receiver := RHand req [n] None (se_stream s)\<rparr>)"
    using inv True by (simp add: wired_inv_def srv_ok_def is_ack_def)
  ultimately show ?thesis
    using inv T r by (simp add: wired_inv_def)
next
  case False
  then have req: "req = packReq certs" "sd_handlers (se_stream s) = []" "packReq certs \<notin> set up"
    using inv by (auto simp: wired_inv_def first_ok_def count_list_0_iff)
  have "acks = [] \<and> stream_ok st \<and> (err \<noteq> None \<longrightarrow> sd_handlers st = [])"
    using recv_first [OF perm _ req(2) recv(2)] inv by (simp add: wired_inv_def srv_ok_def)
  then show ?thesis
    using inv recv(1) req
    by (simp add: wired_inv_def wired_toks_def srv_toks_def)
      (auto simp: srv_ok_def first_ok_def)
qed

text \<open>A step that touches neither the stream nor the handlers and only forgets messages.\<close>

lemma wired_inv_flags:
  assumes "wired_inv fmt certs c (s, up, down)" "se_stream s' = se_stream s" "se_handlers s' = se_handlers s"
    and "wired_toks c (s, up, down) = K + wired_toks c (s', up, down')"
    and "se_crashed s' = se_crashed s" "\<not> handing (se_receiver s') \<or> se_receiver s' = se_receiver s"
  shows "wired_inv fmt certs c (s', up, down')"
proof -
  have "tok_inv fmt (sd_dispatch (se_stream s')) (se_handlers s') (wired_toks c (s', up, down'))"
    using assms(1-4) tok_inv_less [of fmt _ _ K] by (simp add: wired_inv_def)
  moreover have "srv_ok s'" "first_ok certs s' up c"
    using assms(1,2,3,5,6) by (auto simp: wired_inv_def srv_ok_def first_ok_def)
  ultimately show ?thesis using assms(1) by (simp add: wired_inv_def)
qed

text \<open>A step of one handler that is not about an acknowledgement.\<close>

lemma wired_inv_handler:
  assumes "wired_inv fmt certs c (s, up, down)" "se_stream s' = se_stream s" "se_receiver s' = se_receiver s"
    and "se_handlers s' = (se_handlers s)[i := pc]" "se_sender s' = se_sender s" "se_crashed s' = se_crashed s"
    and "pc = HEnd \<or> se_handlers s ! i \<noteq> HEnd \<and> (\<forall>x. se_handlers s ! i \<noteq> HAck x)"
  shows "wired_inv fmt certs c (s', up, down)"
proof -
  have "wired_toks c (s', up, down) = wired_toks c (s, up, down)"
    using assms(3,5) by (simp add: wired_toks_def srv_toks_def)
  then have "tok_inv fmt (sd_dispatch (se_stream s')) (se_handlers s') (wired_toks c (s', up, down))"
    using assms(1,2,4) tok_inv_handler [OF _ assms(7)] by (simp add: wired_inv_def)
  moreover have "srv_ok s'" "first_ok certs s' up c"
    using assms(1-6) by (auto simp: wired_inv_def srv_ok_def first_ok_def)
  ultimately show ?thesis using assms(1) by (simp add: wired_inv_def)
qed

text \<open>Without handlers there are no messages.\<close>

lemma tok_inv_Nil: "tok_inv fmt dispatch [] T \<longleftrightarrow> T = {#}"
  by (auto simp: tok_inv_def awaited_def) (metis multiset_nonemptyE surj_pair)

lemma tok_inv_empty [simp]: "tok_inv fmt dispatch hs {#}"
  by (simp add: tok_inv_def)

lemma srv_step_inv:
  assumes "srv_go fmt lw w w'" "wired_inv fmt certs c w"
  shows "wired_inv fmt certs c w'"
  using assms
proof (induction rule: srv_go.induct)
  case (send_take s i x up down)
  have "tok_inv fmt (sd_dispatch (se_stream s)) ((se_handlers s)[i := HAck x])
      (add_mset (handler_name s i, fmt (c_RenewAt x)) (wired_toks c (s, up, down)))"
    using send_take
    by (intro tok_inv_offer stream_ok_inj) (auto simp: wired_inv_def srv_ok_def stream_ok_def)
  then show ?case
    using send_take by (auto simp: wired_inv_def wired_toks_def srv_toks_def srv_ok_def first_ok_def)
next
  case (recv_gets s iter req acks err st up down)
  then show ?case by (blast intro: recv_gets_inv)
next
  case (recv_acks s req n acks err st i x up down)
  have "tok_inv fmt (sd_dispatch (se_stream s)) ((se_handlers s)[i := HWait])
      (wired_toks c (s\<lparr>se_receiver := RHand req acks err st\<rparr>, up, down))"
    by (rule tok_inv_ack [where n = n and v = "dr_VersionInfo req"])
      (use recv_acks in \<open>auto simp: wired_inv_def wired_toks_def srv_toks_def srv_ok_def intro: stream_ok_inj\<close>)
  then show ?case
    using recv_acks by (auto simp: wired_inv_def wired_toks_def srv_toks_def srv_ok_def first_ok_def)
next
  case (recv_crashes s req n acks err st i x up down)
  have "awaited fmt (sd_dispatch (se_stream s)) (se_handlers s) (n, dr_VersionInfo req)"
    using recv_crashes by (simp add: wired_inv_def wired_toks_def srv_toks_def tok_inv_def)
  then show ?case using recv_crashes by (simp add: awaited_def)
next
  case (recv_starts s req st up down)
  then show ?case
    by (auto simp: wired_inv_def wired_toks_def srv_toks_def srv_ok_def first_ok_def tok_inv_Nil)
next
  case (recv_rejects s req e st up down)
  then show ?case
    by (auto simp: wired_inv_def wired_toks_def srv_toks_def srv_ok_def first_ok_def tok_inv_Nil)
next
  case (send_fails s r up down)
  then show ?case
    by (intro wired_inv_flags [OF send_fails.prems, where K = "{#(ds_Name r, ds_VersionInfo r)#}"])
      (simp_all add: wired_toks_def srv_toks_def)
next
  case (recv_hand_ctx s req n acks err st up down)
  then show ?case
    by (intro wired_inv_flags [OF recv_hand_ctx.prems, where K = "receiver_toks (se_receiver s)"])
      (simp_all add: wired_toks_def srv_toks_def)
next
  case (handler_ctx s i pc up down)
  then show ?case
    by (intro wired_inv_handler [OF handler_ctx.prems, where i = i and pc = HEnd]) auto
next
  case (handler_offers s i up down x)
  then show ?case
    by (intro wired_inv_handler [OF handler_offers.prems, where i = i and pc = "HOffer x"]) auto
next
  case (handler_fails s i up down)
  then show ?case
    by (intro wired_inv_handler [OF handler_fails.prems, where i = i and pc = HReport]) auto
next
  case (handler_reports s i up down)
  then show ?case
    by (intro wired_inv_handler [OF handler_reports.prems, where i = i and pc = HEnd]) auto
next
  case (handler_wakes s i up down)
  then show ?case
    by (intro wired_inv_handler [OF handler_wakes.prems, where i = i and pc = HSnap]) auto
qed (erule wired_inv_flags [where K = "{#}"]; simp add: wired_toks_def srv_toks_def)+

section \<open>Steps of the client\<close>

lemma sum_list_map_upd:
  fixes f :: "'a \<Rightarrow> 'b::comm_monoid_add"
  shows "i < length hs \<Longrightarrow> sum_list (map f (hs[i := h])) + f (hs ! i) = sum_list (map f hs) + f h"
proof (induction hs arbitrary: i)
  case (Cons a hs)
  then show ?case by (cases i) (auto simp: ac_simps)
qed simp

lemma wired_inv_client:
  assumes "wired_inv fmt certs c (s, up, down)"
    and "wired_toks c (s, up, down) = K + wired_toks c' (s, up', down')"
    and "cli_ok certs c'" "first_ok certs s up' c'"
  shows "wired_inv fmt certs c' (s, up', down')"
  using assms tok_inv_less [of fmt _ _ K] by (simp add: wired_inv_def)

lemma client_dispatch_Some: "client_dispatch certs n = Some i \<Longrightarrow> i < length certs \<and> cert_name (certs ! i) = n"
  unfolding client_dispatch_def by (drule map_of_SomeD) (auto simp: in_set_zip)

lemma recv_response_toks:
  assumes "recv_response names resp cl = (cl', Inr (n, d))"
  shows "\<exists>K. resp_toks resp = K + {#(n, rd_Version d)#}" "sec_Name (rd_Secret d) = n"
  using assms
  by (auto simp: recv_response_def resp_toks_def List.map_filter_def Let_def split: list.splits option.splits if_splits)

lemma client_handleCert_ack:
  assumes "client_handleCert cert d = Inr (upd, ack)"
  shows "is_ack ack" "req_toks ack = {#(cert_name cert, rd_Version d)#}"
  using assms by (auto simp: client_handleCert_def is_ack_def req_toks_def split: secret_type.splits)

lemma list_all_update: "list_all P xs \<Longrightarrow> P x \<Longrightarrow> list_all P (xs[i := x])"
  by (induction xs arbitrary: i) (auto split: nat.splits)

lemma list_all_at: "list_all P xs \<Longrightarrow> i < length xs \<Longrightarrow> xs ! i = x \<Longrightarrow> P x"
  by (auto simp: list_all_length)

lemma toks_balance:
  fixes S S' p h r r' q q' K :: "'a multiset"
  assumes "S + p = S' + h" "r + h + q = K + r' + p + q'"
  shows "r + S + q = K + (r' + S' + q')"
proof (rule multiset_eqI)
  fix x
  have "count (S + p) x = count (S' + h) x" "count (r + h + q) x = count (K + r' + p + q') x"
    using assms by simp_all
  then show "count (r + S + q) x = count (K + (r' + S' + q')) x" by simp
qed

text \<open>A step of one handler of the client.\<close>

lemma wired_inv_chandler:
  assumes inv: "wired_inv fmt certs c (s, up, down)"
    and "i < length (ce_handlers c)" "ce_handlers c' = (ce_handlers c)[i := pc]" "chandler_ok pc"
    and "creceiver_toks (ce_receiver c) + chandler_toks (ce_handlers c ! i) + csender_toks (ce_sender c)
      = K + creceiver_toks (ce_receiver c') + chandler_toks pc + csender_toks (ce_sender c')"
    and "ce_receiver c' = ce_receiver c \<or> ce_receiver c' = CTop"
    and "ce_sender c' = ce_sender c \<or> ce_sender c = CSIdle \<and> (\<exists>a. ce_sender c' = CSSend a \<and> is_ack a)"
  shows "wired_inv fmt certs c' (s, up, down)"
proof (rule wired_inv_client [OF inv, where K = K])
  let ?S = "sum_list (map chandler_toks (ce_handlers c))"
  have "?S + chandler_toks pc = sum_list (map chandler_toks (ce_handlers c')) + chandler_toks (ce_handlers c ! i)"
    using sum_list_map_upd [OF assms(2), of chandler_toks pc] assms(3) by simp
  from toks_balance [OF this assms(5)] have "cli_toks c = K + cli_toks c'" by (simp add: cli_toks_def)
  then show "wired_toks c (s, up, down) = K + wired_toks c' (s, up, down)"
    by (simp add: wired_toks_def)
  show "cli_ok certs c'"
    using inv assms(3,4,6,7) by (elim disjE conjE exE) (simp_all add: wired_inv_def cli_ok_def list_all_update)
  show "first_ok certs s up c'"
    using inv assms(7) by (auto simp: wired_inv_def first_ok_def)
qed

lemma cli_step_inv:
  assumes "cli_step metaOk certs w w'" "wired_inv fmt certs (fst w) (s, snd w)"
  shows "wired_inv fmt certs (fst w') (s, snd w')"
  using assms
proof (induction rule: cli_step.induct)
  case (crecv_gets c resp cl n d i up down)
  from recv_response_toks [OF crecv_gets.hyps(2)] obtain K where
    "resp_toks resp = K + {#(n, rd_Version d)#}" "sec_Name (rd_Secret d) = n" by blast
  then show ?case
    unfolding fst_conv snd_conv
    using crecv_gets client_dispatch_Some [OF crecv_gets.hyps(3)]
    by (intro wired_inv_client [OF crecv_gets.prems [unfolded fst_conv snd_conv], where K = K])
      (auto simp: wired_toks_def cli_toks_def wired_inv_def cli_ok_def first_ok_def)
next
  case (crecv_bad c resp cl e up down)
  then show ?case
    unfolding fst_conv snd_conv
    by (intro wired_inv_client [OF crecv_bad.prems [unfolded fst_conv snd_conv], where K = "resp_toks resp"])
      (auto simp: wired_toks_def cli_toks_def wired_inv_def cli_ok_def first_ok_def)
next
  case (crecv_hands c i d upd ack up down)
  note a = client_handleCert_ack [OF crecv_hands.hyps(3)]
  show ?case
    unfolding fst_conv snd_conv
    using crecv_hands a
    by (intro wired_inv_chandler [OF crecv_hands.prems [unfolded fst_conv snd_conv], where i = i and pc = "CUpdate upd ack" and K = "{#}"])
      (auto simp: wired_inv_def cli_ok_def)
next
  case (crecv_hands_bad c i d e up down)
  then show ?case
    unfolding fst_conv snd_conv
    by (intro wired_inv_chandler [OF crecv_hands_bad.prems [unfolded fst_conv snd_conv], where i = i and pc = "CHReport (CStreamErr e)"
          and K = "creceiver_toks (ce_receiver c)"]) auto
next
  case (crecv_hand_ctx c i d up down)
  then show ?case
    unfolding fst_conv snd_conv
    by (intro wired_inv_client [OF crecv_hand_ctx.prems [unfolded fst_conv snd_conv], where K = "creceiver_toks (ce_receiver c)"])
      (auto simp: wired_toks_def cli_toks_def wired_inv_def cli_ok_def first_ok_def)
next
  case (chandler_updates c i upd ack up down)
  then have "is_ack ack"
    using list_all_at [of chandler_ok "ce_handlers c" i] by (auto simp: wired_inv_def cli_ok_def)
  then show ?case
    unfolding fst_conv snd_conv
    using chandler_updates
    by (intro wired_inv_chandler [OF chandler_updates.prems [unfolded fst_conv snd_conv], where i = i and pc = "CAck ack" and K = "{#}"]) auto
next
  case (chandler_acks c i ack up down)
  then have "is_ack ack"
    using list_all_at [of chandler_ok "ce_handlers c" i] by (auto simp: wired_inv_def cli_ok_def)
  then show ?case
    unfolding fst_conv snd_conv
    using chandler_acks
    by (intro wired_inv_chandler [OF chandler_acks.prems [unfolded fst_conv snd_conv], where i = i and pc = CIdle and K = "{#}"]) auto
next
  case (chandler_reports c i e up down)
  then show ?case
    unfolding fst_conv snd_conv
    by (intro wired_inv_chandler [OF chandler_reports.prems [unfolded fst_conv snd_conv], where i = i and pc = CHEnd and K = "{#}"]) auto
next
  case (chandler_ctx c i pc up down)
  then show ?case
    unfolding fst_conv snd_conv
    by (intro wired_inv_chandler [OF chandler_ctx.prems [unfolded fst_conv snd_conv], where i = i and pc = CHEnd
          and K = "chandler_toks (ce_handlers c ! i)"]) auto
next
  case (csend_fails c a up down)
  then show ?case
    unfolding fst_conv snd_conv
    by (intro wired_inv_client [OF csend_fails.prems [unfolded fst_conv snd_conv], where K = "req_toks a"])
      (auto simp: wired_toks_def cli_toks_def wired_inv_def cli_ok_def first_ok_def)
qed (unfold fst_conv snd_conv, rule wired_inv_client [where K = "{#}"], assumption;
    auto simp: wired_toks_def cli_toks_def wired_inv_def cli_ok_def first_ok_def)+

section \<open>What the client is given was offered to it\<close>

definition offered_resp :: "(time \<Rightarrow> string) \<Rightarrow> (string \<times> CertT) list \<Rightarrow> DiscoveryResponse \<Rightarrow> bool" where
  "offered_resp fmt offers r \<longleftrightarrow> (\<exists>n x. (n, x) \<in> set offers \<and> r = secret_response fmt n x)"

definition offered_to :: "(string \<times> CertT) list \<Rightarrow> string \<Rightarrow> bytes \<times> bytes \<Rightarrow> bool" where
  "offered_to offers n m \<longleftrightarrow> (\<exists>x. (n, x) \<in> set offers \<and> m = (c_FullChain x, c_Key x))"

fun chandler_given :: "(string \<times> CertT) list \<Rightarrow> string \<Rightarrow> chandler_pc \<Rightarrow> bool" where
  "chandler_given offers n (CUpdate upd ack) = offered_to offers n (material upd)"
| "chandler_given offers n _ = True"

fun creceiver_given :: "'h watchingCert list \<Rightarrow> (string \<times> CertT) list \<Rightarrow> creceiver_pc \<Rightarrow> bool" where
  "creceiver_given certs offers (CHand i d) =
     (\<exists>chain key. sec_Type (rd_Secret d) = TlsCertificate chain key \<and> offered_to offers (cert_name (certs ! i)) (chain, key))"
| "creceiver_given certs offers _ = True"

fun sender_given :: "(time \<Rightarrow> string) \<Rightarrow> (string \<times> CertT) list \<Rightarrow> sender_pc \<Rightarrow> bool" where
  "sender_given fmt offers (SSend r) = offered_resp fmt offers r"
| "sender_given fmt offers _ = True"

definition srv_given :: "(time \<Rightarrow> string) \<Rightarrow> 'w srv_end \<Rightarrow> sds_response list \<Rightarrow> bool" where
  "srv_given fmt s down \<longleftrightarrow> sender_given fmt (se_offers s) (se_sender s) \<and>
     (\<forall>r \<in> set down. \<exists>r'. r = wire r' \<and> offered_resp fmt (se_offers s) r')"

definition cli_given :: "'h watchingCert list \<Rightarrow> (string \<times> CertT) list \<Rightarrow> cli_end \<Rightarrow> bool" where
  "cli_given certs offers c \<longleftrightarrow> creceiver_given certs offers (ce_receiver c) \<and>
     (\<forall>i < length (ce_handlers c). chandler_given offers (cert_name (certs ! i)) (ce_handlers c ! i)) \<and>
     (\<forall>(i, upd) \<in> set (ce_delivered c). offered_to offers (cert_name (certs ! i)) (material upd))"

lemma given_more:
  "offered_resp fmt offers r \<Longrightarrow> offered_resp fmt (offers @ os) r"
  "offered_to offers n m \<Longrightarrow> offered_to (offers @ os) n m"
  by (auto simp: offered_resp_def offered_to_def)

lemma offered_new [simp]: "offered_resp fmt (offers @ [(n, x)]) (secret_response fmt n x)"
  by (auto simp: offered_resp_def)

lemma pc_given_more:
  "chandler_given offers n pc \<Longrightarrow> chandler_given (offers @ os) n pc"
  "creceiver_given certs offers r \<Longrightarrow> creceiver_given certs (offers @ os) r"
  by (cases pc; auto intro: given_more) (cases r; auto intro: given_more)

lemma cli_given_more: "cli_given certs offers c \<Longrightarrow> cli_given certs (offers @ os) c"
  by (auto simp: cli_given_def intro: pc_given_more given_more)

lemma srv_go_offers: "srv_go fmt lw w w' \<Longrightarrow> \<exists>os. se_offers (fst w') = se_offers (fst w) @ os"
  by (induction rule: srv_go.induct) auto

lemma srv_go_given:
  "srv_go fmt lw w w' \<Longrightarrow> srv_given fmt (fst w) (snd (snd w)) \<Longrightarrow> srv_given fmt (fst w') (snd (snd w'))"
proof (induction rule: srv_go.induct)
  case (send_take s i x up down)
  then show ?case using given_more(1) by (simp add: srv_given_def) blast
qed (auto simp: srv_given_def)

lemma recv_response_given:
  assumes "recv_response names (wire r) cl = (cl', Inr (n, d))" "offered_resp fmt offers r"
  shows "\<exists>chain key. sec_Type (rd_Secret d) = TlsCertificate chain key \<and> offered_to offers n (chain, key)"
  using assms
  by (auto simp: recv_response_def wire_def offered_resp_def offered_to_def secret_response_def Let_def split: if_splits)

lemma cli_step_given:
  assumes "cli_step metaOk certs w w'" "cli_given certs offers (fst w)"
    and "\<forall>r \<in> set (snd (snd w)). \<exists>r'. r = wire r' \<and> offered_resp fmt offers r'"
  shows "cli_given certs offers (fst w') \<and> set (snd (snd w')) \<subseteq> set (snd (snd w))"
  using assms
proof (induction rule: cli_step.induct)
  case (crecv_gets c resp cl n d i up down)
  then obtain r where "resp = wire r" "offered_resp fmt offers r" by auto
  then show ?case
    using crecv_gets client_dispatch_Some [OF crecv_gets.hyps(3)] recv_response_given by (auto simp: cli_given_def)
next
  case (crecv_hands c i d upd ack up down)
  then show ?case
    by (auto simp: cli_given_def nth_list_update client_handleCert_def material_def split: secret_type.splits)
next
  case (chandler_updates c i upd ack up down)
  then have "offered_to offers (cert_name (certs ! i)) (material upd)"
    unfolding cli_given_def fst_conv by (metis chandler_given.simps(1))
  then show ?case
    using chandler_updates by (auto simp: cli_given_def nth_list_update)
qed (auto simp: cli_given_def nth_list_update)

section \<open>Properties\<close>

definition duplex_all :: "(time \<Rightarrow> string) \<Rightarrow> 'h watchingCert list \<Rightarrow> 'w duplex \<Rightarrow> bool" where
  "duplex_all fmt certs d \<longleftrightarrow> duplex_inv fmt certs d \<and> srv_given fmt (du_srv d) (du_down d) \<and>
     cli_given certs (se_offers (du_srv d)) (du_cli d)"

lemma sum_list_empty [simp]: "sum_list (replicate n {#}) = {#}"
  by (induction n) auto

lemma duplex_all_init: "duplex_init certs d \<Longrightarrow> duplex_all fmt certs d"
  by (auto simp: duplex_all_def duplex_init_def Stream_start_def StreamSecrets_start_def Let_def
      duplex_inv_def tok_inv_def toks_def srv_toks_def cli_toks_def srv_ok_def stream_ok_def new_stream_def
      cli_ok_def first_ok_def srv_given_def cli_given_def list_all_length map_replicate_const)

lemma duplex_all_step:
  assumes "duplex_all fmt certs d" "duplex_step fmt lw metaOk certs d d'"
  shows "duplex_all fmt certs d'"
  using assms(2,1)
proof (induction rule: duplex_step.induct)
  case (du_server d s up down)
  then have go: "srv_go fmt lw (du_srv d, du_up d, du_down d) (s, up, down)" by (simp add: srv_step_def)
  have "wired_inv fmt certs (du_cli d) (s, up, down)"
    by (rule srv_step_inv [OF go]) (use du_server in \<open>auto simp: duplex_all_def duplex_inv_wired\<close>)
  moreover have "cli_given certs (se_offers s) (du_cli d)"
    using srv_go_offers [OF go] cli_given_more du_server.prems by (auto simp: duplex_all_def)
  ultimately show ?case
    using srv_go_given [OF go] du_server.prems by (simp add: duplex_all_def duplex_inv_wired)
next
  case (du_client d c up down)
  have "wired_inv fmt certs c (du_srv d, up, down)"
    using cli_step_inv [OF du_client.hyps, of fmt "du_srv d"] du_client.prems by (simp add: duplex_all_def duplex_inv_wired)
  moreover have "cli_given certs (se_offers (du_srv d)) c \<and> set down \<subseteq> set (du_down d)"
    using cli_step_given [OF du_client.hyps, of "se_offers (du_srv d)" fmt] du_client.prems
    by (simp add: duplex_all_def srv_given_def)
  ultimately show ?case
    using du_client.prems by (auto simp: duplex_all_def duplex_inv_wired srv_given_def)
qed (auto simp: duplex_all_def duplex_inv_def toks_def srv_toks_def cli_toks_def srv_ok_def cli_ok_def first_ok_def
    srv_given_def cli_given_def)

interpretation duplex: step_invariant "duplex_init certs" "duplex_step fmt lw metaOk certs" "duplex_all fmt certs"
  by unfold_locales (auto intro: duplex_all_init duplex_all_step)

text \<open>
  C5: A stream between a certdx server and a certdx client. Whatever the schedule and however the
  stream ends, the server never crashes on an acknowledgement, an acknowledgement never has to wait
  for its handler - the handler is waiting for just this version, or has ended with the stream -, there
  is never more than one message under way for a pack, and everything that the client hands to a
  watcher is the chain and the key of a certificate that the server offered under the name of that
  watcher's certificate.
\<close>

theorem sds_stream_safe:
  assumes "duplex_init certs d" "(duplex_step fmt lw metaOk certs)\<^sup>*\<^sup>* d d'"
  shows "\<not> se_crashed (du_srv d') \<and>
    (\<forall>req n acks err st. se_receiver (du_srv d') = RHand req (n # acks) err st \<longrightarrow>
       (\<exists>i. sd_dispatch (se_stream (du_srv d')) n = Some i \<and>
         (handler_at (du_srv d') i HEnd \<or>
          (\<exists>x. handler_at (du_srv d') i (HAck x) \<and> dr_VersionInfo req = fmt (c_RenewAt x))))) \<and>
    (\<forall>n. count (image_mset fst (toks d')) n \<le> 1) \<and>
    (\<forall>(i, upd) \<in> set (ce_delivered (du_cli d')). \<exists>x. (cert_name (certs ! i), x) \<in> set (se_offers (du_srv d')) \<and>
       material upd = (c_FullChain x, c_Key x))"
proof -
  have inv: "duplex_all fmt certs d'" using duplex.inv_reachable [OF assms] .
  have "awaited fmt (sd_dispatch (se_stream (du_srv d'))) (se_handlers (du_srv d')) (n, dr_VersionInfo req)"
    if "se_receiver (du_srv d') = RHand req (n # acks) err st" for req n acks err st
    using inv that by (simp add: duplex_all_def duplex_inv_def tok_inv_def toks_def srv_toks_def)
  then show ?thesis
    using inv by (fastforce simp: duplex_all_def duplex_inv_def srv_ok_def tok_inv_def cli_given_def offered_to_def awaited_def)
qed

text \<open>A run in which a certificate reaches its watcher.\<close>

definition ex_watch :: "unit watchingCert" where
  "ex_watch = \<lparr>wc_Data = \<lparr>cd_Domains = [], cd_Fullchain = [], cd_Key = []\<rparr>,
     wc_Config = example_certification, wc_UpdateHandlers = [()]\<rparr>"

definition ex_sds_server :: "nat CertDXServer" where
  "ex_sds_server = example_server\<lparr>sv_Config := (sv_Config example_server)
     \<lparr>sc_ACME := (sc_ACME (sv_Config example_server))\<lparr>ac_AllowedDomains := [''b'']\<rparr>\<rparr>\<rparr>"

definition ex_client :: cli_end where
  "ex_client = \<lparr>ce_client = \<lparr>gc_Received = 0, gc_Running = True, gc_cancel = Some 0\<rparr>, ce_broken = False,
     ce_done = False, ce_errs = [], ce_main = None, ce_receiver = CTop, ce_sender = CFirst,
     ce_handlers = [CIdle], ce_delivered = []\<rparr>"

definition ex_duplex :: "nat duplex" where
  "ex_duplex = \<lparr>du_srv = StreamSecrets_start ex_sds_server, du_up = [], du_down = [], du_cli = ex_client\<rparr>"

lemma ex_duplex_init: "duplex_init [ex_watch] ex_duplex"
  unfolding duplex_init_def
  by (rule exI [of _ ex_sds_server], rule exI [of _ 0], rule exI [of _ "\<lparr>gc_Received = 0, gc_Running = False, gc_cancel = None\<rparr>"])
    (simp add: ex_duplex_def Stream_start_def ex_client_def Let_def)

lemma ex_recv:
  "\<exists>st k. recv_request id id (packReq [ex_watch]) (new_stream ex_sds_server) = ([], None, st) \<and>
     sd_handlers st = [(''n'', [''a.b''], k)]"
proof -
  have "IsSubdomain id ''a.b'' [''b'']" by code_simp
  then show ?thesis
    using recv_packReq [of "[ex_watch]" id ex_sds_server]
    by (auto simp: ex_watch_def ex_sds_server_def example_certification_def)
qed

lemma run_srv:
  assumes "(duplex_step fmt lw metaOk certs)\<^sup>*\<^sup>* d \<lparr>du_srv = s, du_up = up, du_down = down, du_cli = c\<rparr>"
    and "srv_go fmt lw (s, up, down) (s', up', down')" "\<not> se_crashed s"
  shows "(duplex_step fmt lw metaOk certs)\<^sup>*\<^sup>* d \<lparr>du_srv = s', du_up = up', du_down = down', du_cli = c\<rparr>"
  using rtranclp.rtrancl_into_rtrancl [OF assms(1)] assms(2,3)
    du_server [of fmt lw "\<lparr>du_srv = s, du_up = up, du_down = down, du_cli = c\<rparr>" s' up' down' metaOk certs]
  by (simp add: srv_step_def)

lemma run_cli:
  assumes "(duplex_step fmt lw metaOk certs)\<^sup>*\<^sup>* d \<lparr>du_srv = s, du_up = up, du_down = down, du_cli = c\<rparr>"
    and "cli_step metaOk certs (c, up, down) (c', up', down')"
  shows "(duplex_step fmt lw metaOk certs)\<^sup>*\<^sup>* d \<lparr>du_srv = s, du_up = up', du_down = down', du_cli = c'\<rparr>"
  using rtranclp.rtrancl_into_rtrancl [OF assms(1)] assms(2)
    du_client [of metaOk certs "\<lparr>du_srv = s, du_up = up, du_down = down, du_cli = c\<rparr>" c' up' down' fmt lw]
  by simp

lemma ex_run:
  "\<exists>d'. (duplex_step (\<lambda>t. []) id True [ex_watch])\<^sup>*\<^sup>* ex_duplex d' \<and> ce_delivered (du_cli d') \<noteq> []"
proof -
  let ?f = "\<lambda>t :: time. [] :: char list" and ?w = "[ex_watch]" and ?q = "packReq [ex_watch]" and ?s = "StreamSecrets_start ex_sds_server"
  let ?R = "duplex_step ?f id True ?w"
  obtain st k where st: "recv_request id id ?q (new_stream ex_sds_server) = ([], None, st)"
    "sd_handlers st = [(''n'', [''a.b''], k)]" using ex_recv by blast
  let ?r = "secret_response ?f ''n'' zero_CertT"
  let ?s3 = "?s\<lparr>se_receiver := RTop, se_stream := st, se_handlers := [HOffer zero_CertT]\<rparr>"
  let ?s4 = "?s3\<lparr>se_handlers := [HAck zero_CertT], se_offers := [(''n'', zero_CertT)]\<rparr>"
  let ?d = "\<lparr>rd_Version = [], rd_Secret = \<lparr>sec_Name = ''n'', sec_Type = TlsCertificate [] []\<rparr>\<rparr>"
  let ?c1 = "ex_client\<lparr>ce_sender := CSIdle\<rparr>"
  let ?c2 = "?c1\<lparr>ce_client := (ce_client ex_client)\<lparr>gc_Received := 1\<rparr>\<rparr>"
  let ?u = "\<lparr>cd_Domains = [''a.b''], cd_Fullchain = [], cd_Key = []\<rparr>"
  let ?a = "\<lparr>dr_TypeUrl = typeUrl, dr_VersionInfo = [], dr_Node = None, dr_ResourceNames = [''n''], dr_ErrorDetail = None\<rparr>"
  note S = StreamSecrets_start_def ex_client_def st
  have "?R\<^sup>*\<^sup>* ex_duplex \<lparr>du_srv = ?s, du_up = [], du_down = [], du_cli = ex_client\<rparr>"
    by (simp add: ex_duplex_def)
  then have "?R\<^sup>*\<^sup>* ex_duplex \<lparr>du_srv = ?s, du_up = [?q], du_down = [], du_cli = ?c1\<rparr>"
    by (rule run_cli) (use csend_first [of ex_client True ?w "[]" "[]"] in \<open>simp add: S\<close>)
  then have "?R\<^sup>*\<^sup>* ex_duplex \<lparr>du_srv = ?s\<lparr>se_receiver := RRecv\<rparr>, du_up = [?q], du_down = [], du_cli = ?c1\<rparr>"
    by (rule run_srv) (use recv_calls [of ?s ?f id "[?q]" "[]"] in \<open>simp_all add: S\<close>)
  then have "?R\<^sup>*\<^sup>* ex_duplex \<lparr>du_srv = ?s\<lparr>se_receiver := RHand ?q [] None st\<rparr>, du_up = [], du_down = [], du_cli = ?c1\<rparr>"
    by (rule run_srv) (use recv_gets [of "?s\<lparr>se_receiver := RRecv\<rparr>" id id ?q "[]" None st ?f "[]" "[]"] in \<open>simp_all add: S\<close>)
  then have "?R\<^sup>*\<^sup>* ex_duplex \<lparr>du_srv = ?s3\<lparr>se_handlers := [HFirst]\<rparr>, du_up = [], du_down = [], du_cli = ?c1\<rparr>"
    by (rule run_srv) (use recv_starts [of "?s\<lparr>se_receiver := RHand ?q [] None st\<rparr>" ?q st ?f id "[]" "[]"] in \<open>simp_all add: S\<close>)
  then have "?R\<^sup>*\<^sup>* ex_duplex \<lparr>du_srv = ?s3, du_up = [], du_down = [], du_cli = ?c1\<rparr>"
    by (rule run_srv) (use handler_offers [where s = "?s3\<lparr>se_handlers := [HFirst]\<rparr>" and i = 0 and fmt = ?f and lw = id and up = "[]" and down = "[]" and x = zero_CertT] in \<open>simp_all add: S\<close>)
  then have "?R\<^sup>*\<^sup>* ex_duplex \<lparr>du_srv = ?s4\<lparr>se_sender := SSend ?r\<rparr>, du_up = [], du_down = [], du_cli = ?c1\<rparr>"
    by (rule run_srv) (use send_take [where s = ?s3 and i = 0 and x = zero_CertT and fmt = ?f and lw = id and up = "[]" and down = "[]"] in \<open>simp_all add: S\<close>)
  then have "?R\<^sup>*\<^sup>* ex_duplex \<lparr>du_srv = ?s4, du_up = [], du_down = [wire ?r], du_cli = ?c1\<rparr>"
    by (rule run_srv) (use send_ok [of "?s4\<lparr>se_sender := SSend ?r\<rparr>" ?r ?f id "[]" "[]"] in \<open>simp_all add: S\<close>)
  then have "?R\<^sup>*\<^sup>* ex_duplex \<lparr>du_srv = ?s4, du_up = [], du_down = [wire ?r], du_cli = ?c1\<lparr>ce_receiver := CRecv\<rparr>\<rparr>"
    by (rule run_cli) (use crecv_calls [of ?c1 True ?w "[]" "[wire ?r]"] in \<open>simp_all add: S\<close>)
  then have "?R\<^sup>*\<^sup>* ex_duplex \<lparr>du_srv = ?s4, du_up = [], du_down = [], du_cli = ?c2\<lparr>ce_receiver := CHand 0 ?d\<rparr>\<rparr>"
    by (rule run_cli) (use crecv_gets [of "?c1\<lparr>ce_receiver := CRecv\<rparr>" ?w "wire ?r" "ce_client ?c2" "''n''" ?d 0 True "[]" "[]"]
      in \<open>simp add: S client_dispatch_def ex_watch_def example_certification_def recv_response_def wire_def
        secret_response_def zero_CertT_def Let_def\<close>)
  then have "?R\<^sup>*\<^sup>* ex_duplex \<lparr>du_srv = ?s4, du_up = [], du_down = [], du_cli = ?c2\<lparr>ce_handlers := [CUpdate ?u ?a]\<rparr>\<rparr>"
    by (rule run_cli) (use crecv_hands [of "?c2\<lparr>ce_receiver := CHand 0 ?d\<rparr>" 0 ?d ?w ?u ?a True "[]" "[]"]
      in \<open>simp add: S client_handleCert_def ex_watch_def example_certification_def\<close>)
  then have "?R\<^sup>*\<^sup>* ex_duplex \<lparr>du_srv = ?s4, du_up = [], du_down = [],
      du_cli = ?c2\<lparr>ce_handlers := [CAck ?a], ce_delivered := [(0, ?u)]\<rparr>\<rparr>"
    by (rule run_cli) (use chandler_updates [where c = "?c2\<lparr>ce_handlers := [CUpdate ?u ?a]\<rparr>" and i = 0 and upd = ?u and ack = ?a and metaOk = True and certs = ?w and up = "[]" and down = "[]"] in \<open>simp add: S\<close>)
  moreover have "ce_delivered (du_cli \<lparr>du_srv = ?s4, du_up = [], du_down = [],
      du_cli = ?c2\<lparr>ce_handlers := [CAck ?a], ce_delivered := [(0, ?u)]\<rparr>\<rparr>) \<noteq> []" by simp
  ultimately show ?thesis by (intro exI conjI)
qed

theorem sds_stream_safe_witness:
  "\<exists>d'. (duplex_step (\<lambda>t. []) id True [ex_watch])\<^sup>*\<^sup>* ex_duplex d' \<and> \<not> se_crashed (du_srv d') \<and>
     (\<exists>i upd x. (i, upd) \<in> set (ce_delivered (du_cli d')) \<and> (cert_name ([ex_watch] ! i), x) \<in> set (se_offers (du_srv d')) \<and>
        material upd = (c_FullChain x, c_Key x))"
proof -
  obtain d' where d': "(duplex_step (\<lambda>t. []) id True [ex_watch])\<^sup>*\<^sup>* ex_duplex d'" "ce_delivered (du_cli d') \<noteq> []"
    using ex_run by blast
  then obtain i upd where "(i, upd) \<in> set (ce_delivered (du_cli d'))" by (metis last_in_set surj_pair)
  then show ?thesis
    using sds_stream_safe [OF ex_duplex_init d'(1)] d'(1) by blast
qed

end
