(* ===== verification/Sds_Order.thy ===== *)
theory Sds_Order
  imports Sds_Duplex
begin

text \<open>
  The order in which the certificates of a pack reach their watcher, on the stream of
  \<open>Sds_Duplex\<close>. A message under way is either a certificate that the watcher has not got yet or an
  acknowledgement of one that it has. So what the watchers of a name were given is what the server
  offered under this name, in this order, up to one certificate that is still under way or was lost
  with the stream.
\<close>

section \<open>Messages with their material\<close>

text \<open>A certificate on its way down carries its chain and key, an acknowledgement nothing.\<close>

type_synonym msg = "string \<times> (bytes \<times> bytes) option"

fun secret_material :: "secret_type \<Rightarrow> bytes \<times> bytes" where
  "secret_material (TlsCertificate chain key) = (chain, key)"
| "secret_material OtherSecret = ([], [])"

definition acks_of :: "token multiset \<Rightarrow> msg multiset" where
  "acks_of T = image_mset (\<lambda>t. (fst t, None)) T"

fun sender_msgs :: "sender_pc \<Rightarrow> msg multiset" where
  "sender_msgs (SSend r) = {#(ds_Name r, Some (ds_CertificateChain r, ds_PrivateKey r))#}"
| "sender_msgs _ = {#}"

definition resp_msgs :: "sds_response \<Rightarrow> msg multiset" where
  "resp_msgs r = mset (map (\<lambda>sec. (sec_Name sec, Some (secret_material (sec_Type sec)))) (List.map_filter id (sr_Resources r)))"

fun creceiver_msgs :: "creceiver_pc \<Rightarrow> msg multiset" where
  "creceiver_msgs (CHand i d) = {#(sec_Name (rd_Secret d), Some (secret_material (sec_Type (rd_Secret d))))#}"
| "creceiver_msgs _ = {#}"

fun chandler_msgs :: "chandler_pc \<Rightarrow> msg multiset" where
  "chandler_msgs (CUpdate upd ack) = image_mset (\<lambda>t. (fst t, Some (material upd))) (req_toks ack)"
| "chandler_msgs (CAck ack) = acks_of (req_toks ack)"
| "chandler_msgs _ = {#}"

definition srv_msgs :: "'w srv_end \<Rightarrow> msg multiset" where
  "srv_msgs s = sender_msgs (se_sender s) + acks_of (receiver_toks (se_receiver s))"

definition cli_msgs :: "cli_end \<Rightarrow> msg multiset" where
  "cli_msgs c = creceiver_msgs (ce_receiver c) + sum_list (map chandler_msgs (ce_handlers c)) + acks_of (csender_toks (ce_sender c))"

definition wired_msgs :: "cli_end \<Rightarrow> 'w srv_wired \<Rightarrow> msg multiset" where
  "wired_msgs c w = srv_msgs (fst w) + sum_list (map resp_msgs (snd (snd w))) + cli_msgs c + acks_of (up_toks (fst (snd w)))"

section \<open>What was offered and what was given\<close>

definition given_as :: "'h watchingCert list \<Rightarrow> cli_end \<Rightarrow> string \<Rightarrow> (bytes \<times> bytes) list" where
  "given_as certs c n = map (\<lambda>(i, upd). material upd) (filter (\<lambda>(i, upd). cert_name (certs ! i) = n) (ce_delivered c))"

definition offered_as :: "'w srv_end \<Rightarrow> string \<Rightarrow> (bytes \<times> bytes) list" where
  "offered_as s n = map (\<lambda>(m, x). (c_FullChain x, c_Key x)) (filter (\<lambda>(m, x). m = n) (se_offers s))"

fun told :: "'h watchingCert list \<Rightarrow> cli_end \<Rightarrow> 'w srv_end \<Rightarrow> msg \<Rightarrow> bool" where
  "told certs c s (n, Some m) \<longleftrightarrow> given_as certs c n @ [m] = offered_as s n"
| "told certs c s (n, None) \<longleftrightarrow> given_as certs c n = offered_as s n"

fun past_ack :: "handler_pc \<Rightarrow> bool" where
  "past_ack (HAck _) = False"
| "past_ack HEnd = False"
| "past_ack _ = True"

fun chandler_named :: "string \<Rightarrow> chandler_pc \<Rightarrow> bool" where
  "chandler_named n (CUpdate upd ack) \<longleftrightarrow> dr_ResourceNames ack = [n]"
| "chandler_named n _ \<longleftrightarrow> True"

definition order_inv :: "'h watchingCert list \<Rightarrow> cli_end \<Rightarrow> 'w srv_wired \<Rightarrow> bool" where
  "order_inv certs c w \<longleftrightarrow>
     (\<forall>t \<in># wired_msgs c w. told certs c (fst w) t) \<and>
     (\<forall>i < length (se_handlers (fst w)). past_ack (se_handlers (fst w) ! i) \<longrightarrow>
        given_as certs c (handler_name (fst w) i) = offered_as (fst w) (handler_name (fst w) i)) \<and>
     (\<forall>n. \<exists>ms. length ms \<le> 1 \<and> given_as certs c n @ ms = offered_as (fst w) n) \<and>
     (\<forall>(n, x) \<in> set (se_offers (fst w)). \<exists>i < length (se_handlers (fst w)). handler_name (fst w) i = n) \<and>
     (\<forall>i < length (ce_handlers c). chandler_named (cert_name (certs ! i)) (ce_handlers c ! i))"

section \<open>Lemmas\<close>

lemma acks_of_simps [simp]:
  "acks_of {#} = {#}" "acks_of (S + T) = acks_of S + acks_of T" "acks_of (add_mset t T) = add_mset (fst t, None) (acks_of T)"
  by (simp_all add: acks_of_def)

lemma resp_msgs_wire [simp]:
  "resp_msgs (wire r) = {#(ds_Name r, Some (ds_CertificateChain r, ds_PrivateKey r))#}"
  by (simp add: resp_msgs_def wire_def List.map_filter_def)

text \<open>The messages are the tokens of \<open>Sds_Duplex\<close>.\<close>

lemma names_of_msgs:
  "image_mset fst (sender_msgs sp) = image_mset fst (sender_toks sp)"
  "image_mset fst (resp_msgs r) = image_mset fst (resp_toks r)"
  "image_mset fst (creceiver_msgs cr) = image_mset fst (creceiver_toks cr)"
  "image_mset fst (chandler_msgs ch) = image_mset fst (chandler_toks ch)"
  "image_mset fst (acks_of T) = image_mset fst T"
proof -
  show "image_mset fst (sender_msgs sp) = image_mset fst (sender_toks sp)" by (cases sp) simp_all
  show "image_mset fst (creceiver_msgs cr) = image_mset fst (creceiver_toks cr)" by (cases cr) simp_all
  show "image_mset fst (acks_of T) = image_mset fst T" for T
    by (simp add: acks_of_def image_mset.compositionality comp_def)
  then show "image_mset fst (chandler_msgs ch) = image_mset fst (chandler_toks ch)"
    by (cases ch) (simp_all add: image_mset.compositionality comp_def)
  show "image_mset fst (resp_msgs r) = image_mset fst (resp_toks r)"
    by (simp add: resp_msgs_def resp_toks_def comp_def flip: mset_map)
qed

lemma names_of_sum:
  fixes f :: "'a \<Rightarrow> msg multiset" and g :: "'a \<Rightarrow> token multiset"
  assumes "\<And>x. image_mset fst (f x) = image_mset fst (g x)"
  shows "image_mset fst (sum_list (map f xs)) = image_mset fst (sum_list (map g xs))"
  by (induction xs) (simp_all add: assms)

lemma names_of_wired_msgs: "image_mset fst (wired_msgs c w) = image_mset fst (wired_toks c w)"
  using names_of_sum [of resp_msgs resp_toks] names_of_sum [of chandler_msgs chandler_toks]
  by (simp add: wired_msgs_def wired_toks_def srv_msgs_def srv_toks_def cli_msgs_def cli_toks_def down_toks_def names_of_msgs)

text \<open>There is one message for a name.\<close>

lemma name_once:
  assumes "tok_inv fmt dispatch hs (wired_toks c w)" "wired_msgs c w = add_mset (n, a) R" "t \<in># R"
  shows "fst t \<noteq> n"
proof
  assume "fst t = n"
  then have "count (image_mset fst R) n \<noteq> 0" using assms(3) unfolding no_token by blast
  moreover have "count (image_mset fst (wired_msgs c w)) n \<le> 1"
    using assms(1) unfolding tok_inv_def names_of_wired_msgs by blast
  moreover have "count (image_mset fst (wired_msgs c w)) n = Suc (count (image_mset fst R) n)" by (simp add: assms(2))
  ultimately show False by linarith
qed

text \<open>There is none for a pack whose handler is not waiting for one.\<close>

lemma no_msg:
  assumes "wired_inv fmt certs c (s, up, down)" "i < length (se_handlers s)" "past_ack (se_handlers s ! i)"
    and "t \<in># wired_msgs c (s, up, down)"
  shows "fst t \<noteq> handler_name s i"
proof
  assume n: "fst t = handler_name s i"
  have "fst t \<in># image_mset fst (wired_toks c (s, up, down))"
    using assms(4) by (simp flip: names_of_wired_msgs)
  then obtain t' where "t' \<in># wired_toks c (s, up, down)" "fst t' = fst t" by auto
  then obtain j where "sd_dispatch (se_stream s) (handler_name s i) = Some j" "\<not> past_ack (se_handlers s ! j)"
    using assms(1) n by (fastforce simp: wired_inv_def tok_inv_def awaited_def)
  moreover have "sd_dispatch (se_stream s) (handler_name s i) = Some i"
    using assms(1,2) by (simp add: wired_inv_def srv_ok_def stream_ok_def)
  ultimately show False using assms(3) by simp
qed

section \<open>Steps of the server\<close>

text \<open>A step that makes no offer and at most forgets messages.\<close>

lemma order_inv_server:
  assumes inv: "order_inv certs c (s, up, down)"
    and "wired_msgs c (s', up', down') \<subseteq># wired_msgs c (s, up, down)" "se_offers s' = se_offers s"
    and "\<And>i. i < length (se_handlers s) \<Longrightarrow> i < length (se_handlers s') \<and> handler_name s' i = handler_name s i"
    and "\<And>i. i < length (se_handlers s') \<Longrightarrow> past_ack (se_handlers s' ! i) \<Longrightarrow>
      given_as certs c (handler_name s' i) = offered_as s (handler_name s' i)"
  shows "order_inv certs c (s', up', down')"
proof -
  have eq: "offered_as s' = offered_as s" using assms(3) by (simp add: offered_as_def fun_eq_iff)
  then have "told certs c s' t" if "t \<in># wired_msgs c (s', up', down')" for t
    using inv mset_subset_eqD [OF assms(2) that]
    by (cases t rule: told.cases [of "(certs, c, s, t)" for t]) (auto simp: order_inv_def)
  then show ?thesis
    using inv assms(3-5) eq by (fastforce simp: order_inv_def)
qed

lemma filter_snoc_as [simp]:
  "offered_as (s\<lparr>se_offers := se_offers s @ [(m, x)]\<rparr>) n = offered_as s n @ (if m = n then [(c_FullChain x, c_Key x)] else [])"
  "given_as certs (c\<lparr>ce_delivered := ce_delivered c @ [(i, upd)]\<rparr>) n =
     given_as certs c n @ (if cert_name (certs ! i) = n then [material upd] else [])"
  by (simp_all add: offered_as_def given_as_def)

lemma told_other: 
  "told certs c s t \<Longrightarrow> given_as certs c' (fst t) = given_as certs c (fst t) \<Longrightarrow> offered_as s' (fst t) = offered_as s (fst t) \<Longrightarrow>
     told certs c' s' t"
  by (cases t; cases "snd t") auto

text \<open>The sender takes an offer.\<close>

lemma order_inv_offer:
  assumes inv: "order_inv certs c (s, up, down)" and ok: "wired_inv fmt certs c (s, up, down)"
    and i: "i < length (se_handlers s)" "past_ack (se_handlers s ! i)"
    and msgs: "wired_msgs c (s', up, down) = add_mset (handler_name s i, Some (c_FullChain x, c_Key x)) (wired_msgs c (s, up, down))"
    and s': "se_offers s' = se_offers s @ [(handler_name s i, x)]" "se_stream s' = se_stream s"
      "se_handlers s' = (se_handlers s)[i := HAck x]"
  shows "order_inv certs c (s', up, down)"
proof -
  let ?n = "handler_name s i"
  have off: "offered_as s' n = offered_as s n @ (if ?n = n then [(c_FullChain x, c_Key x)] else [])" for n
    by (simp add: offered_as_def s'(1))
  have same: "given_as certs c ?n = offered_as s ?n" using inv i by (simp add: order_inv_def)
  have "told certs c s' t" if "t \<in># wired_msgs c (s, up, down)" for t
    by (rule told_other [where c = c and s = s])
      (use inv that no_msg [OF ok i that] in \<open>auto simp: order_inv_def off\<close>)
  then have "\<forall>t \<in># wired_msgs c (s', up, down). told certs c s' t"
    using same by (simp add: msgs off)
  moreover have "given_as certs c (handler_name s j) = offered_as s' (handler_name s j)"
    if "j < length (se_handlers s)" "j \<noteq> i" "past_ack (se_handlers s ! j)" for j
  proof -
    have "handler_name s j \<noteq> ?n"
      using ok that(1,2) i(1) unfolding wired_inv_def srv_ok_def stream_ok_def fst_conv by (metis option.inject)
    then show ?thesis using inv that by (simp add: order_inv_def off)
  qed
  moreover have "\<exists>ms. length ms \<le> 1 \<and> given_as certs c n @ ms = offered_as s' n" for n
    using inv same by (cases "n = ?n") (auto simp: order_inv_def off)
  ultimately show ?thesis
    using inv i(1) s' by (auto simp: order_inv_def nth_list_update)
qed

lemma receiver_toks_recv:
  assumes perm: "\<And>ps. mset (iter ps) = mset ps"
    and recv: "recv_request lw iter req (se_stream s) = (acks, err, st)"
    and inv: "wired_inv fmt certs c (s, req # up, down)"
  shows "receiver_toks (RHand req acks err st) \<subseteq># req_toks req"
proof (cases "is_ack req")
  case True
  then obtain n where n: "dr_ResourceNames req = [n]" by (auto simp: is_ack_def)
  have "(n, dr_VersionInfo req) \<in># wired_toks c (s, req # up, down)"
    by (simp add: wired_toks_def req_toks_ack [OF True n])
  then obtain i where i: "sd_dispatch (se_stream s) n = Some i"
    using inv by (force simp: wired_inv_def tok_inv_def awaited_def)
  have "stream_ok (se_stream s)" using inv by (simp add: wired_inv_def srv_ok_def)
  from recv_ack [OF perm True n this i, of lw] show ?thesis
    using recv by (simp add: req_toks_ack [OF True n])
next
  case False
  then have "sd_handlers (se_stream s) = []"
    using inv by (auto simp: wired_inv_def first_ok_def)
  then show ?thesis
    using recv_first [OF perm _ _ recv] inv by (simp add: wired_inv_def srv_ok_def)
qed

text \<open>A step of a handler that was not waiting for an acknowledgement, or the end of one.\<close>

lemma order_inv_handler:
  assumes "order_inv certs c (s, up, down)" "pc = HEnd \<or> past_ack (se_handlers s ! i)"
    and "se_stream s' = se_stream s" "se_sender s' = se_sender s" "se_receiver s' = se_receiver s"
    and "se_handlers s' = (se_handlers s)[i := pc]" "se_offers s' = se_offers s"
  shows "order_inv certs c (s', up, down)"
proof (rule order_inv_server [OF assms(1)])
  fix j assume j: "j < length (se_handlers s')" "past_ack (se_handlers s' ! j)"
  then have "past_ack (se_handlers s ! j)" using assms(2,6) by (cases "j = i") auto
  then show "given_as certs c (handler_name s' j) = offered_as s (handler_name s' j)"
    using assms(1,3,6) j(1) by (simp add: order_inv_def)
qed (use assms in \<open>simp_all add: wired_msgs_def srv_msgs_def\<close>)

lemma order_inv_flags:
  assumes "order_inv certs c (s, up, down)" "wired_msgs c (s', up', down') \<subseteq># wired_msgs c (s, up, down)"
    and "se_offers s' = se_offers s" "se_stream s' = se_stream s" "se_handlers s' = se_handlers s"
  shows "order_inv certs c (s', up', down')"
  by (rule order_inv_server [OF assms(1-3)]) (use assms in \<open>auto simp: order_inv_def\<close>)

lemma order_inv_no_handlers:
  assumes "order_inv certs c (s, up, down)" "se_handlers s = []"
  shows "se_offers s = []" "given_as certs c n = []"
proof -
  show "se_offers s = []" using assms by (cases "se_offers s") (auto simp: order_inv_def)
  then show "given_as certs c n = []" using assms by (auto simp: order_inv_def offered_as_def)
qed

lemma srv_go_order:
  assumes "srv_go fmt lw w w'" "wired_inv fmt certs c w" "order_inv certs c w"
  shows "order_inv certs c w'"
  using assms
proof (induction rule: srv_go.induct)
  case (send_take s i x up down)
  then show ?case
    by (intro order_inv_offer [OF send_take.prems(2,1), where i = i and x = x])
      (auto simp: wired_msgs_def srv_msgs_def secret_response_def)
next
  case (send_ok s r up down)
  then show ?case by (intro order_inv_flags [OF send_ok.prems(2)]) (simp_all add: wired_msgs_def srv_msgs_def)
next
  case (recv_gets s iter req acks err st up down)
  have "acks_of (receiver_toks (RHand req acks err st)) \<subseteq># acks_of (req_toks req)"
    unfolding acks_of_def
    by (rule image_mset_subseteq_mono, rule receiver_toks_recv [OF _ recv_gets.hyps(3) recv_gets.prems(1)]) (use recv_gets in blast)
  then show ?case
    using recv_gets.hyps(1)
    by (intro order_inv_flags [OF recv_gets.prems(2)]) (simp_all add: wired_msgs_def srv_msgs_def subset_mset.add_mono)
next
  case (recv_acks s req n acks err st i x up down)
  have n: "handler_name s i = n" using recv_acks by (simp add: wired_inv_def srv_ok_def stream_ok_def)
  have "(n, None) \<in># wired_msgs c (s, up, down)" using recv_acks.hyps(1) by (simp add: wired_msgs_def srv_msgs_def)
  then have "given_as certs c n = offered_as s n" using recv_acks.prems(2) by (fastforce simp: order_inv_def)
  then show ?case
    using recv_acks n
    by (intro order_inv_server [OF recv_acks.prems(2)])
      (auto simp: wired_msgs_def srv_msgs_def order_inv_def nth_list_update split: if_splits)
next
  case (recv_starts s req st up down)
  consider "st = se_stream s" "length (se_handlers s) = length (sd_handlers st)" | "se_handlers s = []"
    using recv_starts by (auto simp: wired_inv_def srv_ok_def)
  then show ?case
  proof cases
    case 1
    then show ?thesis
      using recv_starts.hyps by (intro order_inv_flags [OF recv_starts.prems(2)]) (simp_all add: wired_msgs_def srv_msgs_def)
  next
    case 2
    then show ?thesis
      using recv_starts.hyps order_inv_no_handlers [OF recv_starts.prems(2) 2]
      by (intro order_inv_server [OF recv_starts.prems(2)]) (simp_all add: wired_msgs_def srv_msgs_def offered_as_def)
  qed
next
  case (recv_rejects s req e st up down)
  then have "se_handlers s = []" by (auto simp: wired_inv_def srv_ok_def)
  then show ?case
    using recv_rejects.hyps by (intro order_inv_server [OF recv_rejects.prems(2)]) (simp_all add: wired_msgs_def srv_msgs_def)
next
  case (handler_offers s i up down x)
  then show ?case by (intro order_inv_handler [OF handler_offers.prems(2), where i = i and pc = "HOffer x"]) auto
next
  case (handler_fails s i up down)
  then show ?case by (intro order_inv_handler [OF handler_fails.prems(2), where i = i and pc = HReport]) auto
next
  case (handler_reports s i up down)
  then show ?case by (intro order_inv_handler [OF handler_reports.prems(2), where i = i and pc = HEnd]) auto
next
  case (handler_wakes s i up down)
  then show ?case by (intro order_inv_handler [OF handler_wakes.prems(2), where i = i and pc = HSnap]) auto
next
  case (handler_ctx s i pc up down)
  then show ?case by (intro order_inv_handler [OF handler_ctx.prems(2), where i = i and pc = HEnd]) auto
qed (erule order_inv_flags; simp add: wired_msgs_def srv_msgs_def)+

section \<open>Steps of the client\<close>

lemma order_inv_client:
  assumes inv: "order_inv certs c (s, up, down)"
    and "wired_msgs c' (s, up', down') \<subseteq># wired_msgs c (s, up, down)" "ce_delivered c' = ce_delivered c"
    and "\<And>i. i < length (ce_handlers c') \<Longrightarrow> chandler_named (cert_name (certs ! i)) (ce_handlers c' ! i)"
  shows "order_inv certs c' (s, up', down')"
proof -
  have eq: "given_as certs c' = given_as certs c" using assms(3) by (simp add: given_as_def fun_eq_iff)
  have "told certs c' s t" if "t \<in># wired_msgs c' (s, up', down')" for t
    by (rule told_other [where c = c and s = s]) (use inv mset_subset_eqD [OF assms(2) that] in \<open>auto simp: order_inv_def eq\<close>)
  then show ?thesis
    using inv assms(4) by (simp add: order_inv_def eq)
qed

lemma order_inv_client_flags:
  assumes "order_inv certs c (s, up, down)" "ce_receiver c' = ce_receiver c" "ce_sender c' = ce_sender c"
    and "ce_handlers c' = ce_handlers c" "ce_delivered c' = ce_delivered c"
  shows "order_inv certs c' (s, up, down)"
proof (rule order_inv_client [OF assms(1) _ assms(5)])
  show "wired_msgs c' (s, up, down) \<subseteq># wired_msgs c (s, up, down)"
    using assms by (simp add: wired_msgs_def cli_msgs_def)
qed (use assms in \<open>simp add: order_inv_def\<close>)

lemma cli_msgs_chandler:
  assumes "i < length (ce_handlers c)" "ce_handlers c' = (ce_handlers c)[i := pc]"
    and "creceiver_msgs (ce_receiver c) + chandler_msgs (ce_handlers c ! i) + acks_of (csender_toks (ce_sender c))
      = K + creceiver_msgs (ce_receiver c') + chandler_msgs pc + acks_of (csender_toks (ce_sender c'))"
  shows "cli_msgs c = K + cli_msgs c'"
proof -
  have "sum_list (map chandler_msgs (ce_handlers c)) + chandler_msgs pc
      = sum_list (map chandler_msgs (ce_handlers c')) + chandler_msgs (ce_handlers c ! i)"
    using sum_list_map_upd [OF assms(1), of chandler_msgs pc] assms(2) by simp
  from toks_balance [OF this assms(3)] show ?thesis by (simp add: cli_msgs_def)
qed

lemma order_inv_chandler:
  assumes "order_inv certs c (s, up, down)" "i < length (ce_handlers c)" "ce_handlers c' = (ce_handlers c)[i := pc]"
    and "chandler_named (cert_name (certs ! i)) pc" "ce_delivered c' = ce_delivered c"
    and "creceiver_msgs (ce_receiver c) + chandler_msgs (ce_handlers c ! i) + acks_of (csender_toks (ce_sender c))
      = K + creceiver_msgs (ce_receiver c') + chandler_msgs pc + acks_of (csender_toks (ce_sender c'))"
  shows "order_inv certs c' (s, up, down)"
proof (rule order_inv_client [OF assms(1) _ assms(5)])
  show "wired_msgs c' (s, up, down) \<subseteq># wired_msgs c (s, up, down)"
    using cli_msgs_chandler [OF assms(2,3,6)] by (simp add: wired_msgs_def)
  show "chandler_named (cert_name (certs ! j)) (ce_handlers c' ! j)" if "j < length (ce_handlers c')" for j
    using assms(1,2,3,4) that by (cases "j = i") (auto simp: order_inv_def)
qed

lemma recv_response_msgs:
  assumes "recv_response names resp cl = (cl', Inr (n, d))"
  shows "(sec_Name (rd_Secret d), Some (secret_material (sec_Type (rd_Secret d)))) \<in># resp_msgs resp"
  using assms
  by (auto simp: recv_response_def resp_msgs_def map_filter_simps Let_def split: list.splits option.splits if_splits)

lemma client_handleCert_msgs:
  assumes "client_handleCert cert d = Inr (upd, ack)"
  shows "material upd = secret_material (sec_Type (rd_Secret d))" "dr_ResourceNames ack = [cert_name cert]"
  using assms by (auto simp: client_handleCert_def material_def split: secret_type.splits)

text \<open>A watcher takes its certificate.\<close>

lemma order_inv_update:
  assumes inv: "order_inv certs c (s, up, down)" and ok: "wired_inv fmt certs c (s, up, down)"
    and i: "i < length (ce_handlers c)" "ce_handlers c ! i = CUpdate upd ack"
  shows "order_inv certs (set_chandler i (CAck ack) (c\<lparr>ce_delivered := ce_delivered c @ [(i, upd)]\<rparr>)) (s, up, down)"
proof -
  let ?n = "cert_name (certs ! i)" and ?h = "set_chandler i CIdle c"
  define c' where "c' = set_chandler i (CAck ack) (c\<lparr>ce_delivered := ce_delivered c @ [(i, upd)]\<rparr>)"
  have "is_ack ack" using ok i list_all_at [of chandler_ok] by (fastforce simp: wired_inv_def cli_ok_def)
  moreover have "dr_ResourceNames ack = [?n]" using inv i unfolding order_inv_def by (metis chandler_named.simps(1))
  ultimately have ack: "req_toks ack = {#(?n, dr_VersionInfo ack)#}" by (rule req_toks_ack)
  have "cli_msgs c = {#(?n, Some (material upd))#} + cli_msgs ?h"
    by (rule cli_msgs_chandler [OF i(1), where pc = CIdle]) (simp_all add: i ack)
  then have old: "wired_msgs c (s, up, down) = add_mset (?n, Some (material upd)) (wired_msgs ?h (s, up, down))"
    by (simp add: wired_msgs_def)
  have "cli_msgs c' = {#(?n, None)#} + cli_msgs ?h"
    by (rule cli_msgs_chandler [where i = i and pc = CIdle]) (simp_all add: c'_def i ack)
  then have new: "wired_msgs c' (s, up, down) = add_mset (?n, None) (wired_msgs ?h (s, up, down))"
    by (simp add: wired_msgs_def)
  have given: "given_as certs c' n = given_as certs c n @ (if ?n = n then [material upd] else [])" for n
    by (simp add: given_as_def c'_def)
  have now: "given_as certs c' ?n = offered_as s ?n"
    using inv unfolding given by (simp add: order_inv_def old)
  have "tok_inv fmt (sd_dispatch (se_stream s)) (se_handlers s) (wired_toks c (s, up, down))"
    using ok by (simp add: wired_inv_def)
  note once = name_once [OF this old]
  have "told certs c' s t" if "t \<in># wired_msgs ?h (s, up, down)" for t
    by (rule told_other [where c = c and s = s])
      (use inv that once [OF that] in \<open>auto simp: order_inv_def old given\<close>)
  then have "\<forall>t \<in># wired_msgs c' (s, up, down). told certs c' s t"
    using now by (simp add: new)
  moreover have "\<exists>ms. length ms \<le> 1 \<and> given_as certs c' n @ ms = offered_as s n" for n
    using inv now by (cases "n = ?n") (auto simp: order_inv_def given)
  moreover have "given_as certs c' (handler_name s j) = offered_as s (handler_name s j)"
    if "j < length (se_handlers s)" "past_ack (se_handlers s ! j)" for j
    using inv that now by (cases "handler_name s j = ?n") (auto simp: order_inv_def given)
  moreover have "chandler_named (cert_name (certs ! j)) (ce_handlers c' ! j)" if "j < length (ce_handlers c')" for j
    using inv that by (cases "j = i") (auto simp: order_inv_def c'_def)
  ultimately show ?thesis
    using inv unfolding c'_def [symmetric] by (simp add: order_inv_def)
qed

lemma cli_step_order:
  assumes "cli_step metaOk certs w w'" "wired_inv fmt certs (fst w) (s, snd w)" "order_inv certs (fst w) (s, snd w)"
  shows "order_inv certs (fst w') (s, snd w')"
  using assms
proof (induction rule: cli_step.induct)
  case (crecv_gets c resp cl n d i up down)
  have "{#(sec_Name (rd_Secret d), Some (secret_material (sec_Type (rd_Secret d))))#} \<subseteq># resp_msgs resp"
    using recv_response_msgs [OF crecv_gets.hyps(2)] by simp
  then show ?case
    unfolding fst_conv snd_conv using crecv_gets
    by (intro order_inv_client [OF crecv_gets.prems(2) [unfolded fst_conv snd_conv]])
      (auto simp: wired_msgs_def cli_msgs_def order_inv_def)
next
  case (crecv_hands c i d upd ack up down)
  note h = client_handleCert_msgs [OF crecv_hands.hyps(3)] client_handleCert_ack [OF crecv_hands.hyps(3)]
  have "sec_Name (rd_Secret d) = cert_name (certs ! i)"
    using crecv_hands by (simp add: wired_inv_def cli_ok_def)
  then show ?case
    unfolding fst_conv snd_conv using crecv_hands h
    by (intro order_inv_chandler [OF crecv_hands.prems(2) [unfolded fst_conv snd_conv], where i = i and pc = "CUpdate upd ack" and K = "{#}"])
      simp_all
next
  case (crecv_hands_bad c i d e up down)
  then show ?case
    unfolding fst_conv snd_conv
    by (intro order_inv_chandler [OF crecv_hands_bad.prems(2) [unfolded fst_conv snd_conv], where i = i
          and pc = "CHReport (CStreamErr e)" and K = "creceiver_msgs (ce_receiver c)"]) simp_all
next
  case (chandler_updates c i upd ack up down)
  then show ?case unfolding fst_conv snd_conv by (intro order_inv_update) simp_all
next
  case (chandler_acks c i ack up down)
  then show ?case
    unfolding fst_conv snd_conv
    by (intro order_inv_chandler [OF chandler_acks.prems(2) [unfolded fst_conv snd_conv], where i = i and pc = CIdle and K = "{#}"]) simp_all
next
  case (chandler_reports c i e up down)
  then show ?case
    unfolding fst_conv snd_conv
    by (intro order_inv_chandler [OF chandler_reports.prems(2) [unfolded fst_conv snd_conv], where i = i and pc = CHEnd and K = "{#}"]) simp_all
next
  case (chandler_ctx c i pc up down)
  then show ?case
    unfolding fst_conv snd_conv
    by (intro order_inv_chandler [OF chandler_ctx.prems(2) [unfolded fst_conv snd_conv], where i = i and pc = CHEnd
          and K = "chandler_msgs (ce_handlers c ! i)"]) simp_all
qed (unfold fst_conv snd_conv, rule order_inv_client, assumption;
    auto simp: wired_msgs_def cli_msgs_def order_inv_def)+

section \<open>The stream\<close>

definition ordered_all :: "(time \<Rightarrow> string) \<Rightarrow> 'h watchingCert list \<Rightarrow> 'w duplex \<Rightarrow> bool" where
  "ordered_all fmt certs d \<longleftrightarrow> duplex_all fmt certs d \<and> order_inv certs (du_cli d) (du_srv d, du_up d, du_down d)"

lemma ordered_all_init: "duplex_init certs d \<Longrightarrow> ordered_all fmt certs d"
proof -
  assume init: "duplex_init certs d"
  then have "order_inv certs (du_cli d) (du_srv d, du_up d, du_down d)"
    by (auto simp: duplex_init_def Stream_start_def StreamSecrets_start_def Let_def order_inv_def wired_msgs_def srv_msgs_def
        cli_msgs_def map_replicate_const given_as_def offered_as_def up_toks_def)
  then show ?thesis by (simp add: ordered_all_def duplex_all_init [OF init])
qed

lemma ordered_all_step:
  assumes "ordered_all fmt certs d" "duplex_step fmt lw metaOk certs d d'"
  shows "ordered_all fmt certs d'"
proof -
  have w: "wired_inv fmt certs (du_cli d) (du_srv d, du_up d, du_down d)"
    and o: "order_inv certs (du_cli d) (du_srv d, du_up d, du_down d)"
    using assms(1) by (auto simp: ordered_all_def duplex_all_def duplex_inv_wired)
  from assms(2) have "order_inv certs (du_cli d') (du_srv d', du_up d', du_down d')"
  proof cases
    case (du_server s up down)
    then show ?thesis using srv_go_order [of fmt lw "(du_srv d, du_up d, du_down d)" "(s, up, down)"] w o by (simp add: srv_step_def)
  next
    case (du_client c up down)
    then show ?thesis using cli_step_order [of _ _ "(du_cli d, du_up d, du_down d)" _ fmt "du_srv d"] w o by fastforce
  next
    case du_stop
    then show ?thesis by (auto intro!: order_inv_flags [OF o] simp: wired_msgs_def srv_msgs_def)
  next
    case du_srv_breaks
    then show ?thesis by (auto intro!: order_inv_flags [OF o] simp: wired_msgs_def srv_msgs_def)
  qed (simp_all add: order_inv_client_flags [OF o])
  then show ?thesis
    using assms duplex_all_step [OF _ assms(2)] by (simp add: ordered_all_def)
qed

interpretation ordered: step_invariant "duplex_init certs" "duplex_step fmt lw metaOk certs" "ordered_all fmt certs"
  by unfold_locales (auto intro: ordered_all_init ordered_all_step)

end
