(* ===== verification/Sds_Live.thy ===== *)
theory Sds_Live
  imports Sds_Order
begin

text \<open>
  The stream of \<open>Sds_Duplex\<close> with the entries behind it: the handlers of the server's end, which
  there may offer anything, run \<open>handleCert\<close> of \<open>Sds_Server\<close> on the entry of their pack. So what
  reaches a watcher over a stream is what was published in the entry of its certificate.
\<close>

section \<open>The handlers on their entries\<close>

text \<open>Where a handler of the stream is when \<open>handleCert\<close> on its entry is at a given point. A handler
  that is about to report holds a certificate it could not make a response of.\<close>

fun pack_at :: "pack_pc \<Rightarrow> handler_pc \<Rightarrow> bool" where
  "pack_at PSubscribe pc \<longleftrightarrow> pc = HFirst"
| "pack_at PFirst pc \<longleftrightarrow> pc = HFirst"
| "pack_at (PFirstWait _) pc \<longleftrightarrow> pc = HFirst"
| "pack_at PSnap pc \<longleftrightarrow> pc = HFirst \<or> pc = HSnap"
| "pack_at (POffer x _ _) pc \<longleftrightarrow> pc = HOffer x \<or> pc = HReport"
| "pack_at (PAck _ x _ _) pc \<longleftrightarrow> pc = HAck x"
| "pack_at (PUpdate _ _ _) pc \<longleftrightarrow> pc = HWait"
| "pack_at PEnd pc \<longleftrightarrow> pc = HEnd"
| "pack_at PCrash pc \<longleftrightarrow> False"

text \<open>\<open>lv_packs\<close> runs parallel to the handlers: the view that each has of its entry. \<open>lv_entries\<close>
  are the entries at the start of the stream; what was published since then is in the views, which
  see it one after the other.\<close>

record 'w live =
  lv_duplex :: "'w duplex"
  lv_entries :: "certEntry list"
  lv_packs :: "pack list"

abbreviation lv_srv :: "'w live \<Rightarrow> 'w srv_end" where
  "lv_srv l \<equiv> du_srv (lv_duplex l)"

text \<open>The handlers in the stream \<open>st\<close> that come after the first \<open>k\<close>, and their entries.\<close>

definition new_entries :: "nat \<Rightarrow> 'w sds_stream \<Rightarrow> certEntry option list" where
  "new_entries k st = map (\<lambda>(name, domains, key). sv_cache (sd_srv st) key) (drop k (sd_handlers st))"

definition set_done :: "bool \<Rightarrow> pack \<Rightarrow> pack" where
  "set_done b p = p\<lparr>pk_done := b\<rparr>"

text \<open>A step of the stream in which no handler moves but some may start; a step of a handler; and a
  step on an entry that is not seen on the stream.\<close>

inductive live_step :: "(time \<Rightarrow> string) \<Rightarrow> (string \<Rightarrow> string) \<Rightarrow> bool \<Rightarrow> 'h watchingCert list \<Rightarrow>
    'w live \<Rightarrow> 'w live \<Rightarrow> bool"
  for fmt lw metaOk certs where
  lv_stream: "duplex_step fmt lw metaOk certs (lv_duplex l) d \<Longrightarrow>
    se_handlers (du_srv d) = se_handlers (lv_srv l) @ hs \<Longrightarrow>
    map Some es = new_entries (length (se_handlers (lv_srv l))) (se_stream (du_srv d)) \<Longrightarrow>
    list_all2 pack_init es new \<Longrightarrow>
    live_step fmt lw metaOk certs l
      \<lparr>lv_duplex = d, lv_entries = lv_entries l @ es, lv_packs = map (set_done (se_done (du_srv d))) (lv_packs l @ new)\<rparr>"
| lv_handler: "srv_step fmt lw (lv_srv l, du_up (lv_duplex l), du_down (lv_duplex l)) (s, up, down) \<Longrightarrow>
    i < length (lv_packs l) \<Longrightarrow> se_handlers s = (se_handlers (lv_srv l))[i := pc] \<Longrightarrow> se_handlers (lv_srv l) ! i \<noteq> pc \<Longrightarrow>
    pack_step fmt (handler_name (lv_srv l) i) (lv_packs l ! i) p \<Longrightarrow> pack_at (pk_pc p) pc \<Longrightarrow>
    pk_done p = pk_done (lv_packs l ! i) \<Longrightarrow>
    live_step fmt lw metaOk certs l
      (l\<lparr>lv_duplex := (lv_duplex l)\<lparr>du_srv := s, du_up := up, du_down := down\<rparr>, lv_packs := (lv_packs l)[i := p]\<rparr>)"
| lv_pack: "i < length (lv_packs l) \<Longrightarrow> pack_step fmt (handler_name (lv_srv l) i) (lv_packs l ! i) p \<Longrightarrow>
    pack_at (pk_pc p) (se_handlers (lv_srv l) ! i) \<Longrightarrow> pk_done p = pk_done (lv_packs l ! i) \<Longrightarrow>
    live_step fmt lw metaOk certs l (l\<lparr>lv_packs := (lv_packs l)[i := p]\<rparr>)"

definition live_init :: "'h watchingCert list \<Rightarrow> 'w live \<Rightarrow> bool" where
  "live_init certs l \<longleftrightarrow> duplex_init certs (lv_duplex l) \<and> lv_entries l = [] \<and> lv_packs l = []"

section \<open>Lemmas\<close>

lemma set_done_sel [simp]:
  "pk_done (set_done b p) = b" "pk_pc (set_done b p) = pk_pc p" "pk_offers (set_done b p) = pk_offers p"
  "pk_pubs (set_done b p) = pk_pubs p" "pk_entry (set_done b p) = pk_entry p"
  by (simp_all add: set_done_def)

lemma pack_inv_set_done [simp]: "pack_inv fmt name e (set_done b p) \<longleftrightarrow> pack_inv fmt name e p"
  by (simp add: pack_inv_def)

text \<open>What a step of the server's end does to the handlers and the offers.\<close>

lemma srv_go_moves:
  assumes "srv_go fmt lw w w'"
  shows "(\<exists>hs. se_handlers (fst w') = se_handlers (fst w) @ hs \<and> set hs \<subseteq> {HFirst} \<and> se_offers (fst w') = se_offers (fst w)) \<or>
    (\<exists>i pc. i < length (se_handlers (fst w)) \<and> se_handlers (fst w') = (se_handlers (fst w))[i := pc] \<and>
       se_handlers (fst w) ! i \<noteq> pc \<and> se_stream (fst w') = se_stream (fst w) \<and> se_done (fst w') = se_done (fst w) \<and>
       (case pc of HAck x \<Rightarrow> se_handlers (fst w) ! i = HOffer x \<and>
            se_offers (fst w') = se_offers (fst w) @ [(handler_name (fst w) i, x)]
        | _ \<Rightarrow> se_offers (fst w') = se_offers (fst w)))"
  using assms by (induction rule: srv_go.induct) (auto; fastforce)+

text \<open>A stream with handlers starts no more of them.\<close>

lemma srv_go_stream:
  assumes "srv_go fmt lw w w'" "srv_ok (fst w)" "se_handlers (fst w) \<noteq> []"
  shows "se_stream (fst w') = se_stream (fst w)"
  using assms by (induction rule: srv_go.induct) (auto simp: srv_ok_def)

lemma duplex_step_stream:
  assumes "ordered_all fmt certs d" "duplex_step fmt lw metaOk certs d d'" "se_handlers (du_srv d) \<noteq> []"
  shows "se_stream (du_srv d') = se_stream (du_srv d)"
  using assms(2)
proof cases
  case (du_server s up down)
  then show ?thesis
    using srv_go_stream [of fmt lw "(du_srv d, du_up d, du_down d)" "(s, up, down)"] assms(1,3)
    by (simp add: srv_step_def ordered_all_def duplex_all_def duplex_inv_def)
qed simp_all

lemma not_moved: "i < length hs \<Longrightarrow> hs ! i \<noteq> pc \<Longrightarrow> hs[i := pc] \<noteq> hs @ hs'"
  by (metis append_Nil2 append_eq_append_conv length_list_update nth_list_update_eq self_append_conv)

lemma duplex_step_offers:
  assumes "duplex_step fmt lw metaOk certs d d'" "se_handlers (du_srv d') = se_handlers (du_srv d) @ hs"
  shows "se_offers (du_srv d') = se_offers (du_srv d) \<and> set hs \<subseteq> {HFirst}"
  using assms(1)
proof cases
  case (du_server s up down)
  then have "srv_go fmt lw (du_srv d, du_up d, du_down d) (s, up, down)" by (simp add: srv_step_def)
  from srv_go_moves [OF this, unfolded fst_conv] show ?thesis
  proof (elim disjE exE conjE)
    fix i pc assume "i < length (se_handlers (du_srv d))" "se_handlers s = (se_handlers (du_srv d))[i := pc]"
      "se_handlers (du_srv d) ! i \<noteq> pc"
    then show ?thesis using not_moved assms(2) du_server(1) by fastforce
  qed (use assms(2) du_server(1) in simp)
qed (use assms(2) in simp_all)

lemma pack_at_HAck: "pack_at pk (HAck x) \<longleftrightarrow> (\<exists>v seen n. pk = PAck v x seen n)"
  by (cases pk) auto

lemma pack_at_HOffer: "pack_at pk (HOffer x) \<longleftrightarrow> (\<exists>seen n. pk = POffer x seen n)"
  by (cases pk) auto

text \<open>The responses of a pack are made when the sender takes them.\<close>

lemma pack_step_offers:
  assumes "pack_step fmt name p p'"
  shows "(\<exists>x seen n. pk_pc p = POffer x seen n \<and> (\<exists>v. pk_pc p' = PAck v x seen n) \<and>
      pk_offers p' = pk_offers p @ [(n, secret_response fmt name x)]) \<or>
    pk_offers p' = pk_offers p \<and> (\<forall>v x seen n. pk_pc p' = PAck v x seen n \<longrightarrow> pk_pc p = pk_pc p')"
  using assms by (cases rule: pack_step.cases) auto

definition responses :: "(time \<Rightarrow> string) \<Rightarrow> (string \<times> CertT) list \<Rightarrow> string \<Rightarrow> DiscoveryResponse list" where
  "responses fmt offers n = map (\<lambda>(m, x). secret_response fmt m x) (filter (\<lambda>(m, x). m = n) offers)"

lemma responses_snoc [simp]:
  "responses fmt (os @ [(m, x)]) n = responses fmt os n @ (if m = n then [secret_response fmt n x] else [])"
  by (simp add: responses_def)

section \<open>The invariant\<close>

definition view_ok :: "(time \<Rightarrow> string) \<Rightarrow> 'w srv_end \<Rightarrow> nat \<Rightarrow> certEntry \<Rightarrow> pack \<Rightarrow> bool" where
  "view_ok fmt s i e p \<longleftrightarrow> pack_at (pk_pc p) (se_handlers s ! i) \<and> pk_done p = se_done s \<and>
     pack_inv fmt (handler_name s i) e p \<and> map snd (pk_offers p) = responses fmt (se_offers s) (handler_name s i)"

definition live_inv :: "(time \<Rightarrow> string) \<Rightarrow> 'h watchingCert list \<Rightarrow> 'w live \<Rightarrow> bool" where
  "live_inv fmt certs l \<longleftrightarrow> ordered_all fmt certs (lv_duplex l) \<and> length (lv_entries l) = length (lv_packs l) \<and>
     length (lv_packs l) = length (se_handlers (lv_srv l)) \<and>
     (\<forall>i < length (lv_packs l). view_ok fmt (lv_srv l) i (lv_entries l ! i) (lv_packs l ! i))"

lemma handler_names_differ:
  assumes "ordered_all fmt certs d" "i < length (se_handlers (du_srv d))" "j < length (se_handlers (du_srv d))" "i \<noteq> j"
  shows "handler_name (du_srv d) i \<noteq> handler_name (du_srv d) j"
proof -
  have "stream_ok (se_stream (du_srv d))" "length (se_handlers (du_srv d)) = length (sd_handlers (se_stream (du_srv d)))"
    using assms(1) by (simp_all add: ordered_all_def duplex_all_def duplex_inv_def srv_ok_def)
  then show ?thesis
    using assms(2-4) unfolding stream_ok_def by (metis option.inject)
qed

text \<open>A handler and its view move together.\<close>

lemma view_ok_move:
  assumes ok: "view_ok fmt s i e p" and step: "pack_step fmt (handler_name s i) p p'"
    and "pack_at (pk_pc p') pc" "pk_done p' = pk_done p" "se_stream s' = se_stream s" "se_done s' = se_done s"
    and pc: "se_handlers s' ! i = pc"
    and moves: "case pc of HAck x \<Rightarrow> se_handlers s ! i = pc \<and> se_offers s' = se_offers s \<or>
        se_handlers s ! i = HOffer x \<and> se_offers s' = se_offers s @ [(handler_name s i, x)]
      | _ \<Rightarrow> se_offers s' = se_offers s"
  shows "view_ok fmt s' i e p'"
proof -
  have "pack_inv fmt (handler_name s i) e p'"
    using ok pack_inv_step [OF _ step] by (simp add: view_ok_def)
  moreover have "map snd (pk_offers p') = responses fmt (se_offers s') (handler_name s i)"
    using pack_step_offers [OF step] ok assms(3) moves
    by (cases pc) (auto simp: view_ok_def pack_at_HAck pack_at_HOffer)
  ultimately show ?thesis
    using assms by (simp add: view_ok_def)
qed

lemma ordered_all_srv: "ordered_all fmt certs d \<Longrightarrow> srv_ok (du_srv d)"
  by (simp add: ordered_all_def duplex_all_def duplex_inv_def)

lemma first_handlers:
  assumes "ordered_all fmt certs d" "duplex_step fmt lw metaOk certs d d'"
    and "se_handlers (du_srv d') = se_handlers (du_srv d) @ hs" "hs \<noteq> []"
  shows "se_handlers (du_srv d) = []" "se_offers (du_srv d) = []"
proof -
  have "length (se_handlers (du_srv d')) \<noteq> length (se_handlers (du_srv d))" using assms(3,4) by simp
  then have "se_stream (du_srv d') \<noteq> se_stream (du_srv d)"
    using ordered_all_srv [OF assms(1)] ordered_all_srv [OF ordered_all_step [OF assms(1,2)]] by (auto simp: srv_ok_def)
  then show none: "se_handlers (du_srv d) = []" using duplex_step_stream [OF assms(1,2)] by blast
  show "se_offers (du_srv d) = []"
    using assms(1) none order_inv_no_handlers(1) by (auto simp: ordered_all_def)
qed

lemma live_inv_stream:
  assumes inv: "live_inv fmt certs l" and d: "duplex_step fmt lw metaOk certs (lv_duplex l) d"
    and hs: "se_handlers (du_srv d) = se_handlers (lv_srv l) @ hs"
    and es: "map Some es = new_entries (length (se_handlers (lv_srv l))) (se_stream (du_srv d))"
    and new: "list_all2 pack_init es new"
  shows "live_inv fmt certs \<lparr>lv_duplex = d, lv_entries = lv_entries l @ es,
    lv_packs = map (set_done (se_done (du_srv d))) (lv_packs l @ new)\<rparr>"
proof -
  note o = inv [unfolded live_inv_def, THEN conjunct1]
  note o' = ordered_all_step [OF o d] and off = duplex_step_offers [OF d hs]
  let ?k = "length (se_handlers (lv_srv l))"
  have k: "length (lv_packs l) = ?k" "length (lv_entries l) = ?k" using inv by (simp_all add: live_inv_def)
  have "length es = length (sd_handlers (se_stream (du_srv d))) - ?k"
    using arg_cong [OF es, of length] by (simp add: new_entries_def)
  moreover have "length (sd_handlers (se_stream (du_srv d))) = ?k + length hs"
    using ordered_all_srv [OF o'] hs by (simp add: srv_ok_def)
  ultimately have len: "length es = length hs" "length new = length hs"
    using list_all2_lengthD [OF new] by simp_all
  have "view_ok fmt (du_srv d) i (lv_entries l ! i) (set_done (se_done (du_srv d)) (lv_packs l ! i))" if "i < ?k" for i
  proof -
    have "se_handlers (lv_srv l) \<noteq> []" using that by auto
    then have "se_stream (du_srv d) = se_stream (lv_srv l)" by (rule duplex_step_stream [OF o d])
    then show ?thesis using inv that k off hs by (simp add: live_inv_def view_ok_def nth_append)
  qed
  moreover have "view_ok fmt (du_srv d) (?k + j) (es ! j) (set_done (se_done (du_srv d)) (new ! j))" if "j < length hs" for j
  proof -
    have "se_offers (du_srv d) = []" using first_handlers(2) [OF o d hs] off that by (cases hs) auto
    moreover have "hs ! j = HFirst" using off that nth_mem by fastforce
    moreover have "pack_init (es ! j) (new ! j)" using new that len by (simp add: list_all2_conv_all_nth)
    moreover from this have "pack_inv fmt n (es ! j) (new ! j)" for n by (rule pack.inv_init)
    ultimately show ?thesis using hs by (simp add: view_ok_def pack_init_def responses_def nth_append)
  qed
  ultimately have "view_ok fmt (du_srv d) i ((lv_entries l @ es) ! i) (set_done (se_done (du_srv d)) ((lv_packs l @ new) ! i))"
    if "i < ?k + length hs" for i
    using that k by (cases "i < ?k") (auto simp: nth_append not_less le_iff_add)
  then show ?thesis using o' k len hs by (simp add: live_inv_def flip: map_append)
qed

lemma same_move:
  assumes "hs[j := pc'] = hs[i := pc]" "hs ! j \<noteq> pc'" "hs ! i \<noteq> pc" "i < length hs" "j < length hs"
  shows "i = j \<and> pc = pc'"
  using assms by (metis nth_list_update_eq nth_list_update_neq)

lemma srv_go_move:
  assumes "srv_go fmt lw (s, up, down) (s', up', down')" "se_handlers s' = (se_handlers s)[i := pc]"
    and "i < length (se_handlers s)" "se_handlers s ! i \<noteq> pc"
  shows "se_stream s' = se_stream s" "se_done s' = se_done s"
    "case pc of HAck x \<Rightarrow> se_handlers s ! i = HOffer x \<and> se_offers s' = se_offers s @ [(handler_name s i, x)]
      | _ \<Rightarrow> se_offers s' = se_offers s"
proof -
  obtain j pc' where j: "j < length (se_handlers s)" "se_handlers s' = (se_handlers s)[j := pc']" "se_handlers s ! j \<noteq> pc'"
    and m: "se_stream s' = se_stream s" "se_done s' = se_done s"
      "case pc' of HAck x \<Rightarrow> se_handlers s ! j = HOffer x \<and> se_offers s' = se_offers s @ [(handler_name s j, x)]
        | _ \<Rightarrow> se_offers s' = se_offers s"
    using srv_go_moves [OF assms(1), unfolded fst_conv] not_moved [OF assms(3,4)] assms(2) by (elim disjE exE conjE) (metis, blast)
  have "i = j" "pc = pc'" using same_move [of "se_handlers s" j pc' i pc] j assms(2-4) by simp_all
  then show "se_stream s' = se_stream s" "se_done s' = se_done s"
    "case pc of HAck x \<Rightarrow> se_handlers s ! i = HOffer x \<and> se_offers s' = se_offers s @ [(handler_name s i, x)]
      | _ \<Rightarrow> se_offers s' = se_offers s"
    using m by (simp_all only:)
qed

lemma view_ok_other:
  assumes "view_ok fmt s j e p" "se_handlers s' ! j = se_handlers s ! j" "se_stream s' = se_stream s" "se_done s' = se_done s"
    and "se_offers s' = se_offers s \<or> (\<exists>n x. se_offers s' = se_offers s @ [(n, x)] \<and> n \<noteq> handler_name s j)"
  shows "view_ok fmt s' j e p"
  using assms by (auto simp: view_ok_def)

lemma live_inv_handler:
  assumes inv: "live_inv fmt certs l" and step: "srv_step fmt lw (lv_srv l, du_up (lv_duplex l), du_down (lv_duplex l)) (s, up, down)"
    and i: "i < length (lv_packs l)" "se_handlers s = (se_handlers (lv_srv l))[i := pc]" "se_handlers (lv_srv l) ! i \<noteq> pc"
    and p: "pack_step fmt (handler_name (lv_srv l) i) (lv_packs l ! i) p" "pack_at (pk_pc p) pc" "pk_done p = pk_done (lv_packs l ! i)"
  shows "live_inv fmt certs
    (l\<lparr>lv_duplex := (lv_duplex l)\<lparr>du_srv := s, du_up := up, du_down := down\<rparr>, lv_packs := (lv_packs l)[i := p]\<rparr>)"
proof -
  let ?hs = "se_handlers (lv_srv l)"
  note o = inv [unfolded live_inv_def, THEN conjunct1]
  have k: "length (lv_packs l) = length ?hs" using inv by (simp add: live_inv_def)
  have "srv_go fmt lw (lv_srv l, du_up (lv_duplex l), du_down (lv_duplex l)) (s, up, down)"
    using step by (simp add: srv_step_def)
  note m = srv_go_move [OF this i(2) _ i(3), folded k, OF i(1)]
  have view: "view_ok fmt (lv_srv l) j (lv_entries l ! j) (lv_packs l ! j)" if "j < length ?hs" for j
    using inv that k by (simp add: live_inv_def)
  have "view_ok fmt s i (lv_entries l ! i) p"
    by (rule view_ok_move [OF view p m(1,2)]) (use i k m(3) in \<open>auto split: handler_pc.splits\<close>)
  moreover have "view_ok fmt s j (lv_entries l ! j) (lv_packs l ! j)" if "j < length ?hs" "j \<noteq> i" for j
    by (rule view_ok_other [OF view [OF that(1)] _ m(1,2)])
      (use i k m(3) that handler_names_differ [OF o, of i j] in \<open>auto split: handler_pc.splits\<close>)
  moreover have "ordered_all fmt certs ((lv_duplex l)\<lparr>du_srv := s, du_up := up, du_down := down\<rparr>)"
    by (rule ordered_all_step [OF o du_server [OF step]])
  ultimately show ?thesis
    using inv i(1,2) k by (auto simp: live_inv_def nth_list_update)
qed

lemma live_inv_pack:
  assumes inv: "live_inv fmt certs l" and i: "i < length (lv_packs l)"
    and p: "pack_step fmt (handler_name (lv_srv l) i) (lv_packs l ! i) p" "pack_at (pk_pc p) (se_handlers (lv_srv l) ! i)"
      "pk_done p = pk_done (lv_packs l ! i)"
  shows "live_inv fmt certs (l\<lparr>lv_packs := (lv_packs l)[i := p]\<rparr>)"
proof -
  have "view_ok fmt (lv_srv l) i (lv_entries l ! i) p"
    by (rule view_ok_move [OF _ p]) (use inv i in \<open>auto simp: live_inv_def split: handler_pc.splits\<close>)
  then show ?thesis using inv i by (auto simp: live_inv_def nth_list_update)
qed

interpretation live: step_invariant "live_init certs" "live_step fmt lw metaOk certs" "live_inv fmt certs"
  for certs :: "'h watchingCert list" and fmt lw metaOk
proof
  fix l :: "'w live" assume "live_init certs l"
  then show "live_inv fmt certs l"
    using ordered_all_init [of certs "lv_duplex l"]
    by (auto simp: live_init_def live_inv_def duplex_init_def StreamSecrets_start_def)
next
  fix l l' :: "'w live" assume "live_inv fmt certs l" "live_step fmt lw metaOk certs l l'"
  from this(2,1) show "live_inv fmt certs l'"
    by (induction rule: live_step.induct) (blast intro: live_inv_stream live_inv_handler live_inv_pack)+
qed

text \<open>Only the watchers of the client's certificates are given anything.\<close>

definition delivered_ok :: "'h watchingCert list \<Rightarrow> cli_end \<Rightarrow> bool" where
  "delivered_ok certs c \<longleftrightarrow> length (ce_handlers c) = length certs \<and> (\<forall>(i, upd) \<in> set (ce_delivered c). i < length certs)"

lemma cli_step_delivered: "cli_step metaOk certs w w' \<Longrightarrow> delivered_ok certs (fst w) \<Longrightarrow> delivered_ok certs (fst w')"
  by (induction rule: cli_step.induct) (auto simp: delivered_ok_def)

lemma duplex_step_delivered:
  "duplex_step fmt lw metaOk certs d d' \<Longrightarrow> delivered_ok certs (du_cli d) \<Longrightarrow> delivered_ok certs (du_cli d')"
  by (induction rule: duplex_step.induct) (auto simp: delivered_ok_def dest!: cli_step_delivered)

interpretation delivered: step_invariant "live_init certs" "live_step fmt lw metaOk certs" "\<lambda>l. delivered_ok certs (du_cli (lv_duplex l))"
  for certs :: "'h watchingCert list" and fmt lw metaOk
proof
  fix l :: "'w live" assume "live_init certs l"
  then show "delivered_ok certs (du_cli (lv_duplex l))"
    by (auto simp: live_init_def duplex_init_def Stream_start_def Let_def delivered_ok_def)
next
  fix l l' :: "'w live" assume "delivered_ok certs (du_cli (lv_duplex l))" "live_step fmt lw metaOk certs l l'"
  from this(2,1) show "delivered_ok certs (du_cli (lv_duplex l'))"
    by (induction rule: live_step.induct) (auto intro: duplex_step_delivered)
qed

text \<open>With names of its own, a watcher is given what is given under its name.\<close>

definition given_updates :: "nat \<Rightarrow> cli_end \<Rightarrow> certData list" where
  "given_updates i c = map snd (filter (\<lambda>(j, upd). j = i) (ce_delivered c))"

lemma given_as_updates:
  assumes "delivered_ok certs c" "distinct (map cert_name certs)" "i < length certs"
  shows "given_as certs c (cert_name (certs ! i)) = map material (given_updates i c)"
proof -
  have "filter (\<lambda>(j, upd). cert_name (certs ! j) = cert_name (certs ! i)) (ce_delivered c) = filter (\<lambda>(j, upd). j = i) (ce_delivered c)"
  proof (rule filter_cong [OF refl], clarify)
    fix j upd assume "(j, upd) \<in> set (ce_delivered c)"
    then have "j < length certs" using assms(1) by (auto simp: delivered_ok_def)
    then show "cert_name (certs ! j) = cert_name (certs ! i) \<longleftrightarrow> j = i"
      using assms(2,3) nth_eq_iff_index_eq [of "map cert_name certs" j i] by simp
  qed
  then show ?thesis by (simp add: given_as_def given_updates_def case_prod_beta comp_def)
qed

section \<open>Properties\<close>

abbreviation cert_material :: "CertT \<Rightarrow> bytes \<times> bytes" where
  "cert_material x \<equiv> (c_FullChain x, c_Key x)"

definition resp_material :: "DiscoveryResponse \<Rightarrow> bytes \<times> bytes" where
  "resp_material r = (ds_CertificateChain r, ds_PrivateKey r)"

lemma resp_material_secret [simp]: "resp_material (secret_response fmt n x) = cert_material x"
  by (simp add: resp_material_def secret_response_def)

lemma offered_as_responses: "offered_as s n = map resp_material (responses fmt (se_offers s) n)"
  by (simp add: offered_as_def responses_def case_prod_beta comp_def)

lemma view_offered_resp:
  "view_ok fmt s i e p \<Longrightarrow> offered_as s (handler_name s i) = map resp_material (map snd (pk_offers p))"
  unfolding view_ok_def offered_as_responses [of s _ fmt] by simp

lemma view_offered:
  assumes "view_ok fmt s i e p"
  shows "offered_as s (handler_name s i) = map (\<lambda>k. cert_material ((e_cert e # pk_pubs p) ! k)) (map fst (pk_offers p))"
proof -
  have "pack_inv fmt (handler_name s i) e p" using assms by (simp add: view_ok_def)
  note offer = pack_inv_offer [OF this]
  show ?thesis
    unfolding view_offered_resp [OF assms] map_map
  proof (rule map_cong [OF refl])
    fix o' assume "o' \<in> set (pk_offers p)"
    then have "snd o' = secret_response fmt (handler_name s i) ((e_cert e # pk_pubs p) ! fst o')"
      using offer [of "fst o'" "snd o'"] by simp
    then show "(resp_material \<circ> snd) o' = ((\<lambda>k. cert_material ((e_cert e # pk_pubs p) ! k)) \<circ> fst) o'" by simp
  qed
qed

lemma live_inv_order:
  "live_inv fmt certs l \<Longrightarrow> order_inv certs (du_cli (lv_duplex l)) (lv_srv l, du_up (lv_duplex l), du_down (lv_duplex l))"
  by (simp add: live_inv_def ordered_all_def)

lemma live_inv_given:
  assumes inv: "live_inv fmt certs l" and view: "view_ok fmt (lv_srv l) j e p"
    and got: "got = given_as certs (du_cli (lv_duplex l)) (handler_name (lv_srv l) j)"
  shows "\<exists>ks. sorted_wrt (<) ks \<and> (\<forall>k \<in> set ks. k \<le> length (pk_pubs p)) \<and>
    got = map (\<lambda>k. cert_material ((e_cert e # pk_pubs p) ! k)) ks"
proof -
  let ?offers = "map fst (pk_offers p)" and ?cert = "\<lambda>k. cert_material ((e_cert e # pk_pubs p) ! k)"
  have p: "pack_inv fmt (handler_name (lv_srv l) j) e p" using view by (simp add: view_ok_def)
  obtain ms where "got @ ms = offered_as (lv_srv l) (handler_name (lv_srv l) j)"
    using live_inv_order [OF inv] unfolding order_inv_def got fst_conv by blast
  then have ms: "got @ ms = map ?cert ?offers" unfolding view_offered [OF view] .
  have "got = take (length got) (got @ ms)" by simp
  then have "got = map ?cert (take (length got) ?offers)" unfolding ms take_map .
  moreover have "sorted_wrt (<) (take (length got) ?offers)"
    using p by (simp add: pack_inv_def sorted_wrt_take)
  moreover have "\<forall>k \<in> set (take (length got) ?offers). k \<le> length (pk_pubs p)"
    using pack_inv_offer [OF p] by (fastforce dest: in_set_takeD)
  ultimately show ?thesis by blast
qed

lemma live_inv_current:
  assumes inv: "live_inv fmt certs l" and j: "j < length (lv_packs l)" and view: "view_ok fmt (lv_srv l) j e p"
    and got: "got = given_as certs (du_cli (lv_duplex l)) (handler_name (lv_srv l) j)"
    and a: "pk_pc p = PUpdate cert seen k" "seen = e_version (pk_entry p)" "length (pk_pubs p) < 2 ^ 64"
  shows "got \<noteq> [] \<and> last got = cert_material (e_cert (pk_entry p))"
proof -
  have p: "pack_inv fmt (handler_name (lv_srv l) j) e p" using view by (simp add: view_ok_def)
  have "se_handlers (lv_srv l) ! j = HWait" using view a(1) by (simp add: view_ok_def)
  then have "got = offered_as (lv_srv l) (handler_name (lv_srv l) j)"
    using live_inv_order [OF inv] j inv by (simp add: got order_inv_def live_inv_def)
  also note view_offered_resp [OF view]
  finally have "got = map resp_material (map snd (pk_offers p))" .
  moreover have "pk_offers p \<noteq> []" using p a(1) by (auto simp: pack_inv_def pc_inv_def)
  ultimately show ?thesis
    using pack_inv_current [OF p a] by (simp add: last_map)
qed

lemma live_inv_names:
  assumes inv: "live_inv fmt certs l" and "(i, upd) \<in> set (ce_delivered (du_cli (lv_duplex l)))"
  shows "\<exists>k < length (lv_packs l). handler_name (lv_srv l) k = cert_name (certs ! i)"
proof -
  note o = live_inv_order [OF inv]
  have "given_as certs (du_cli (lv_duplex l)) (cert_name (certs ! i)) \<noteq> []"
    using assms(2) by (force simp: given_as_def filter_empty_conv)
  then have "offered_as (lv_srv l) (cert_name (certs ! i)) \<noteq> []"
    using o unfolding order_inv_def fst_conv by (metis append_is_Nil_conv)
  then obtain x where "(cert_name (certs ! i), x) \<in> set (se_offers (lv_srv l))"
    by (auto simp: offered_as_def filter_empty_conv)
  then show ?thesis
    using o inv by (fastforce simp: order_inv_def live_inv_def)
qed

text \<open>
  C6: What a watcher gets over a stream. Take a pack of a stream between a certdx server and a certdx
  client, the entry of its domains as it was when the stream began, and the certificates that were
  published there since. Whatever the schedule and however the stream ends, the certificates that
  the watcher of the pack's name has been given are some of these, in the order of their publication
  and none of them twice; nobody is given anything under a name that is not a pack's. When the
  server's handler waits for the next renewal and there has been none since the version it saw, the
  last one given is the certificate that the entry holds (until the counter of 64 bits wraps).
\<close>

theorem sds_delivers_in_order:
  assumes "live_init certs l\<^sub>0" "(live_step fmt lw metaOk certs)\<^sup>*\<^sup>* l\<^sub>0 l"
    and "j < length (lv_packs l)" "p = lv_packs l ! j" "e = lv_entries l ! j"
    and "got = given_as certs (du_cli (lv_duplex l)) (handler_name (lv_srv l) j)"
  shows "(\<exists>ks. sorted_wrt (<) ks \<and> (\<forall>k \<in> set ks. k \<le> length (pk_pubs p)) \<and>
       got = map (\<lambda>k. cert_material ((e_cert e # pk_pubs p) ! k)) ks) \<and>
    (\<forall>cert seen k. pk_pc p = PUpdate cert seen k \<longrightarrow> seen = e_version (pk_entry p) \<longrightarrow> length (pk_pubs p) < 2 ^ 64 \<longrightarrow>
       got \<noteq> [] \<and> last got = cert_material (e_cert (pk_entry p))) \<and>
    (\<forall>(i, upd) \<in> set (ce_delivered (du_cli (lv_duplex l))).
       \<exists>k < length (lv_packs l). handler_name (lv_srv l) k = cert_name (certs ! i))"
proof -
  have inv: "live_inv fmt certs l" using live.inv_reachable [OF assms(1,2)] .
  then have view: "view_ok fmt (lv_srv l) j e p" using assms(3-5) by (simp add: live_inv_def)
  show ?thesis
    using live_inv_given [OF inv view assms(6)] live_inv_current [OF inv assms(3) view assms(6)] live_inv_names [OF inv]
    by blast
qed

text \<open>A run in which a certificate is published, reaches its watcher and is acknowledged.\<close>

definition at_live :: "'w srv_end \<Rightarrow> DiscoveryRequest list \<Rightarrow> sds_response list \<Rightarrow> cli_end \<Rightarrow> certEntry list \<Rightarrow> pack list \<Rightarrow> 'w live" where
  "at_live s up down c es ps =
     \<lparr>lv_duplex = \<lparr>du_srv = s, du_up = up, du_down = down, du_cli = c\<rparr>, lv_entries = es, lv_packs = ps\<rparr>"

lemma run_stream:
  assumes "(live_step fmt lw metaOk certs)\<^sup>*\<^sup>* l (at_live s up down c es ps)"
    and "duplex_step fmt lw metaOk certs \<lparr>du_srv = s, du_up = up, du_down = down, du_cli = c\<rparr> \<lparr>du_srv = s', du_up = up', du_down = down', du_cli = c'\<rparr>"
    and "se_handlers s' = se_handlers s" "length (sd_handlers (se_stream s')) = length (se_handlers s)"
    and "map (set_done (se_done s')) ps = ps"
  shows "(live_step fmt lw metaOk certs)\<^sup>*\<^sup>* l (at_live s' up' down' c' es ps)"
proof -
  have "live_step fmt lw metaOk certs (at_live s up down c es ps) (at_live s' up' down' c' es ps)"
    using lv_stream [where l = "at_live s up down c es ps" and hs = "[]" and es = "[]" and new = "[]",
        of _ _ _ _ "\<lparr>du_srv = s', du_up = up', du_down = down', du_cli = c'\<rparr>"] assms(2-5)
    by (simp add: at_live_def new_entries_def)
  then show ?thesis by (rule rtranclp.rtrancl_into_rtrancl [OF assms(1)])
qed

lemma run_stream_srv:
  assumes "(live_step fmt lw metaOk certs)\<^sup>*\<^sup>* l (at_live s up down c es ps)"
    and "srv_go fmt lw (s, up, down) (s', up', down')" "\<not> se_crashed s"
    and "se_handlers s' = se_handlers s" "length (sd_handlers (se_stream s')) = length (se_handlers s)"
    and "map (set_done (se_done s')) ps = ps"
  shows "(live_step fmt lw metaOk certs)\<^sup>*\<^sup>* l (at_live s' up' down' c es ps)"
proof (rule run_stream [OF assms(1) _ assms(4-6)])
  show "duplex_step fmt lw metaOk certs \<lparr>du_srv = s, du_up = up, du_down = down, du_cli = c\<rparr> \<lparr>du_srv = s', du_up = up', du_down = down', du_cli = c\<rparr>"
    using du_server [of fmt lw "\<lparr>du_srv = s, du_up = up, du_down = down, du_cli = c\<rparr>" s' up' down'] assms(2,3)
    by (simp add: srv_step_def)
qed

lemma run_stream_cli:
  assumes "(live_step fmt lw metaOk certs)\<^sup>*\<^sup>* l (at_live s up down c es ps)"
    and "cli_step metaOk certs (c, up, down) (c', up', down')"
    and "length (sd_handlers (se_stream s)) = length (se_handlers s)" "map (set_done (se_done s)) ps = ps"
  shows "(live_step fmt lw metaOk certs)\<^sup>*\<^sup>* l (at_live s up' down' c' es ps)"
proof (rule run_stream [OF assms(1) _ refl assms(3,4)])
  show "duplex_step fmt lw metaOk certs \<lparr>du_srv = s, du_up = up, du_down = down, du_cli = c\<rparr> \<lparr>du_srv = s, du_up = up', du_down = down', du_cli = c'\<rparr>"
    using du_client [of metaOk certs "\<lparr>du_srv = s, du_up = up, du_down = down, du_cli = c\<rparr>" c' up' down'] assms(2) by simp
qed

lemma run_handler:
  assumes "(live_step fmt lw metaOk certs)\<^sup>*\<^sup>* l (at_live s up down c es [p])"
    and "srv_go fmt lw (s, up, down) (s', up', down')" "\<not> se_crashed s" "se_handlers s = [pc]" "se_handlers s' = [pc']" "pc \<noteq> pc'"
    and "pack_step fmt (handler_name s 0) p p'" "pack_at (pk_pc p') pc'" "pk_done p' = pk_done p"
  shows "(live_step fmt lw metaOk certs)\<^sup>*\<^sup>* l (at_live s' up' down' c es [p'])"
proof -
  have "live_step fmt lw metaOk certs (at_live s up down c es [p]) (at_live s' up' down' c es [p'])"
    using lv_handler [where l = "at_live s up down c es [p]" and i = 0 and pc = pc' and p = p', of _ _ s' up' down'] assms(2-9)
    by (simp add: at_live_def srv_step_def)
  then show ?thesis by (rule rtranclp.rtrancl_into_rtrancl [OF assms(1)])
qed

lemma run_pack:
  assumes "(live_step fmt lw metaOk certs)\<^sup>*\<^sup>* l (at_live s up down c es [p])"
    and "pack_step fmt (handler_name s 0) p p'" "pack_at (pk_pc p') (se_handlers s ! 0)" "pk_done p' = pk_done p"
  shows "(live_step fmt lw metaOk certs)\<^sup>*\<^sup>* l (at_live s up down c es [p'])"
proof -
  have "live_step fmt lw metaOk certs (at_live s up down c es [p]) (at_live s up down c es [p'])"
    using lv_pack [where l = "at_live s up down c es [p]" and i = 0 and p = p'] assms(2-4) by (simp add: at_live_def)
  then show ?thesis by (rule rtranclp.rtrancl_into_rtrancl [OF assms(1)])
qed

abbreviation ex_fmt :: "time \<Rightarrow> string" where
  "ex_fmt \<equiv> \<lambda>t. ''v''"

abbreviation ex_reach :: "nat live \<Rightarrow> nat live \<Rightarrow> bool" where
  "ex_reach \<equiv> (live_step ex_fmt id True [ex_watch])\<^sup>*\<^sup>*"

definition ex_live :: "nat live" where
  "ex_live = at_live (StreamSecrets_start ex_sds_server) [] [] ex_client [] []"

definition ex_srv_at :: "nat sds_stream \<Rightarrow> handler_pc \<Rightarrow> nat srv_end" where
  "ex_srv_at st pc = (StreamSecrets_start ex_sds_server)\<lparr>se_stream := st, se_handlers := [pc]\<rparr>"

definition ex_pack :: "certEntry \<Rightarrow> pack" where
  "ex_pack e = \<lparr>pk_entry = e, pk_pc = PSubscribe, pk_now = 5, pk_done = False, pk_pubs = [], pk_offers = []\<rparr>"

abbreviation ex_idle :: cli_end where
  "ex_idle \<equiv> ex_client\<lparr>ce_sender := CSIdle\<rparr>"

lemma ex_live_init: "live_init [ex_watch] ex_live"
  using ex_duplex_init by (simp add: live_init_def ex_live_def at_live_def ex_duplex_def)

lemma ex_stream:
  "\<exists>st k e. recv_request id id (packReq [ex_watch]) (new_stream ex_sds_server) = ([], None, st) \<and>
     sd_handlers st = [(''n'', [''a.b''], k)] \<and> stream_ok st \<and> sv_cache (sd_srv st) k = Some e"
proof -
  obtain st k where st: "recv_request id id (packReq [ex_watch]) (new_stream ex_sds_server) = ([], None, st)"
    "sd_handlers st = [(''n'', [''a.b''], k)]" using ex_recv by blast
  have "stream_inv id {} (new_stream ex_sds_server)" by (simp add: stream_inv_def new_stream_def)
  from recv_request_inv [OF this _ st(1)] have "sv_cache (sd_srv st) k \<noteq> None" using st(2) by (auto simp: stream_inv_def)
  moreover have "stream_ok st"
    using recv_first [OF _ _ _ st(1)] by (simp add: stream_ok_def new_stream_def)
  ultimately show ?thesis using st by auto
qed

lemma ex_started:
  assumes st: "recv_request id id (packReq [ex_watch]) (new_stream ex_sds_server) = ([], None, st)"
    "sd_handlers st = [(''n'', [''a.b''], k)]" "sv_cache (sd_srv st) k = Some e"
  shows "ex_reach ex_live (at_live (ex_srv_at st HFirst) [] [] ex_idle [e] [ex_pack e])"
proof -
  let ?s = "StreamSecrets_start ex_sds_server" and ?q = "packReq [ex_watch]"
  note S = StreamSecrets_start_def ex_client_def new_stream_def
  have "ex_reach ex_live (at_live ?s [] [] ex_client [] [])" by (simp add: ex_live_def)
  then have "ex_reach ex_live (at_live ?s [?q] [] ex_idle [] [])"
    by (rule run_stream_cli) (use csend_first [of ex_client True "[ex_watch]" "[]" "[]"] in \<open>simp_all add: S\<close>)
  then have "ex_reach ex_live (at_live (?s\<lparr>se_receiver := RRecv\<rparr>) [?q] [] ex_idle [] [])"
    by (rule run_stream_srv) (use recv_calls [of ?s ex_fmt id "[?q]" "[]"] in \<open>simp_all add: S\<close>)
  then have "ex_reach ex_live (at_live (?s\<lparr>se_receiver := RHand ?q [] None st\<rparr>) [] [] ex_idle [] [])"
    by (rule run_stream_srv)
      (use recv_gets [of "?s\<lparr>se_receiver := RRecv\<rparr>" id id ?q "[]" None st ex_fmt "[]" "[]"] st(1) in \<open>simp_all add: S\<close>)
  moreover have "live_step ex_fmt id True [ex_watch] (at_live (?s\<lparr>se_receiver := RHand ?q [] None st\<rparr>) [] [] ex_idle [] [])
      (at_live (ex_srv_at st HFirst) [] [] ex_idle [e] [ex_pack e])"
    using lv_stream [where l = "at_live (?s\<lparr>se_receiver := RHand ?q [] None st\<rparr>) [] [] ex_idle [] []" and hs = "[HFirst]"
        and es = "[e]" and new = "[ex_pack e]" and d = "\<lparr>du_srv = ex_srv_at st HFirst, du_up = [], du_down = [], du_cli = ex_idle\<rparr>", of ex_fmt id True "[ex_watch]"]
      du_server [of ex_fmt id "\<lparr>du_srv = ?s\<lparr>se_receiver := RHand ?q [] None st\<rparr>, du_up = [], du_down = [], du_cli = ex_idle\<rparr>" "ex_srv_at st HFirst" "[]" "[]" True "[ex_watch]"]
      recv_starts [of "?s\<lparr>se_receiver := RHand ?q [] None st\<rparr>" ?q st ex_fmt id "[]" "[]"] st(2,3)
    by (simp add: at_live_def srv_step_def ex_srv_at_def S new_entries_def ex_pack_def pack_init_def set_done_def)
  ultimately show ?thesis by (rule rtranclp.rtrancl_into_rtrancl)
qed

abbreviation ex_resp :: DiscoveryResponse where
  "ex_resp \<equiv> secret_response ex_fmt ''n'' example_cert"

abbreviation ex_offering :: "certEntry \<Rightarrow> 64 word \<Rightarrow> pack" where
  "ex_offering e v \<equiv> \<lparr>pk_entry = e, pk_pc = PAck ''v'' example_cert v 1, pk_now = 5, pk_done = False, pk_pubs = [example_cert],
     pk_offers = [(1, ex_resp)]\<rparr>"

abbreviation ex_offered :: "nat sds_stream \<Rightarrow> handler_pc \<Rightarrow> nat srv_end" where
  "ex_offered st pc \<equiv> (ex_srv_at st pc)\<lparr>se_offers := [(''n'', example_cert)]\<rparr>"

lemma ex_offer:
  assumes run: "ex_reach ex_live (at_live (ex_srv_at st HFirst) [] [] ex_idle [e] [ex_pack e])"
    and st: "sd_handlers st = [(''n'', [''a.b''], k)]"
    and e: "publish example_cert 1 e = (old, e1)" "subscribe 0 e1 = (started, e2)" "Snapshot e2 = (example_cert, v)"
  shows "ex_reach ex_live (at_live (ex_offered st (HAck example_cert)) [] [wire ex_resp] ex_idle [e] [ex_offering e2 v])"
proof -
  let ?x = example_cert and ?p1 = "(ex_pack e)\<lparr>pk_entry := e1, pk_pubs := [example_cert]\<rparr>"
  let ?p2 = "?p1\<lparr>pk_entry := e2, pk_pc := PFirst\<rparr>" and ?p3 = "?p1\<lparr>pk_entry := e2, pk_pc := POffer example_cert v 1\<rparr>"
  have valid: "IsValid 5 ?x" by (simp add: IsValid_def example_cert_def)
  note S = StreamSecrets_start_def ex_srv_at_def ex_pack_def st
  have "ex_reach ex_live (at_live (ex_srv_at st HFirst) [] [] ex_idle [e] [?p1])"
    by (rule run_pack [OF run]) (use renewal [of ?x 1 "ex_pack e" old e1] e(1) in \<open>simp_all add: S\<close>)
  then have "ex_reach ex_live (at_live (ex_srv_at st HFirst) [] [] ex_idle [e] [?p2])"
    by (rule run_pack) (use subscribes [of ?p1 0 started e2] e(2) in \<open>simp_all add: S\<close>)
  then have "ex_reach ex_live (at_live (ex_srv_at st (HOffer ?x)) [] [] ex_idle [e] [?p3])"
    by (rule run_handler [where pc = HFirst and pc' = "HOffer example_cert"])
      (use valid first_valid [of ?p2 ?x v ex_fmt "''n''"] e(3) handler_offers [where s = "ex_srv_at st HFirst" and i = 0 and fmt = ex_fmt
          and lw = id and up = "[]" and down = "[]" and x = ?x] in \<open>simp_all add: S\<close>)
  then have "ex_reach ex_live (at_live ((ex_offered st (HAck ?x))\<lparr>se_sender := SSend ex_resp\<rparr>) [] [] ex_idle [e] [ex_offering e2 v])"
    by (rule run_handler [where pc = "HOffer example_cert" and pc' = "HAck example_cert"])
      (use offers [of ?p3 ?x v 1 ex_fmt "''n''"] send_take [where s = "ex_srv_at st (HOffer ?x)" and i = 0 and x = ?x and fmt = ex_fmt
          and lw = id and up = "[]" and down = "[]"] in \<open>simp_all add: S\<close>)
  then show ?thesis
    by (rule run_stream_srv)
      (use send_ok [of "(ex_offered st (HAck ?x))\<lparr>se_sender := SSend ex_resp\<rparr>" ex_resp ex_fmt id "[]" "[]"] in
        \<open>simp_all add: S set_done_def\<close>)
qed

abbreviation ex_update :: certData where
  "ex_update \<equiv> \<lparr>cd_Domains = [''a.b''], cd_Fullchain = ''c'', cd_Key = ''k''\<rparr>"

abbreviation ex_ack :: DiscoveryRequest where
  "ex_ack \<equiv> \<lparr>dr_TypeUrl = typeUrl, dr_VersionInfo = ''v'', dr_Node = None, dr_ResourceNames = [''n''], dr_ErrorDetail = None\<rparr>"

abbreviation ex_given :: cli_end where
  "ex_given \<equiv> ex_idle\<lparr>ce_client := (ce_client ex_client)\<lparr>gc_Received := 1\<rparr>, ce_delivered := [(0, ex_update)]\<rparr>"

lemma ex_deliver:
  assumes run: "ex_reach ex_live (at_live s [] [wire ex_resp] ex_idle [e] [p])"
    and s: "length (sd_handlers (se_stream s)) = length (se_handlers s)" "set_done (se_done s) p = p"
  shows "ex_reach ex_live (at_live s [ex_ack] [] ex_given [e] [p])"
proof -
  let ?w = "[ex_watch]" and ?d = "\<lparr>rd_Version = ''v'', rd_Secret = \<lparr>sec_Name = ''n'', sec_Type = TlsCertificate ''c'' ''k''\<rparr>\<rparr>"
  let ?c2 = "ex_idle\<lparr>ce_client := (ce_client ex_client)\<lparr>gc_Received := 1\<rparr>\<rparr>"
  note S = ex_client_def s
  note run_cli = run_stream_cli [OF _ _ s(1)]
  have "ex_reach ex_live (at_live s [] [wire ex_resp] (ex_idle\<lparr>ce_receiver := CRecv\<rparr>) [e] [p])"
    by (rule run_cli [OF run]) (use crecv_calls [of ex_idle True ?w "[]" "[wire ex_resp]"] in \<open>simp_all add: S\<close>)
  then have "ex_reach ex_live (at_live s [] [] (?c2\<lparr>ce_receiver := CHand 0 ?d\<rparr>) [e] [p])"
    by (rule run_cli) (use crecv_gets [of "ex_idle\<lparr>ce_receiver := CRecv\<rparr>" ?w "wire ex_resp" "ce_client ?c2" "''n''" ?d 0 True "[]" "[]"]
      in \<open>simp_all add: S client_dispatch_def ex_watch_def example_certification_def recv_response_def wire_def
        secret_response_def example_cert_def Let_def\<close>)
  then have "ex_reach ex_live (at_live s [] [] (?c2\<lparr>ce_handlers := [CUpdate ex_update ex_ack]\<rparr>) [e] [p])"
    by (rule run_cli) (use crecv_hands [of "?c2\<lparr>ce_receiver := CHand 0 ?d\<rparr>" 0 ?d ?w ex_update ex_ack True "[]" "[]"]
      in \<open>simp_all add: S client_handleCert_def ex_watch_def example_certification_def\<close>)
  then have "ex_reach ex_live (at_live s [] [] (ex_given\<lparr>ce_handlers := [CAck ex_ack]\<rparr>) [e] [p])"
    by (rule run_cli) (use chandler_updates [where c = "?c2\<lparr>ce_handlers := [CUpdate ex_update ex_ack]\<rparr>" and i = 0
        and upd = ex_update and ack = ex_ack and metaOk = True and certs = ?w and up = "[]" and down = "[]"] in \<open>simp_all add: S\<close>)
  then have "ex_reach ex_live (at_live s [] [] (ex_given\<lparr>ce_sender := CSSend ex_ack\<rparr>) [e] [p])"
    by (rule run_cli) (use chandler_acks [where c = "ex_given\<lparr>ce_handlers := [CAck ex_ack]\<rparr>" and i = 0 and ack = ex_ack
        and metaOk = True and certs = ?w and up = "[]" and down = "[]"] in \<open>simp_all add: S\<close>)
  then show ?thesis
    by (rule run_cli) (use csend_ok [of "ex_given\<lparr>ce_sender := CSSend ex_ack\<rparr>" ex_ack True ?w "[]" "[]"] in \<open>simp_all add: S\<close>)
qed

lemma ex_acked:
  assumes run: "ex_reach ex_live (at_live (ex_offered st (HAck example_cert)) [ex_ack] [] ex_given [e] [ex_offering e2 v])"
    and st: "sd_handlers st = [(''n'', [''a.b''], k)]" "stream_ok st"
  shows "\<exists>s. ex_reach ex_live (at_live s [] [] ex_given [e] [(ex_offering e2 v)\<lparr>pk_pc := PUpdate example_cert v 1\<rparr>]) \<and> se_stream s = st"
proof -
  let ?s = "ex_offered st (HAck example_cert)"
  have d: "sd_dispatch st ''n'' = Some 0" using st by (simp add: stream_ok_def)
  then have r: "recv_request id id ex_ack st = ([''n''], None, st)"
    using recv_ack [of id ex_ack "''n''" st 0 id] st by (simp add: is_ack_def)
  note S = StreamSecrets_start_def ex_srv_at_def st(1) set_done_def
  have "ex_reach ex_live (at_live (?s\<lparr>se_receiver := RRecv\<rparr>) [ex_ack] [] ex_given [e] [ex_offering e2 v])"
    by (rule run_stream_srv [OF run]) (use recv_calls [of ?s ex_fmt id "[ex_ack]" "[]"] in \<open>simp_all add: S\<close>)
  then have "ex_reach ex_live (at_live (?s\<lparr>se_receiver := RHand ex_ack [''n''] None st\<rparr>) [] [] ex_given [e] [ex_offering e2 v])"
    by (rule run_stream_srv)
      (use recv_gets [of "?s\<lparr>se_receiver := RRecv\<rparr>" id id ex_ack "[''n'']" None st ex_fmt "[]" "[]"] r in \<open>simp_all add: S\<close>)
  then have "ex_reach ex_live (at_live (ex_offered st HWait\<lparr>se_receiver := RHand ex_ack [] None st\<rparr>) [] [] ex_given [e]
      [(ex_offering e2 v)\<lparr>pk_pc := PUpdate example_cert v 1\<rparr>])"
    by (rule run_handler [where pc = "HAck example_cert" and pc' = HWait])
      (use recv_acks [where s = "?s\<lparr>se_receiver := RHand ex_ack [''n''] None st\<rparr>" and req = ex_ack and n = "''n''" and acks = "[]" and err = None
          and st = st and i = 0 and x = example_cert and fmt = ex_fmt and lw = id and up = "[]" and down = "[]"]
        acked [of "ex_offering e2 v" "''v''" example_cert v 1 ex_ack ex_fmt "''n''"] d in \<open>simp_all add: S\<close>)
  then show ?thesis by (intro exI conjI) (assumption, simp add: ex_srv_at_def)
qed

lemma ex_live_run:
  "\<exists>s e e2 v. ex_reach ex_live (at_live s [] [] ex_given [e] [(ex_offering e2 v)\<lparr>pk_pc := PUpdate example_cert v 1\<rparr>]) \<and>
     handler_name s 0 = ''n'' \<and> Snapshot e2 = (example_cert, v)"
proof -
  obtain st k e where st: "recv_request id id (packReq [ex_watch]) (new_stream ex_sds_server) = ([], None, st)"
    "sd_handlers st = [(''n'', [''a.b''], k)]" "stream_ok st" "sv_cache (sd_srv st) k = Some e" using ex_stream by blast
  obtain old e1 where e1: "publish example_cert 1 e = (old, e1)" by fastforce
  obtain started e2 where e2: "subscribe 0 e1 = (started, e2)" by fastforce
  have snap: "Snapshot e2 = (example_cert, e_version e2)"
    using snap_publish [OF e1] Snapshot_frames(1) [OF e2] by (simp add: Snapshot_def)
  have "ex_reach ex_live (at_live (ex_offered st (HAck example_cert)) [ex_ack] [] ex_given [e] [ex_offering e2 (e_version e2)])"
    by (rule ex_deliver [OF ex_offer [OF ex_started [OF st(1,2,4)] st(2) e1 e2 snap]])
      (simp_all add: ex_srv_at_def StreamSecrets_start_def st(2) set_done_def)
  from ex_acked [OF this st(2,3)] show ?thesis using st(2) snap by force
qed

theorem sds_delivers_in_order_witness:
  "\<exists>l. ex_reach ex_live l \<and> length (lv_packs l) = 1 \<and> pk_pubs (lv_packs l ! 0) = [example_cert] \<and>
     last (given_as [ex_watch] (du_cli (lv_duplex l)) ''n'') = cert_material example_cert"
proof -
  obtain s e e2 v where run: "ex_reach ex_live (at_live s [] [] ex_given [e] [(ex_offering e2 v)\<lparr>pk_pc := PUpdate example_cert v 1\<rparr>])"
    and s: "handler_name s 0 = ''n''" "Snapshot e2 = (example_cert, v)" using ex_live_run by blast
  let ?p = "(ex_offering e2 v)\<lparr>pk_pc := PUpdate example_cert v 1\<rparr>"
  from sds_delivers_in_order [OF ex_live_init run, of 0 ?p e "given_as [ex_watch] ex_given ''n''"]
  have "last (given_as [ex_watch] ex_given ''n'') = cert_material example_cert"
    using s by (simp add: at_live_def Snapshot_def ex_watch_def example_certification_def)
  then show ?thesis
    using run by (intro exI [of _ "at_live s [] [] ex_given [e] [?p]"]) (simp add: at_live_def)
qed

end
