(* ===== verification/Https.thy ===== *)
theory Https
  imports Sds_Server Http_Server Mtls_Tools
begin

text \<open>
  The listeners of the server: \<open>serveHttps\<close>, \<open>serveHttp\<close> and \<open>serveHttpMtls\<close> of
  \<open>pkg/server/http.go\<close> and \<open>SDSSrv\<close> of \<open>pkg/server/sds.go\<close>. The HTTPS listener binds again with the
  new certificate whenever its own certificate is renewed; it is a step relation on the entry of
  its names, with the goroutine that waits for the renewal. A listener is represented by what
  \<open>listen\<close> returns.
\<close>

section \<open>Listeners that never bind again\<close>

definition serveHttp :: "listen_result \<Rightarrow> string option" where
  "serveHttp listen = runHTTPServer listen"

definition serveHttpMtls ::
    "(bytes \<Rightarrow> bool) \<Rightarrow> (pemBlock list \<Rightarrow> string + 't) \<Rightarrow> tool_fs \<Rightarrow> ServerConfig \<Rightarrow> ('t tls_config \<Rightarrow> listen_result) \<Rightarrow>
     string option" where
  "serveHttpMtls parses pair fs c listen =
     (case LoadServer parses pair (mt_PEM (sc_MTLS c)) fs of
        Inl e \<Rightarrow> Some e
      | Inr mtlsConfig \<Rightarrow> runHTTPServer (listen mtlsConfig))"

datatype serve_result = ServeNil | ErrServerStopped | ServeErr string

text \<open>\<open>listenErr\<close>: the error of \<open>net.Listen\<close>. \<open>ErrServerStopped\<close> is the result of \<open>grpcServer.Stop\<close>,
  which the done root context triggers.\<close>

definition SDSSrv ::
    "(bytes \<Rightarrow> bool) \<Rightarrow> (pemBlock list \<Rightarrow> string + 't) \<Rightarrow> tool_fs \<Rightarrow> ServerConfig \<Rightarrow> string option \<Rightarrow>
     ('t tls_config \<Rightarrow> serve_result) \<Rightarrow> string option" where
  "SDSSrv parses pair fs c listenErr serve =
     (case LoadServer parses pair (mt_PEM (sc_MTLS c)) fs of
        Inl e \<Rightarrow> Some e
      | Inr mtlsConfig \<Rightarrow>
          (case listenErr of
             Some e \<Rightarrow> Some e
           | None \<Rightarrow> (case serve mtlsConfig of ServeErr e \<Rightarrow> Some e | _ \<Rightarrow> None)))"

section \<open>The HTTPS listener\<close>

datatype https_pc =
    HSubscribe
  | HFirst
  | HCheck CertT nat
  | HInitWait
  | HInitSnap
  | HLoop CertT nat
  | HServe CertT nat
  | HDown
  | HReturn "string option"

text \<open>The numbers are history: the renewals published when the certificate in use, or the version
  in \<open>seen\<close>, was read. \<open>ht_watching\<close>: the goroutine of the iteration is inside \<open>WaitForUpdate\<close>;
  \<open>ht_iterDone\<close>: it has cancelled the context of the iteration.\<close>

record https =
  ht_entry :: certEntry
  ht_pc :: https_pc
  ht_seen :: "64 word"
  ht_seenN :: nat
  ht_watching :: bool
  ht_iterDone :: bool
  ht_now :: time
  ht_done :: bool
  ht_pubs :: "CertT list"

text \<open>\<open>pairs\<close> says whether \<open>tls.X509KeyPair\<close> accepts a certificate.\<close>

inductive https_step :: "(CertT \<Rightarrow> bool) \<Rightarrow> https \<Rightarrow> https \<Rightarrow> bool" for pairs where
  h_renewal: "publish cert ch (ht_entry p) = (old, e) \<Longrightarrow>
    https_step pairs p (p\<lparr>ht_entry := e, ht_pubs := ht_pubs p @ [cert]\<rparr>)"
| h_time: "0 \<le> d \<Longrightarrow> https_step pairs p (p\<lparr>ht_now := ht_now p + d\<rparr>)"
| h_stop: "https_step pairs p (p\<lparr>ht_done := True\<rparr>)"
| h_subscribes: "ht_pc p = HSubscribe \<Longrightarrow> subscribe ctx (ht_entry p) = (st, e) \<Longrightarrow>
    https_step pairs p (p\<lparr>ht_entry := e, ht_pc := HFirst\<rparr>)"
| h_first: "ht_pc p = HFirst \<Longrightarrow> Snapshot (ht_entry p) = (cert, seen) \<Longrightarrow>
    https_step pairs p (p\<lparr>ht_pc := HCheck cert (length (ht_pubs p)), ht_seen := seen, ht_seenN := length (ht_pubs p)\<rparr>)"
| h_invalid: "ht_pc p = HCheck cert n \<Longrightarrow> \<not> IsValid (ht_now p) cert \<Longrightarrow>
    https_step pairs p (p\<lparr>ht_pc := HInitWait\<rparr>)"
| h_valid: "ht_pc p = HCheck cert n \<Longrightarrow> IsValid (ht_now p) cert \<Longrightarrow>
    https_step pairs p (p\<lparr>ht_pc := HLoop cert n\<rparr>)"
| h_init_wakes: "ht_pc p = HInitWait \<Longrightarrow> e_version (ht_entry p) \<noteq> ht_seen p \<Longrightarrow> \<not> ht_done p \<Longrightarrow>
    https_step pairs p (p\<lparr>ht_pc := HInitSnap, ht_seen := e_version (ht_entry p), ht_seenN := length (ht_pubs p)\<rparr>)"
| h_init_ends: "ht_pc p = HInitWait \<Longrightarrow> ht_done p \<Longrightarrow> release (ht_entry p) = (cn, e) \<Longrightarrow>
    https_step pairs p (p\<lparr>ht_entry := e, ht_pc := HReturn None\<rparr>)"
| h_init_snaps: "ht_pc p = HInitSnap \<Longrightarrow> Snapshot (ht_entry p) = (cert, v) \<Longrightarrow>
    https_step pairs p (p\<lparr>ht_pc := HCheck cert (length (ht_pubs p))\<rparr>)"
| h_loop_ends: "ht_pc p = HLoop cert n \<Longrightarrow> ht_done p \<Longrightarrow> release (ht_entry p) = (cn, e) \<Longrightarrow>
    https_step pairs p (p\<lparr>ht_entry := e, ht_pc := HReturn None\<rparr>)"
| h_bad_pair: "ht_pc p = HLoop cert n \<Longrightarrow> \<not> ht_done p \<Longrightarrow> \<not> pairs cert \<Longrightarrow> release (ht_entry p) = (cn, e) \<Longrightarrow>
    https_step pairs p (p\<lparr>ht_entry := e, ht_pc := HReturn (Some ''load HTTPS certificate'')\<rparr>)"
| h_binds: "ht_pc p = HLoop cert n \<Longrightarrow> \<not> ht_done p \<Longrightarrow> pairs cert \<Longrightarrow>
    https_step pairs p (p\<lparr>ht_pc := HServe cert n, ht_watching := True, ht_iterDone := False\<rparr>)"
| h_watch_wakes: "ht_watching p \<Longrightarrow> e_version (ht_entry p) \<noteq> ht_seen p \<or> ht_done p \<Longrightarrow>
    https_step pairs p (p\<lparr>ht_watching := False, ht_iterDone := True,
      ht_seen := e_version (ht_entry p), ht_seenN := length (ht_pubs p)\<rparr>)"
| h_listener_stops: "ht_pc p = HServe cert n \<Longrightarrow> ht_iterDone p \<or> ht_done p \<Longrightarrow> runHTTPServer ErrServerClosed = None \<Longrightarrow>
    https_step pairs p (p\<lparr>ht_pc := HDown\<rparr>)"
| h_listener_fails: "ht_pc p = HServe cert n \<Longrightarrow> runHTTPServer (ListenErr err) = r \<Longrightarrow> release (ht_entry p) = (cn, e) \<Longrightarrow>
    https_step pairs p (p\<lparr>ht_entry := e, ht_pc := HReturn r\<rparr>)"
| h_snaps: "ht_pc p = HDown \<Longrightarrow> Snapshot (ht_entry p) = (cert, v) \<Longrightarrow>
    https_step pairs p (p\<lparr>ht_pc := HLoop cert (length (ht_pubs p))\<rparr>)"

definition https_init :: "certEntry \<Rightarrow> https \<Rightarrow> bool" where
  "https_init e\<^sub>0 p \<longleftrightarrow> ht_entry p = e\<^sub>0 \<and> ht_pc p = HSubscribe \<and> ht_pubs p = [] \<and> \<not> ht_watching p \<and> \<not> ht_iterDone p"

section \<open>Lemmas\<close>

definition in_use :: "https_pc \<Rightarrow> (CertT \<times> nat) option" where
  "in_use pc = (case pc of HCheck c n \<Rightarrow> Some (c, n) | HLoop c n \<Rightarrow> Some (c, n) | HServe c n \<Rightarrow> Some (c, n) | _ \<Rightarrow> None)"

definition seen_read :: "https_pc \<Rightarrow> bool" where
  "seen_read pc \<longleftrightarrow> pc \<noteq> HSubscribe \<and> pc \<noteq> HFirst"

text \<open>While the goroutine watches, the version it compares with is not newer than the certificate
  in use.\<close>

definition https_inv :: "(CertT \<Rightarrow> bool) \<Rightarrow> certEntry \<Rightarrow> https \<Rightarrow> bool" where
  "https_inv pairs e\<^sub>0 p \<longleftrightarrow>
     Snapshot (ht_entry p) = snap_at e\<^sub>0 (ht_pubs p) (length (ht_pubs p)) \<and>
     (seen_read (ht_pc p) \<longrightarrow> ht_seenN p \<le> length (ht_pubs p) \<and> ht_seen p = snd (snap_at e\<^sub>0 (ht_pubs p) (ht_seenN p))) \<and>
     (\<forall>cert n. in_use (ht_pc p) = Some (cert, n) \<longrightarrow> n \<le> length (ht_pubs p) \<and> cert = fst (snap_at e\<^sub>0 (ht_pubs p) n)) \<and>
     (\<forall>cert n. ht_pc p = HCheck cert n \<longrightarrow> ht_seenN p \<le> n) \<and>
     (\<forall>cert n. ht_pc p = HLoop cert n \<longrightarrow> ht_seenN p \<le> n \<or> ht_done p) \<and>
     (\<forall>cert n. ht_pc p = HServe cert n \<longrightarrow> pairs cert \<and> (ht_watching p \<longrightarrow> ht_seenN p \<le> n \<or> ht_done p)) \<and>
     (ht_watching p \<longrightarrow> (\<exists>cert n. ht_pc p = HServe cert n) \<or> (\<exists>r. ht_pc p = HReturn r) \<or>
        ht_done p \<and> (ht_pc p = HDown \<or> (\<exists>cert n. ht_pc p = HLoop cert n))) \<and>
     (\<forall>cert n. ht_pc p = HServe cert n \<longrightarrow> (ht_iterDone p \<longleftrightarrow> \<not> ht_watching p))"

lemmas https_inv_defs = https_inv_def in_use_def seen_read_def

lemma https_inv_snap:
  "https_inv pairs e\<^sub>0 p \<Longrightarrow> snap_at e\<^sub>0 (ht_pubs p) (length (ht_pubs p)) = (e_cert (ht_entry p), e_version (ht_entry p))"
  by (simp add: https_inv_def Snapshot_def)

lemma https_inv_entry:
  "https_inv pairs e\<^sub>0 p \<Longrightarrow> Snapshot e = Snapshot (ht_entry p) \<Longrightarrow> https_inv pairs e\<^sub>0 (p\<lparr>ht_entry := e\<rparr>)"
  by (simp add: https_inv_def)

lemma https_inv_return:
  "https_inv pairs e\<^sub>0 p \<Longrightarrow> seen_read (ht_pc p) \<Longrightarrow> release (ht_entry p) = (cn, e) \<Longrightarrow>
     https_inv pairs e\<^sub>0 (p\<lparr>ht_entry := e, ht_pc := HReturn r\<rparr>)"
  by (auto simp: https_inv_defs Snapshot_frames(2))

lemma https_inv_renewal:
  assumes inv: "https_inv pairs e\<^sub>0 p" and pub: "publish cert ch (ht_entry p) = (old, e)"
  shows "https_inv pairs e\<^sub>0 (p\<lparr>ht_entry := e, ht_pubs := ht_pubs p @ [cert]\<rparr>)"
proof -
  have "Snapshot e = snap_at e\<^sub>0 (ht_pubs p @ [cert]) (length (ht_pubs p @ [cert]))"
    using snap_publish [OF pub] https_inv_snap [OF inv] unfolding snap_at_new by simp
  then show ?thesis
    using inv unfolding https_inv_def by auto
qed

lemma https_inv_step:
  assumes inv: "https_inv pairs e\<^sub>0 p" and "https_step pairs p p'"
  shows "https_inv pairs e\<^sub>0 p'"
  using assms(2)
proof (cases rule: https_step.cases)
  case (h_renewal cert ch old e)
  then show ?thesis using https_inv_renewal [OF inv] by simp
next
  case (h_subscribes ctx st e)
  then show ?thesis using inv Snapshot_frames(1) [OF h_subscribes(3)] by (auto simp: https_inv_defs)
next
  case (h_first cert seen)
  then show ?thesis using inv https_inv_snap [OF inv] by (auto simp: https_inv_defs)
next
  case (h_invalid cert n)
  then show ?thesis using inv by (auto simp: https_inv_defs)
next
  case (h_valid cert n)
  then show ?thesis using inv by (auto simp: https_inv_defs)
next
  case h_init_wakes
  then show ?thesis using inv https_inv_snap [OF inv] by (auto simp: https_inv_defs)
next
  case (h_init_snaps cert v)
  then show ?thesis using inv https_inv_snap [OF inv] by (auto simp: https_inv_defs Snapshot_def)
next
  case (h_binds cert n)
  then show ?thesis using inv by (auto simp: https_inv_defs)
next
  case h_watch_wakes
  then show ?thesis using inv https_inv_snap [OF inv] by (auto simp: https_inv_defs)
next
  case (h_listener_stops cert n)
  then show ?thesis using inv by (auto simp: https_inv_defs)
next
  case (h_snaps cert v)
  then show ?thesis using inv https_inv_snap [OF inv] by (auto simp: https_inv_defs Snapshot_def)
qed (use inv in \<open>auto intro!: https_inv_return simp: seen_read_def, auto simp: https_inv_def\<close>)

interpretation https: step_invariant "https_init e\<^sub>0" "https_step pairs" "https_inv pairs e\<^sub>0"
  for e\<^sub>0 pairs
proof
  show "https_inv pairs e\<^sub>0 p" if "https_init e\<^sub>0 p" for p
    using that by (auto simp: https_init_def https_inv_defs snap_at_def pubs_on_def)
qed (rule https_inv_step)

lemma https_stale:
  assumes inv: "https_inv pairs e\<^sub>0 p" and pc: "ht_pc p = HServe cert n" and "ht_watching p" "\<not> ht_done p"
    and few: "length (ht_pubs p) < 2 ^ 64" and "n < length (ht_pubs p)"
  shows "ht_seen p \<noteq> e_version (ht_entry p)"
proof
  assume same: "ht_seen p = e_version (ht_entry p)"
  have h: "ht_seenN p \<le> n" "snd (snap_at e\<^sub>0 (ht_pubs p) (ht_seenN p)) = ht_seen p"
    using inv assms(2-4) by (auto simp: https_inv_defs)
  have "ht_seenN p = length (ht_pubs p)"
    using snap_at_current [of "ht_seenN p" "ht_pubs p" e\<^sub>0] h few same https_inv_snap [OF inv] assms(6) by simp
  with h(1) assms(6) show False by simp
qed

subsection \<open>Binding again\<close>

text \<open>A step of the function and its goroutine while nothing is renewed, no time passes, the server
  is not stopped and the listener does not fail.\<close>

definition https_quiet :: "(CertT \<Rightarrow> bool) \<Rightarrow> https \<Rightarrow> https \<Rightarrow> bool" where
  "https_quiet pairs p p' \<longleftrightarrow> https_step pairs p p' \<and> p' \<noteq> p \<and> ht_pubs p' = ht_pubs p \<and> ht_now p' = ht_now p \<and>
     ht_done p' = ht_done p \<and> \<not> (\<exists>cert n r. ht_pc p = HServe cert n \<and> ht_pc p' = HReturn r)"

text \<open>The listener serves the \<open>N\<close>-th certificate \<open>c\<close>, or the TLS library has rejected it.\<close>

definition rebound :: "(CertT \<Rightarrow> bool) \<Rightarrow> CertT \<Rightarrow> nat \<Rightarrow> https \<Rightarrow> bool" where
  "rebound pairs c N p \<longleftrightarrow>
     (if pairs c then ht_pc p = HServe c N else ht_pc p = HReturn (Some ''load HTTPS certificate''))"

definition rebinding :: "(CertT \<Rightarrow> bool) \<Rightarrow> certEntry \<Rightarrow> CertT \<Rightarrow> nat \<Rightarrow> https \<Rightarrow> bool" where
  "rebinding pairs e\<^sub>0 c N p \<longleftrightarrow> https_inv pairs e\<^sub>0 p \<and> \<not> ht_done p \<and> e_cert (ht_entry p) = c \<and>
     length (ht_pubs p) = N \<and> N < 2 ^ 64 \<and>
     (case ht_pc p of HServe cert n \<Rightarrow> True | HDown \<Rightarrow> True | HLoop cert n \<Rightarrow> n = N
      | HReturn r \<Rightarrow> r = Some ''load HTTPS certificate'' \<and> \<not> pairs c | _ \<Rightarrow> False)"

definition rebind_rank :: "https \<Rightarrow> nat" where
  "rebind_rank p = (if ht_seen p = e_version (ht_entry p) then 0 else 4) +
     (case ht_pc p of HServe _ _ \<Rightarrow> if ht_iterDone p then 3 else 0 | HDown \<Rightarrow> 2 | HLoop _ _ \<Rightarrow> 1 | _ \<Rightarrow> 0)"

lemma release_keeps: "release e = (cn, e') \<Longrightarrow> e_cert e' = e_cert e \<and> e_version e' = e_version e"
  using Snapshot_frames(2) [of e cn e'] by (simp add: Snapshot_def)

lemma current_in_use:
  "https_inv pairs e\<^sub>0 p \<Longrightarrow> in_use (ht_pc p) = Some (cert, length (ht_pubs p)) \<Longrightarrow> cert = e_cert (ht_entry p)"
  unfolding https_inv_def by (metis Snapshot_def fst_conv)

lemma rebinding_step:
  assumes "rebinding pairs e\<^sub>0 c N p" "https_quiet pairs p p'"
  shows "rebinding pairs e\<^sub>0 c N p' \<and> rebind_rank p' < rebind_rank p"
proof -
  have inv: "https_inv pairs e\<^sub>0 p" and step: "https_step pairs p p'"
    using assms by (auto simp: rebinding_def https_quiet_def)
  have inv': "https_inv pairs e\<^sub>0 p'" using https_inv_step [OF inv step] .
  have cur: "cert = c" if "ht_pc p = HLoop cert N" for cert
    using current_in_use [OF inv] that assms(1) by (simp add: rebinding_def in_use_def)
  from step show ?thesis
  proof (cases rule: https_step.cases)
    case h_watch_wakes
    then show ?thesis
      using assms inv' by (auto simp: rebinding_def rebind_rank_def split: https_pc.splits)
  next
    case (h_bad_pair cert n cn e)
    then show ?thesis
      using assms inv' cur release_keeps [OF h_bad_pair(5)] by (auto simp: rebinding_def rebind_rank_def)
  next
    case (h_binds cert n)
    then show ?thesis
      using assms inv' by (auto simp: rebinding_def rebind_rank_def)
  next
    case (h_listener_stops cert n)
    then show ?thesis
      using assms inv' by (auto simp: rebinding_def rebind_rank_def)
  next
    case (h_snaps cert v)
    then show ?thesis
      using assms inv' by (auto simp: rebinding_def rebind_rank_def)
  qed (use assms in \<open>auto simp: rebinding_def https_quiet_def\<close>)
qed

lemma rebinding_progress:
  assumes reb: "rebinding pairs e\<^sub>0 c N p" and "\<not> rebound pairs c N p"
  shows "\<exists>p'. https_quiet pairs p p'"
proof -
  have inv: "https_inv pairs e\<^sub>0 p" and p: "\<not> ht_done p" "length (ht_pubs p) = N" "N < 2 ^ 64" "e_cert (ht_entry p) = c"
    using reb by (auto simp: rebinding_def)
  have "\<exists>p'. https_step pairs p p' \<and> ht_pubs p' = ht_pubs p \<and> ht_now p' = ht_now p \<and> ht_done p' = ht_done p \<and>
      (ht_pc p' \<noteq> ht_pc p \<or> ht_watching p' \<noteq> ht_watching p) \<and> \<not> (\<exists>cert n r. ht_pc p = HServe cert n \<and> ht_pc p' = HReturn r)"
  proof (cases "ht_pc p")
    case (HServe cert n)
    show ?thesis
    proof (cases "ht_watching p")
      case True
      have "pairs cert" "n \<le> N" using inv HServe p(2) by (auto simp: https_inv_defs)
      moreover have "cert = c" if "n = N"
        using current_in_use [OF inv] that HServe p by (simp add: in_use_def)
      ultimately have "n < length (ht_pubs p)"
        using assms(2) HServe p(2) by (cases "n = N") (auto simp: rebound_def)
      then show ?thesis
        using h_watch_wakes [OF True, of pairs] https_stale [OF inv HServe True p(1)] p(2,3) True by fastforce
    next
      case False
      then have "ht_iterDone p" using inv HServe by (auto simp: https_inv_def)
      then show ?thesis using h_listener_stops [OF HServe, of pairs] HServe by (fastforce simp: runHTTPServer_def)
    qed
  next
    case (HLoop cert n)
    then show ?thesis
      using h_binds [OF HLoop p(1)] h_bad_pair [OF HLoop p(1)]
      by (cases "pairs cert"; cases "release (ht_entry p)") fastforce+
  next
    case HDown
    then show ?thesis using h_snaps [OF HDown, of _ _ pairs] by (cases "Snapshot (ht_entry p)") fastforce
  qed (use assms in \<open>auto simp: rebinding_def rebound_def\<close>)
  then obtain p' where "https_step pairs p p'" "ht_pubs p' = ht_pubs p" "ht_now p' = ht_now p" "ht_done p' = ht_done p"
    "ht_pc p' \<noteq> ht_pc p \<or> ht_watching p' \<noteq> ht_watching p" "\<not> (\<exists>cert n r. ht_pc p = HServe cert n \<and> ht_pc p' = HReturn r)"
    by blast
  then show ?thesis unfolding https_quiet_def by (intro exI [of _ p']) auto
qed

interpretation rebind: teardown "https_quiet pairs" "rebinding pairs e\<^sub>0 c N" "rebound pairs c N" "measure rebind_rank"
  for pairs e\<^sub>0 c N
  by unfold_locales (use rebinding_step rebinding_progress in auto)

section \<open>Properties\<close>

text \<open>
  C26: What the HTTPS listener serves. In every reachable state in which it serves, the bound pair is
  one that the TLS library accepted and that the entry held at the start or that a renewal published.
  Until the server is stopped or the counter of 64 bits wraps, the bound pair is moreover the current
  certificate of the entry when the goroutine of the iteration has nothing to react to, and otherwise
  the listener is replaced: however the steps are scheduled, as long as nothing else is renewed and
  the listener itself does not fail there is no endless run, and when nothing more can happen the
  listener serves the current certificate, or the function has returned because the TLS library
  rejects the current one. So a renewal, even one that falls between reading the version and reading
  the certificate, always leads to binding again.
\<close>

theorem https_serves_current:
  assumes "https_init e\<^sub>0 p\<^sub>0" "(https_step pairs)\<^sup>*\<^sup>* p\<^sub>0 p" "ht_pc p = HServe cert n"
  shows "n \<le> length (ht_pubs p) \<and> cert = (e_cert e\<^sub>0 # ht_pubs p) ! n \<and> pairs cert \<and>
    (\<not> ht_done p \<and> length (ht_pubs p) < 2 ^ 64 \<longrightarrow>
       (ht_watching p \<and> ht_seen p = e_version (ht_entry p) \<longrightarrow> cert = e_cert (ht_entry p)) \<and>
       (\<forall>f. f 0 = p \<longrightarrow> \<not> (\<forall>i. https_quiet pairs (f i) (f (Suc i)))) \<and>
       (\<forall>q. (https_quiet pairs)\<^sup>*\<^sup>* p q \<and> \<not> (\<exists>u. https_quiet pairs q u) \<longrightarrow>
          rebound pairs (e_cert (ht_entry p)) (length (ht_pubs p)) q))"
proof -
  have inv: "https_inv pairs e\<^sub>0 p"
    using https.inv_reachable [OF assms(1,2)] .
  have n: "n \<le> length (ht_pubs p)" "cert = fst (snap_at e\<^sub>0 (ht_pubs p) n)" "pairs cert"
    using inv assms(3) by (auto simp: https_inv_defs)
  have live: "rebinding pairs e\<^sub>0 (e_cert (ht_entry p)) (length (ht_pubs p)) p"
    if "\<not> ht_done p" "length (ht_pubs p) < 2 ^ 64"
    using inv that assms(3) by (simp add: rebinding_def)
  have "cert = e_cert (ht_entry p)"
    if "\<not> ht_done p" "length (ht_pubs p) < 2 ^ 64" "ht_watching p" "ht_seen p = e_version (ht_entry p)"
  proof -
    have "n = length (ht_pubs p)"
      using https_stale [OF inv assms(3)] that n(1) by (cases "n < length (ht_pubs p)") auto
    then show ?thesis using current_in_use [OF inv] assms(3) by (simp add: in_use_def)
  qed
  then show ?thesis
    using n snap_at_cert [OF n(1)] rebind.no_endless_run [of pairs e\<^sub>0 "e_cert (ht_entry p)" "length (ht_pubs p)"]
      rebind.stuck_ended [OF live] live by auto
qed

definition ex_https :: https where
  "ex_https = \<lparr>ht_entry = newCertEntry 0 [''a.b''], ht_pc = HSubscribe, ht_seen = 0, ht_seenN = 0, ht_watching = False,
     ht_iterDone = False, ht_now = 5, ht_done = False, ht_pubs = []\<rparr>"

lemma ex_https_run:
  "\<exists>p. (https_step (\<lambda>_. True))\<^sup>*\<^sup>* ex_https p \<and> ht_pc p = HServe example_cert 1 \<and> ht_watching p \<and> \<not> ht_done p \<and>
     length (ht_pubs p) = 2 \<and> e_cert (ht_entry p) = zero_CertT"
proof -
  note ev = ex_https_def newCertEntry_def subscribe_def Snapshot_def IsValid_def zero_CertT_def publish_def example_cert_def
  show ?thesis
    apply (rule exI)
    apply (rule conjI)
     apply (rule converse_rtranclp_into_rtranclp, rule h_subscribes, simp add: ev, simp add: ev)
     apply (rule converse_rtranclp_into_rtranclp, rule h_first, simp, simp add: ev)
     apply (rule converse_rtranclp_into_rtranclp, rule h_invalid, simp, simp add: ev)
     apply (rule converse_rtranclp_into_rtranclp, rule h_renewal [where cert = example_cert and ch = 1], simp add: ev)
     apply (rule converse_rtranclp_into_rtranclp, rule h_init_wakes, simp, simp, simp add: ev)
     apply (rule converse_rtranclp_into_rtranclp, rule h_init_snaps, simp, simp add: ev)
     apply (rule converse_rtranclp_into_rtranclp, rule h_valid, simp, simp add: ev)
     apply (rule converse_rtranclp_into_rtranclp, rule h_binds, simp, simp add: ev, simp)
     apply (rule converse_rtranclp_into_rtranclp, rule h_renewal [where cert = zero_CertT and ch = 2], simp add: ev)
     apply (rule rtranclp.rtrancl_refl)
    apply (simp add: ev)
    done
qed

text \<open>After a second renewal the first certificate is still bound, and the listener is going to be
  replaced.\<close>

theorem https_serves_current_witness:
  "\<exists>p. (https_step (\<lambda>_. True))\<^sup>*\<^sup>* ex_https p \<and> ht_pc p = HServe example_cert 1 \<and> ht_pubs p ! 0 = example_cert \<and>
     (\<forall>q. (https_quiet (\<lambda>_. True))\<^sup>*\<^sup>* p q \<and> \<not> (\<exists>u. https_quiet (\<lambda>_. True) q u) \<longrightarrow> ht_pc q = HServe zero_CertT 2)"
proof -
  obtain p where p: "(https_step (\<lambda>_. True))\<^sup>*\<^sup>* ex_https p" "ht_pc p = HServe example_cert 1" "\<not> ht_done p"
    "length (ht_pubs p) = 2" "e_cert (ht_entry p) = zero_CertT"
    using ex_https_run by blast
  have i: "https_init (newCertEntry 0 [''a.b'']) ex_https"
    by (simp add: https_init_def ex_https_def)
  show ?thesis using https_serves_current [OF i p(1,2)] p by (auto simp: rebound_def)
qed

end
