(* ===== verification/Tools_Cli.thy ===== *)
theory Tools_Cli
  imports Mtls_Tools Cert_Store
begin

text \<open>
  \<open>exec/tools\<close>: the command line of the tools, its dispatch in \<open>main.go\<close> and the tasks that make the
  CA and the certificates of mutual TLS and that show the store. Parsing the flags is outside: a
  task is a function of the flags' values, or of the error of parsing them. The state is that of the
  process, the files and the data directory of package \<open>paths\<close>.
\<close>

section \<open>The data directory\<close>

text \<open>\<open>env\<close> is the value of \<open>CERTDX_DATA_DIR\<close>.\<close>

definition applyDataDir :: "string \<Rightarrow> string \<Rightarrow> os_env \<Rightarrow> os_env" where
  "applyDataDir env flagValue os =
     (let dir = (if flagValue = [] then env else flagValue) in if dir \<noteq> [] then SetDataDir dir os else os)"

section \<open>Tasks\<close>

text \<open>\<open>strings.ReplaceAll\<close> for a pattern that is not empty.\<close>

function ReplaceAll :: "string \<Rightarrow> string \<Rightarrow> string \<Rightarrow> string" where
  "ReplaceAll s old new =
     (case s of
        [] \<Rightarrow> []
      | c # cs \<Rightarrow>
          if old \<noteq> [] \<and> HasPrefix s old then new @ ReplaceAll (drop (length old) s) old new
          else c # ReplaceAll cs old new)"
  by pat_completeness auto
termination
  by (relation "measure (\<lambda>(s, old, new). length s)") auto

declare ReplaceAll.simps [simp del]

record make_flags =
  mf_help :: bool
  mf_name :: string
  mf_domains :: "string list"
  mf_organization :: string
  mf_commonName :: string
  mf_dataDir :: string

datatype task_result =
    FlagError string
  | PrintedDefaults
  | RequiredFlag string
  | TaskDone
  | TaskError tool_error

definition task_of :: "tool_error option \<Rightarrow> task_result" where
  "task_of err = (case err of None \<Rightarrow> TaskDone | Some e \<Rightarrow> TaskError e)"

definition task_MakeCA ::
    "'k tool_crypto \<Rightarrow> write_faults \<Rightarrow> string \<Rightarrow> (string + make_flags) \<Rightarrow> os_env \<Rightarrow> tool_state \<Rightarrow> tool_state \<times> task_result" where
  "task_MakeCA cr flt env flags os s =
     (case flags of
        Inl e \<Rightarrow> (s, FlagError e)
      | Inr f \<Rightarrow>
          if mf_help f then (s, PrintedDefaults)
          else (case MakeCA cr flt (applyDataDir env (mf_dataDir f) os) (mf_organization f) (mf_commonName f) s of
                  (s', err) \<Rightarrow> (s', task_of err)))"

definition task_MakeServer ::
    "(string \<Rightarrow> string) \<Rightarrow> 'k tool_crypto \<Rightarrow> write_faults \<Rightarrow> string \<Rightarrow> (string + make_flags) \<Rightarrow> os_env \<Rightarrow> tool_state \<Rightarrow>
     tool_state \<times> task_result" where
  "task_MakeServer tw cr flt env flags os s =
     (case flags of
        Inl e \<Rightarrow> (s, FlagError e)
      | Inr f \<Rightarrow>
          if mf_help f then (s, PrintedDefaults)
          else if mf_name f = [] then (s, RequiredFlag ''--name'')
          else if length (mf_domains f) = 0 then (s, RequiredFlag ''--dns-names'')
          else (case MakeServerCert tw cr flt (applyDataDir env (mf_dataDir f) os) (mf_name f) (mf_organization f)
                       (mf_commonName f) (mf_domains f) s of
                  (s', err) \<Rightarrow> (s', task_of err)))"

definition task_MakeClient ::
    "(string \<Rightarrow> string) \<Rightarrow> 'k tool_crypto \<Rightarrow> write_faults \<Rightarrow> string \<Rightarrow> (string + make_flags) \<Rightarrow> os_env \<Rightarrow> tool_state \<Rightarrow>
     tool_state \<times> task_result" where
  "task_MakeClient tw cr flt env flags os s =
     (case flags of
        Inl e \<Rightarrow> (s, FlagError e)
      | Inr f \<Rightarrow>
          if mf_help f then (s, PrintedDefaults)
          else if mf_name f = [] then (s, RequiredFlag ''--name'')
          else let cn = ReplaceAll (mf_commonName f) ''{name}'' (mf_name f) in
            (case MakeClientCert tw cr flt (applyDataDir env (mf_dataDir f) os) (mf_name f) (mf_organization f)
                    cn (mf_domains f) s of
               (s', err) \<Rightarrow> (s', task_of err)))"

text \<open>The blocks that \<open>PrintCertInfo\<close> prints: names, time of renewal, end of validity; \<open>order\<close> is the
  order of the map.\<close>

definition PrintCertInfo :: "Key list \<Rightarrow> CertStore \<Rightarrow> (string \<times> time \<times> time) list option" where
  "PrintCertInfo order s =
     (let certs = List.map_filter (st_entries s) order in
      if length certs = 0 then None
      else Some (map (\<lambda>e. (Join (se_Domains e) '', '', c_RenewAt (se_Cert e), c_ValidBefore (se_Cert e))) certs))"

datatype show_result =
    ShowFlags string
  | ShowHelp
  | ShowError store_error
  | ShowPanic
  | Shown "(string \<times> time \<times> time) list option"

text \<open>\<open>file\<close> is what is at a path.\<close>

definition ShowCerts ::
    "(string \<Rightarrow> string) \<Rightarrow> time \<Rightarrow> Key list \<Rightarrow> Key list \<Rightarrow> (string \<Rightarrow> store_file option) \<Rightarrow> string \<Rightarrow>
     (string + bool \<times> string) \<Rightarrow> os_env \<Rightarrow> show_result" where
  "ShowCerts lw now order ks file env flags os =
     (case flags of
        Inl e \<Rightarrow> ShowFlags e
      | Inr (help, dataDir) \<Rightarrow>
          if help then ShowHelp
          else (case NewCertStore (applyDataDir env dataDir os) of
              Inl e \<Rightarrow> ShowError e
            | Inr store \<Rightarrow>
                (case Load lw now order (file (st_path store)) store of
                   Panic \<Rightarrow> ShowPanic
                 | Fail e \<Rightarrow> ShowError e
                 | Return store' \<Rightarrow> Shown (PrintCertInfo ks store'))))"

section \<open>Dispatch\<close>

datatype tool_task = TShowCerts | TGoogleAccount | TMakeCA | TMakeServer | TMakeClient | TTxc | TK8s

definition commands :: "(string \<times> tool_task \<times> string list) list" where
  "commands =
     [(''show-certs'', TShowCerts, []),
      (''google-account'', TGoogleAccount, []),
      (''make-ca'', TMakeCA, []),
      (''make-server'', TMakeServer, []),
      (''make-client'', TMakeClient, []),
      (''tencent-cloud-certificate-updater'', TTxc, [''tx-update'', ''tencent-cloud-certificates-updater'']),
      (''kubernetes-certificate-updater'', TK8s, [''k8s-update'', ''k8s-certificate-updater''])]"

text \<open>The loop of \<open>init\<close> over the commands in some order.\<close>

definition add_command :: "(string \<rightharpoonup> string) \<Rightarrow> string \<times> tool_task \<times> string list \<Rightarrow> (string \<rightharpoonup> string)" where
  "add_command m cmd =
     foldl (\<lambda>m alias. m(alias \<mapsto> fst cmd)) (m(fst cmd \<mapsto> fst cmd)) (snd (snd cmd))"

definition init_lookup :: "(string \<times> tool_task \<times> string list) list \<Rightarrow> (string \<rightharpoonup> string)" where
  "init_lookup cmds = foldl add_command Map.empty cmds"

datatype main_result = PrintHelp | PrintVersion | ExitUsage string | ExitError string | ExitOk

text \<open>\<open>run\<close> is the task of a command on the name it was called by and the other arguments; the error it
  returns makes the exit code 1. An unknown command exits with 2.\<close>

definition tools_main ::
    "(string \<times> tool_task \<times> string list) list \<Rightarrow> (tool_task \<Rightarrow> string \<Rightarrow> string list \<Rightarrow> string option) \<Rightarrow> string list \<Rightarrow> main_result" where
  "tools_main order run args =
     (case args of
        [] \<Rightarrow> PrintHelp
      | a # rest \<Rightarrow>
          if a = ''-v'' \<or> a = ''--version'' then PrintVersion
          else if a = ''-h'' \<or> a = ''--help'' then PrintHelp
          else (case init_lookup order a of
              None \<Rightarrow> ExitUsage a
            | Some canonical \<Rightarrow>
                (case map_of commands canonical of
                   None \<Rightarrow> ExitUsage a
                 | Some (task, aliases) \<Rightarrow>
                     (case run task a rest of Some e \<Rightarrow> ExitError e | None \<Rightarrow> ExitOk))))"

section \<open>Help\<close>

text \<open>The help lines of the registry, by canonical name.\<close>

definition command_help :: "string \<rightharpoonup> string" where
  "command_help = map_of
     [(''show-certs'', ''Show cached certificates on the server''),
      (''google-account'', ''Register a Google ACME EAB account''),
      (''make-ca'', ''Generate mTLS CA certificate and key''),
      (''make-server'', ''Generate mTLS server certificate and key''),
      (''make-client'', ''Generate mTLS client certificate and key''),
      (''tencent-cloud-certificate-updater'', ''Update expiring Tencent Cloud certificates''),
      (''kubernetes-certificate-updater'', ''Update annotated Kubernetes TLS secrets'')]"

definition groups :: "(string \<times> string list) list" where
  "groups =
     [(''Certificate Inspection'', [''show-certs'']),
      (''ACME'', [''google-account'']),
      (''mTLS Setup'', [''make-ca'', ''make-server'', ''make-client'']),
      (''Certificate Updaters'', [''tencent-cloud-certificate-updater'', ''kubernetes-certificate-updater''])]"

text \<open>The verb \<open>%-38s\<close> of package \<open>fmt\<close>.\<close>

definition pad38 :: "string \<Rightarrow> string" where
  "pad38 s = s @ replicate (38 - length s) (CHR '' '')"

text \<open>A name that is not registered gives the zero value of the map.\<close>

definition help_lines :: "string \<Rightarrow> string list" where
  "help_lines name =
     (let aliases = (case map_of commands name of None \<Rightarrow> [] | Some (_, as) \<Rightarrow> as) in
      (''    '' @ pad38 name @ '' '' @ (case command_help name of None \<Rightarrow> [] | Some h \<Rightarrow> h)) #
      (if length aliases > 0 then [''    '' @ pad38 [] @ '' aliases: '' @ Join aliases '', ''] else []))"

definition group_lines :: "string \<times> string list \<Rightarrow> string list" where
  "group_lines g = (''  '' @ fst g @ '':'') # concat (map help_lines (snd g))"

definition newline :: string where "newline = [CHR 0x0A]"

definition printHelp :: "string \<Rightarrow> string" where
  "printHelp exec =
     ''Certdx tools'' @ newline @ newline @ ''Usage:'' @ newline @
     ''  '' @ exec @ '' <command> [options]'' @ newline @ ''  '' @ exec @ '' --version'' @ newline @
     ''  '' @ exec @ '' --help'' @ newline @ newline @ ''Commands:'' @ newline @
     Join (map (\<lambda>g. concat (map (\<lambda>l. l @ newline) (group_lines g))) groups) newline @ newline @
     ''Use '' @ exec @ '' <command> --help for command details.'' @ newline"

section \<open>Lemmas\<close>

text \<open>The help shows every command of the registry once, with its own line, and nothing else.\<close>

lemma help_lists_commands:
  "distinct (concat (map snd groups))" "set (concat (map snd groups)) = fst ` set commands"
  "dom command_help = fst ` set commands"
  by (auto simp: groups_def commands_def command_help_def)

lemma help_line_of_command:
  assumes "c \<in> set commands"
  shows "\<exists>g h. g \<in> set groups \<and> fst c \<in> set (snd g) \<and> command_help (fst c) = Some h \<and>
    (''    '' @ pad38 (fst c) @ '' '' @ h) \<in> set (group_lines g) \<and>
    (snd (snd c) \<noteq> [] \<longrightarrow> (''    '' @ pad38 [] @ '' aliases: '' @ Join (snd (snd c)) '', '') \<in> set (group_lines g))"
proof -
  have "fst c \<in> set (concat (map snd groups))" "fst c \<in> dom command_help"
    using assms help_lists_commands by blast+
  then obtain g h where g: "g \<in> set groups" "fst c \<in> set (snd g)" "command_help (fst c) = Some h" by auto
  have "distinct (map fst commands)" by (simp add: commands_def)
  then have "map_of commands (fst c) = Some (snd c)"
    using assms by (cases c) simp
  then have "help_lines (fst c) =
      (''    '' @ pad38 (fst c) @ '' '' @ h) #
      (if length (snd (snd c)) > 0 then [''    '' @ pad38 [] @ '' aliases: '' @ Join (snd (snd c)) '', ''] else [])"
    using g(3) by (simp add: help_lines_def Let_def case_prod_beta)
  moreover have "set (help_lines (fst c)) \<subseteq> set (group_lines g)"
    using g(2) by (auto simp: group_lines_def)
  ultimately show ?thesis
    using g by (intro exI [of _ g] exI [of _ h]) auto
qed

text \<open>Whatever order the map of commands is visited in, names and aliases lead to the same command.\<close>

lemma foldl_aliases:
  "foldl (\<lambda>m alias. m(alias \<mapsto> v)) m as x = (if x \<in> set as then Some v else m x)"
  by (induction as arbitrary: m) auto

definition all_names :: "string \<times> tool_task \<times> string list \<Rightarrow> string list" where
  "all_names c = fst c # snd (snd c)"

lemma add_command_at: "add_command m c x = (if x \<in> set (all_names c) then Some (fst c) else m x)"
  by (simp add: add_command_def foldl_aliases all_names_def)

lemma init_lookup_acc:
  "foldl add_command m cmds x =
     (case filter (\<lambda>c. x \<in> set (all_names c)) cmds of [] \<Rightarrow> m x | cs \<Rightarrow> Some (fst (last cs)))"
  by (induction cmds arbitrary: m) (auto simp: add_command_at split: list.splits)

lemma commands_disjoint:
  assumes "c \<in> set commands" "c' \<in> set commands" "x \<in> set (all_names c)" "x \<in> set (all_names c')"
  shows "c = c'"
proof -
  have "list_all (\<lambda>c. list_all (\<lambda>c'. c = c' \<or> list_all (\<lambda>x. x \<notin> set (all_names c')) (all_names c)) commands) commands"
    by code_simp
  then show ?thesis using assms by (auto simp: list_all_iff)
qed

lemma init_lookup_order:
  assumes "set order = set commands"
  shows "init_lookup order x = Some name \<longleftrightarrow> (\<exists>c \<in> set commands. name = fst c \<and> x \<in> set (all_names c))"
proof -
  let ?cs = "filter (\<lambda>c. x \<in> set (all_names c)) order"
  have eq: "init_lookup order x = (case ?cs of [] \<Rightarrow> None | cs \<Rightarrow> Some (fst (last cs)))"
    unfolding init_lookup_def init_lookup_acc by simp
  show ?thesis
  proof (cases "?cs = []")
    case True
    then have "\<forall>c \<in> set commands. x \<notin> set (all_names c)" using assms by (simp add: filter_empty_conv)
    then show ?thesis unfolding eq True by auto
  next
    case False
    then have l: "last ?cs \<in> set commands" "x \<in> set (all_names (last ?cs))"
      using last_in_set [OF False] assms by auto
    have "init_lookup order x = Some (fst (last ?cs))"
      unfolding eq using False by (cases ?cs) simp_all
    with l obtain c0 where c0: "c0 \<in> set commands" "x \<in> set (all_names c0)" "init_lookup order x = Some (fst c0)"
      by blast
    have "c = c0" if "c \<in> set commands" "x \<in> set (all_names c)" for c
      using commands_disjoint [OF that(1) c0(1) that(2) c0(2)] .
    then show ?thesis using c0 unfolding c0(3) option.inject by metis
  qed
qed

subsection \<open>Certificates of one CA\<close>

text \<open>A process with its own random numbers and clock.\<close>

definition process :: "'k tool_crypto \<Rightarrow> (string + 'k) \<Rightarrow> time \<Rightarrow> 'k tool_crypto" where
  "process cr key now = cr\<lparr>mk_GenerateKey := key, mk_now := now\<rparr>"

lemma loadCA_process [simp]: "loadCA (process cr key now) os s = loadCA cr os s"
  by (simp add: loadCA_def process_def cong: sum.case_cong option.case_cong)

lemma process_sel [simp]:
  "mk_Create (process cr key now) = mk_Create cr" "mk_MarshalKey (process cr key now) = mk_MarshalKey cr"
  "mk_ParseCert (process cr key now) = mk_ParseCert cr" "mk_ParseIP (process cr key now) = mk_ParseIP cr"
  by (simp_all add: process_def)

text \<open>The CA that is loaded depends on its file only.\<close>

lemma loadCA_same_file:
  assumes "loadCA cr os s = (s1, Inr ca)" "loadCA cr os s' = (s1', Inr ca')"
    and "MtlsCAPath os = Inr caPath" "ts_fs s' caPath = ts_fs s caPath"
  shows "ca' = ca"
  using assms by (auto simp: loadCA_def split: sum.splits option.splits prod.splits tool_file.splits)

lemma make_named_ok:
  "make_named tw cr flt os usage name org cn domains s = (s', None) \<Longrightarrow>
     \<exists>path. MtlsBundlePath name os = Inr path \<and> makeCert cr flt os path org cn domains usage s = (s', None)"
  by (auto simp: make_named_def split: if_splits sum.splits)

lemma makeCert_paths:
  "makeCert cr flt os path org cn domains usage s = (s', None) \<Longrightarrow>
     \<exists>cp caPath. CACounterPath os = Inr cp \<and> MtlsCAPath os = Inr caPath"
  by (auto simp: makeCert_def loadCA_def split: sum.splits if_splits)

lemma loadCA_reads:
  "loadCA cr os s = (s1, Inr ca) \<Longrightarrow> MtlsCAPath os = Inr caPath \<Longrightarrow> ts_fs s caPath \<noteq> None"
  by (auto simp: loadCA_def split: sum.splits option.splits)

text \<open>What a task leaves: its bundle, signed by the CA of the directory, and the next serial number.\<close>

lemma task_MakeServer_ok:
  assumes "task_MakeServer tw cr flt env (Inr f) os s = (s', TaskDone)" "MtlsBundlePath (mf_name f) (applyDataDir env (mf_dataDir f) os) = Inr path"
  shows "makeCert cr flt (applyDataDir env (mf_dataDir f) os) path (mf_organization f) (mf_commonName f) (mf_domains f) [ServerAuth] s
    = (s', None)"
  using assms make_named_ok
  by (fastforce simp: task_MakeServer_def task_of_def MakeServerCert_def split: if_splits prod.splits option.splits)

lemma task_MakeClient_ok:
  assumes "task_MakeClient tw cr flt env (Inr f) os s = (s', TaskDone)" "MtlsBundlePath (mf_name f) (applyDataDir env (mf_dataDir f) os) = Inr path"
  shows "makeCert cr flt (applyDataDir env (mf_dataDir f) os) path (mf_organization f)
    (ReplaceAll (mf_commonName f) ''{name}'' (mf_name f)) (mf_domains f) [ClientAuth] s = (s', None)"
  using assms make_named_ok
  by (fastforce simp: task_MakeClient_def task_of_def MakeClientCert_def Let_def split: if_splits prod.splits option.splits)

section \<open>Properties\<close>

text \<open>
  C30: The tools set up mutual TLS: when \<open>make-server\<close> and then \<open>make-client\<close>, each a process of its own
  with the same data directory, have succeeded, then the server's bundle
  loads for the server and the client's for the client, each with the certificate that was made for
  it, both certificates are signed by the key of the one CA, with consecutive serial numbers and the
  key usage of their side, and each side trusts exactly this CA.
\<close>

theorem tools_set_up_mtls:
  assumes pair: "\<And>t ca k k' der keyDER. mk_Create cr t (Some ca) k k' = Inr der \<Longrightarrow> mk_MarshalKey cr k = Inr keyDER \<Longrightarrow>
      pair [PemBlock ''CERTIFICATE'' der, PemBlock ''PRIVATE KEY'' keyDER, PemBlock ''CERTIFICATE'' ca] = Inr (leaf der k)"
    and raw: "\<And>b c. mk_ParseCert cr b = Inr c \<Longrightarrow> mk_ParseCert cr c = Inr c"
    and os': "os' = applyDataDir env dir os" "mf_dataDir fs = dir" "mf_dataDir fc = dir"
    and server: "task_MakeServer tw (process cr k2 t2) flt2 env (Inr fs) os s1 = (s2, TaskDone)"
    and client: "task_MakeClient tw (process cr k3 t3) flt3 env (Inr fc) os (s2\<lparr>ts_counter := 0\<rparr>) = (s3, TaskDone)"
    and paths: "MtlsBundlePath (mf_name fs) os' = Inr serverPath" "MtlsBundlePath (mf_name fc) os' = Inr clientPath"
  shows "\<exists>n caCert caKey sk ck sskid cskid sder cder sc cc.
    snd (loadCA cr os' s1) = Inr (caCert, caKey) \<and>
    mk_Create cr (leaf_template (process cr k2 t2) n (mf_organization fs) (mf_commonName fs) (mf_domains fs) [ServerAuth] sskid)
      (Some caCert) sk caKey = Inr sder \<and>
    mk_Create cr (leaf_template (process cr k3 t3) (n + 1) (mf_organization fc)
        (ReplaceAll (mf_commonName fc) ''{name}'' (mf_name fc)) (mf_domains fc) [ClientAuth] cskid)
      (Some caCert) ck caKey = Inr cder \<and>
    LoadServer (\<lambda>b. \<not> isl (mk_ParseCert cr b)) pair serverPath (ts_fs s3) = Inr sc \<and>
    tc_Certificate sc = leaf sder sk \<and> tc_pool sc = [caCert] \<and> tc_requireClientCert sc \<and>
    LoadClient (\<lambda>b. \<not> isl (mk_ParseCert cr b)) pair clientPath (ts_fs s3) = Inr cc \<and>
    tc_Certificate cc = leaf cder ck \<and> tc_pool cc = [caCert]"
proof -
  let ?parses = "\<lambda>b. \<not> isl (mk_ParseCert cr b)"
  have s: "makeCert (process cr k2 t2) flt2 os' serverPath (mf_organization fs) (mf_commonName fs) (mf_domains fs) [ServerAuth] s1
      = (s2, None)"
    using task_MakeServer_ok [OF server] os' paths(1) by simp
  have c: "makeCert (process cr k3 t3) flt3 os' clientPath (mf_organization fc)
      (ReplaceAll (mf_commonName fc) ''{name}'' (mf_name fc)) (mf_domains fc) [ClientAuth] (s2\<lparr>ts_counter := 0\<rparr>) = (s3, None)"
    using task_MakeClient_ok [OF client] os' paths(2) by simp
  obtain cp caPath where p: "CACounterPath os' = Inr cp" "MtlsCAPath os' = Inr caPath"
    using makeCert_paths [OF s] by blast
  obtain n caCert caKey sk sskid sder skey where s2:
    "loadCA cr os' s1 = (s1\<lparr>ts_counter := n\<rparr>, Inr (caCert, caKey))" "ts_fs s1 cp = Some (CounterFile n)" "ts_fs s1 serverPath = None"
    "mk_Create cr (leaf_template (process cr k2 t2) n (mf_organization fs) (mf_commonName fs) (mf_domains fs) [ServerAuth] sskid)
      (Some caCert) sk caKey = Inr sder" "mk_MarshalKey cr sk = Inr skey"
    "s2 = \<lparr>ts_counter = n + 1, ts_fs = (ts_fs s1)(serverPath \<mapsto> PemFile [PemBlock ''CERTIFICATE'' sder,
      PemBlock ''PRIVATE KEY'' skey, PemBlock ''CERTIFICATE'' caCert], cp \<mapsto> CounterFile (n + 1))\<rparr>"
    using makeCert_ok [OF s p(1)] by auto
  obtain n' ca ck cskid cder ckey where s3:
    "loadCA cr os' (s2\<lparr>ts_counter := 0\<rparr>) = (s2\<lparr>ts_counter := n'\<rparr>, Inr ca)" "ts_fs s2 cp = Some (CounterFile n')" "ts_fs s2 clientPath = None"
    "mk_Create cr (leaf_template (process cr k3 t3) n' (mf_organization fc)
        (ReplaceAll (mf_commonName fc) ''{name}'' (mf_name fc)) (mf_domains fc) [ClientAuth] cskid)
      (Some (fst ca)) ck (snd ca) = Inr cder" "mk_MarshalKey cr ck = Inr ckey"
    "s3 = \<lparr>ts_counter = n' + 1, ts_fs = (ts_fs s2)(clientPath \<mapsto> PemFile [PemBlock ''CERTIFICATE'' cder,
      PemBlock ''PRIVATE KEY'' ckey, PemBlock ''CERTIFICATE'' (fst ca)], cp \<mapsto> CounterFile (n' + 1))\<rparr>"
    using makeCert_ok [OF c p(1)] by auto
  have ne: "caPath \<noteq> cp" "caPath \<noteq> serverPath" "serverPath \<noteq> cp" "clientPath \<noteq> cp" "clientPath \<noteq> serverPath"
    using loadCA_ok [OF s2(1) p(1)] p(2) loadCA_reads [OF s2(1) p(2)] s2(2,3,6) s3(2,3) by (auto split: if_splits)
  have ca: "ca = (caCert, caKey)"
    by (rule loadCA_same_file [OF s2(1) s3(1) p(2)]) (use ne s2(6) in simp)
  have n': "n' = n + 1" using s3(2) s2(6) by simp
  have parsed: "?parses caCert"
    using loadCA_ok [OF s2(1) p(1)] raw by (metis isl_def sum.distinct(1))
  have "ts_fs s3 serverPath = Some (PemFile [PemBlock ''CERTIFICATE'' sder, PemBlock ''PRIVATE KEY'' skey, PemBlock ''CERTIFICATE'' caCert])"
    "ts_fs s3 clientPath = Some (PemFile [PemBlock ''CERTIFICATE'' cder, PemBlock ''PRIVATE KEY'' ckey, PemBlock ''CERTIFICATE'' caCert])"
    using s2(6) s3(6) ne ca by simp_all
  then have b: "parseBundle ?parses pair serverPath (ts_fs s3) = Inr (leaf sder sk, [caCert])"
    "parseBundle ?parses pair clientPath (ts_fs s3) = Inr (leaf cder ck, [caCert])"
    using parsed pair [OF s2(4,5)] pair [OF s3(4,5)] ca by (simp_all add: parseBundle_def)
  obtain sc cc where "LoadServer ?parses pair serverPath (ts_fs s3) = Inr sc"
    "tc_Certificate sc = leaf sder sk" "tc_pool sc = [caCert]" "tc_requireClientCert sc"
    "LoadClient ?parses pair clientPath (ts_fs s3) = Inr cc" "tc_Certificate cc = leaf cder ck" "tc_pool cc = [caCert]"
    using LoadServer_ok [OF b(1)] LoadClient_ok [OF b(2)] by blast
  moreover have "snd (loadCA cr os' s1) = Inr (caCert, caKey)" using s2(1) by simp
  moreover note s2(4) s3(4) [unfolded ca n' fst_conv snd_conv]
  ultimately show ?thesis by (intro exI conjI) (assumption+)
qed

definition ex_flags :: "string \<Rightarrow> make_flags" where
  "ex_flags name = \<lparr>mf_help = False, mf_name = name, mf_domains = [''a.b'', ''::1''], mf_organization = ''O'',
     mf_commonName = ''CN {name}'', mf_dataDir = []\<rparr>"

lemma ex_process: "process ex_crypto (Inr ()) 0 = ex_crypto"
  by (simp add: process_def ex_crypto_def)

lemma ex_dir: "applyDataDir ''/d'' [] ex_os = ex_os"
  by (simp add: applyDataDir_def SetDataDir_def ex_os_def)

lemma ex_names: "\<not> EqualFold_ascii (TrimSpace id ''srv'') ''ca''" "\<not> EqualFold_ascii (TrimSpace id ''cli'') ''ca''"
    "MtlsBundlePath ''cli'' ex_os = Inr ''/d/mtls/cli.pem''"
  by code_simp+

lemmas ex_tool_defs = task_of_def make_named_def makeCert_def loadCA_def splitCertAndKeyPEM_def is_key_type_def
  ex_ca_def MakeCA_def ex_paths ex_names ex_crypto_def ex_no_faults_def writeBundle_def Let_def ex_flags_def ex_dir

lemma ex_server_task:
  "\<exists>s2. task_MakeServer id ex_crypto ex_no_faults ''/d'' (Inr (ex_flags ''srv'')) ex_os ex_ca = (s2, TaskDone) \<and>
     (\<exists>s3. task_MakeClient id ex_crypto ex_no_faults ''/d'' (Inr (ex_flags ''cli'')) ex_os (s2\<lparr>ts_counter := 0\<rparr>) = (s3, TaskDone))"
  by (simp add: task_MakeServer_def task_MakeClient_def MakeServerCert_def MakeClientCert_def ex_tool_defs)

theorem tools_set_up_mtls_witness:
  "\<exists>fs caCert sc cc. LoadServer (\<lambda>b. \<not> isl (mk_ParseCert ex_crypto b)) (\<lambda>bs. Inr (pb_bytes (hd bs), ())) ''/d/mtls/srv.pem'' fs = Inr sc \<and>
    LoadClient (\<lambda>b. \<not> isl (mk_ParseCert ex_crypto b)) (\<lambda>bs. Inr (pb_bytes (hd bs), ())) ''/d/mtls/cli.pem'' fs = Inr cc \<and>
    tc_pool sc = [caCert] \<and> tc_pool cc = [caCert]"
proof -
  obtain s2 s3 where t:
    "task_MakeServer id (process ex_crypto (Inr ()) 0) ex_no_faults ''/d'' (Inr (ex_flags ''srv'')) ex_os ex_ca = (s2, TaskDone)"
    "task_MakeClient id (process ex_crypto (Inr ()) 0) ex_no_faults ''/d'' (Inr (ex_flags ''cli'')) ex_os (s2\<lparr>ts_counter := 0\<rparr>) = (s3, TaskDone)"
    using ex_server_task unfolding ex_process by blast
  have p: "MtlsBundlePath (mf_name (ex_flags ''srv'')) ex_os = Inr ''/d/mtls/srv.pem''"
    "MtlsBundlePath (mf_name (ex_flags ''cli'')) ex_os = Inr ''/d/mtls/cli.pem''"
    "mf_dataDir (ex_flags ''srv'') = []" "mf_dataDir (ex_flags ''cli'') = []"
    by (simp_all add: ex_flags_def ex_paths ex_names)
  show ?thesis
    by (rule tools_set_up_mtls [where cr = ex_crypto and pair = "\<lambda>bs. Inr (pb_bytes (hd bs), ())" and leaf = "\<lambda>d k. (d, k)",
          OF _ _ ex_dir [symmetric] p(3,4) t p(1,2), elim_format])
      (simp, simp add: ex_crypto_def, blast)
qed

end
