(* ===== verification/Mains.thy ===== *)
theory Mains
  imports Https Tools_Cli Client_Daemon Acme_User
begin

text \<open>
  The programs \<open>exec/server\<close> and \<open>exec/client\<close> with the helpers of \<open>pkg/cli\<close>: how a process starts
  from its flags, its environment and its configuration file, and how the server process ends. The
  process of the server is a step relation on its goroutines: the two listeners, the shutdown
  handler, the writer of the certificate cache and \<open>main\<close> itself.
\<close>

section \<open>Helpers\<close>

record Version =
  vr_Name :: string
  vr_Tag :: string
  vr_Date :: string

definition Version_String :: "Version \<Rightarrow> string" where
  "Version_String v = ''Certdx '' @ vr_Name v @ '' '' @ vr_Tag v @ '', built at '' @ vr_Date v"

datatype toml_error = OpenConfig string | ReadConfig string | ParseConfig string

text \<open>The file system and the decoder are parameters; the decoder starts from the target.\<close>

definition LoadTOML ::
    "(string \<Rightarrow> string + 'f) \<Rightarrow> ('f \<Rightarrow> string + bytes) \<Rightarrow> (bytes \<Rightarrow> 'c \<Rightarrow> string + 'c) \<Rightarrow> string \<Rightarrow> 'c \<Rightarrow> toml_error + 'c" where
  "LoadTOML openF readAll unmarshal path target =
     (case openF path of
        Inl e \<Rightarrow> Inl (OpenConfig e)
      | Inr f \<Rightarrow>
          (case readAll f of
             Inl e \<Rightarrow> Inl (ReadConfig e)
           | Inr b \<Rightarrow> (case unmarshal b target of Inl e \<Rightarrow> Inl (ParseConfig e) | Inr c \<Rightarrow> Inr c)))"

section \<open>Starting the server\<close>

record server_flags =
  sf_help :: bool
  sf_version :: bool
  sf_conf :: string
  sf_dataDir :: string

datatype start_fatal =
    ConfRequired
  | MakeServerFailed store_error
  | LoadFailed toml_error
  | InvalidConfig "config_error list"
  | InitFailed challenge_error

datatype 's start = ExitZero | StartFatal start_fatal | StartPanic | Started 's

text \<open>
  \<open>init\<close> of the server's main package. \<open>env\<close> is the value of \<open>CERTDX_DATA_DIR\<close>, \<open>load\<close> is
  \<open>LoadTOML\<close> with its files, \<open>made\<close> is \<open>MakeACME\<close>, \<open>file\<close> gives what is at the path of the cache.
\<close>

definition server_init where
  "server_init env load parse exists made lw now order ks file f os zero w =
     (if sf_help f then ExitZero
      else if sf_version f then ExitZero
      else
        let os' = applyDataDir env (sf_dataDir f) os in
        if sf_conf f = [] then StartFatal ConfRequired
        else
          (case MakeCertDXServer os' zero w of
             Inl e \<Rightarrow> StartFatal (MakeServerFailed e)
           | Inr cdxsrv \<Rightarrow>
               (case load (sf_conf f) (sv_Config cdxsrv) of
                  Inl e \<Rightarrow> StartFatal (LoadFailed e)
                | Inr c \<Rightarrow>
                    let (c', errs) = ServerConfig_Validate parse exists c in
                    if errs \<noteq> [] then StartFatal (InvalidConfig errs)
                    else
                      (case Init (made c') lw now order ks (file (st_path (sv_certStore cdxsrv)))
                              (cdxsrv\<lparr>sv_Config := c'\<rparr>) of
                         Panic \<Rightarrow> StartPanic
                       | Fail e \<Rightarrow> StartFatal (InitFailed e)
                       | Return r \<Rightarrow> Started r))))"

text \<open>\<open>MakeACME\<close> with the account that \<open>makeACMEUser\<close> loads or registers from the files and services
  \<open>st\<close>; \<open>errText\<close> is the text of an error. What it leaves of the files is in \<open>Acme_User\<close>.\<close>

definition MakeACME_with_user ::
    "('k, 'r, 'w) user_env \<Rightarrow> (user_error \<Rightarrow> string) \<Rightarrow> os_env \<Rightarrow> tool_fs \<times> 'w \<Rightarrow> string \<Rightarrow>
     (string \<Rightarrow> string + 'v lego_client) \<Rightarrow> sdk \<Rightarrow> (challenger \<Rightarrow> string option) \<Rightarrow>
     ServerConfig \<Rightarrow> (challenge_error, 'v obtainer_impl) outcome" where
  "MakeACME_with_user ev errText os st tag newClient sdk installF c =
     MakeACME tag (case snd (makeACMEUser ev os c st) of Inl e \<Rightarrow> Some (errText e) | Inr user \<Rightarrow> None)
       newClient sdk installF c"

section \<open>The client\<close>

record client_flags =
  cf_help :: bool
  cf_version :: bool
  cf_conf :: string
  cf_test :: bool

datatype client_fatal = ClientConfRequired | ClientLoadFailed string | ClientInvalid "client_error list"

datatype 's client_start = ClientExitZero | ClientFatal client_fatal | ClientStarted 's bool

text \<open>\<open>init\<close> of the client's main package. The second argument of \<open>ClientStarted\<close>: the option
  \<open>WithCertDXInsecure\<close> was appended.\<close>

definition client_init where
  "client_init parse exists load lw readErr fs writer zero f =
     (if cf_help f then ClientExitZero
      else if cf_version f then ClientExitZero
      else if cf_conf f = [] then ClientFatal ClientConfRequired
      else
        (case LoadConfigurationAndValidateOpt parse exists (load (cf_conf f)) [] (MakeCertDXClientDaemon zero) of
           (r, Inl e) \<Rightarrow> ClientFatal (ClientLoadFailed e)
         | (r, Inr errs) \<Rightarrow>
             if errs \<noteq> [] then ClientFatal (ClientInvalid errs)
             else ClientStarted (ClientInit lw readErr fs writer r) (cf_test f)))"

datatype client_run = RunHttp | RunGrpc | UnsupportedClientMode string

definition client_main :: "'h CertDXClientDaemon \<Rightarrow> client_run" where
  "client_main r =
     (let mode = cc_Mode (cl_Common (dm_Config r)) in
      if mode = CLIENT_MODE_HTTP then RunHttp
      else if mode = CLIENT_MODE_GRPC then RunGrpc
      else UnsupportedClientMode mode)"

section \<open>The process of the server\<close>

text \<open>A goroutine of \<open>main\<close> with a listener: it was not started, the listener runs, has returned an
  error and \<open>Stop\<close> is to be called, or the goroutine has ended.\<close>

datatype sub_pc = SubOff | SubRunning | SubFailed | SubEnded

text \<open>\<open>WaitForShutdown\<close>: before the first signal, at the select with \<open>Stop\<close> not yet called, at the
  select with \<open>done\<close> closed, returned.\<close>

datatype shutdown_pc = SdSignal | SdStopping | SdDone | SdReturned

datatype exit_code = MainReturned | ForcedShutdown | ShutdownTimedOut

record process =
  pr_stopped :: bool
  pr_http :: sub_pc
  pr_sds :: sub_pc
  pr_shutdown :: shutdown_pc
  pr_signals :: nat                 \<comment> \<open>in the buffer of two\<close>
  pr_writer :: listener
  pr_exit :: "exit_code option"

definition main_start :: "ServerConfig \<Rightarrow> listener \<Rightarrow> process" where
  "main_start c l =
     \<lparr>pr_stopped = False, pr_http = (if hs_Enabled (sc_HttpServer c) then SubRunning else SubOff),
      pr_sds = (if gs_Enabled (sc_GRPCSDSServer c) then SubRunning else SubOff),
      pr_shutdown = SdSignal, pr_signals = 0, pr_writer = l, pr_exit = None\<rparr>"

inductive process_step :: "(string \<Rightarrow> string) \<Rightarrow> process \<Rightarrow> process \<Rightarrow> bool" for lw where
  http_error: "pr_exit p = None \<Longrightarrow> pr_http p = SubRunning \<Longrightarrow> process_step lw p (p\<lparr>pr_http := SubFailed\<rparr>)"
| http_stop: "pr_exit p = None \<Longrightarrow> pr_http p = SubFailed \<Longrightarrow>
    process_step lw p (p\<lparr>pr_http := SubEnded, pr_stopped := True\<rparr>)"
| http_end: "pr_exit p = None \<Longrightarrow> pr_http p = SubRunning \<Longrightarrow> pr_stopped p \<Longrightarrow>
    process_step lw p (p\<lparr>pr_http := SubEnded\<rparr>)"
| sds_error: "pr_exit p = None \<Longrightarrow> pr_sds p = SubRunning \<Longrightarrow> process_step lw p (p\<lparr>pr_sds := SubFailed\<rparr>)"
| sds_stop: "pr_exit p = None \<Longrightarrow> pr_sds p = SubFailed \<Longrightarrow>
    process_step lw p (p\<lparr>pr_sds := SubEnded, pr_stopped := True\<rparr>)"
| sds_end: "pr_exit p = None \<Longrightarrow> pr_sds p = SubRunning \<Longrightarrow> pr_stopped p \<Longrightarrow>
    process_step lw p (p\<lparr>pr_sds := SubEnded\<rparr>)"
| signal: "pr_exit p = None \<Longrightarrow> pr_shutdown p \<noteq> SdReturned \<Longrightarrow> pr_signals p < 2 \<Longrightarrow>
    process_step lw p (p\<lparr>pr_signals := pr_signals p + 1\<rparr>)"
| first_signal: "pr_exit p = None \<Longrightarrow> pr_shutdown p = SdSignal \<Longrightarrow> 0 < pr_signals p \<Longrightarrow>
    process_step lw p (p\<lparr>pr_shutdown := SdStopping, pr_signals := pr_signals p - 1\<rparr>)"
| shutdown_stops: "pr_exit p = None \<Longrightarrow> pr_shutdown p = SdStopping \<Longrightarrow>
    process_step lw p (p\<lparr>pr_shutdown := SdDone, pr_stopped := True\<rparr>)"
| shutdown_returns: "pr_exit p = None \<Longrightarrow> pr_shutdown p = SdDone \<Longrightarrow>
    process_step lw p (p\<lparr>pr_shutdown := SdReturned\<rparr>)"
| second_signal: "pr_exit p = None \<Longrightarrow> pr_shutdown p \<in> {SdStopping, SdDone} \<Longrightarrow> 0 < pr_signals p \<Longrightarrow>
    process_step lw p (p\<lparr>pr_exit := Some ForcedShutdown\<rparr>)"
| times_out: "pr_exit p = None \<Longrightarrow> pr_shutdown p = SdStopping \<Longrightarrow>
    process_step lw p (p\<lparr>pr_exit := Some ShutdownTimedOut\<rparr>)"
| writer: "pr_exit p = None \<Longrightarrow> listen_step lw (pr_writer p) l \<Longrightarrow>
    li_done l = li_done (pr_writer p) \<or> pr_stopped p \<Longrightarrow>
    process_step lw p (p\<lparr>pr_writer := l\<rparr>)"
| main_returns: "pr_exit p = None \<Longrightarrow> pr_stopped p \<Longrightarrow> process_step lw p (p\<lparr>pr_exit := Some MainReturned\<rparr>)"

section \<open>Lemmas\<close>

text \<open>Seen from the writer, the process takes its steps.\<close>

lemma process_writer: "process_step lw p p' \<Longrightarrow> (listen_step lw)\<^sup>=\<^sup>= (pr_writer p) (pr_writer p')"
  by (induction rule: process_step.induct) auto

lemma process_writer_run: "(process_step lw)\<^sup>*\<^sup>* p p' \<Longrightarrow> (listen_step lw)\<^sup>*\<^sup>* (pr_writer p) (pr_writer p')"
proof (induction rule: rtranclp_induct)
  case (step q r)
  then show ?case using process_writer [OF step.hyps(2)] by auto
qed simp

text \<open>\<open>main\<close> returns only when the root context is done.\<close>

definition process_inv :: "process \<Rightarrow> bool" where
  "process_inv p \<longleftrightarrow> (pr_exit p = Some MainReturned \<longrightarrow> pr_stopped p)"

interpretation process: step_invariant "\<lambda>p. pr_exit p = None" "process_step lw" process_inv
proof
  show "process_inv p \<Longrightarrow> process_step lw p p' \<Longrightarrow> process_inv p'" for p p'
    by (rotate_tac, induction rule: process_step.induct) (auto simp: process_inv_def)
qed (simp add: process_inv_def)

section \<open>Properties\<close>

text \<open>
  C27: The start of the server, with a configuration file that can be read and whatever is at the path
  of the certificate cache. The process ends with the list of errors exactly when the configuration
  does not meet its specification. A valid one fails only on the obtainer: on an error of the ACME
  account, an SDK or lego, or because the S3 bucket it names is empty, which validation does not look
  at. It panics only on a cache file with a \<open>null\<close> entry. Otherwise the server starts, with the
  validated configuration and not stopped; its cache is empty on the first start and when the file
  cannot be read or is not JSON, holds of any other file only unexpired certificates, each under the
  key of its names, with one for every bundle, and is exactly the unexpired part of a file whose keys
  are those of the names, as the server writes it. \<open>order\<close> and \<open>ks\<close> are the orders in which the two
  loops over maps visit the file and the loaded store.
\<close>

theorem server_start:
  fixes cacheFile
  assumes flags: "\<not> sf_help f" "\<not> sf_version f" "sf_conf f \<noteq> []"
    and new: "MakeCertDXServer (applyDataDir env (sf_dataDir f) os) zero w = Inr s\<^sub>0"
    and load: "load (sf_conf f) (sv_Config s\<^sub>0) = Inr c"
    and order: "\<And>raw. cacheFile (st_path (sv_certStore s\<^sub>0)) = Some (JsonStore raw) \<Longrightarrow> set order = dom raw"
    and ks: "\<And>st. Load lw now order (cacheFile (st_path (sv_certStore s\<^sub>0))) (sv_certStore s\<^sub>0) = Return st \<Longrightarrow>
      set ks = dom (st_entries st)"
  shows "case server_init env load parse exists
        (MakeACME_with_user ev errText (applyDataDir env (sf_dataDir f) os) st tag client sdk installF)
        lw now order ks cacheFile f os zero w of
      StartFatal (InvalidConfig errs) \<Rightarrow> \<not> config_ok parse exists c \<and> errs \<noteq> []
    | StartFatal (InitFailed e) \<Rightarrow> config_ok parse exists c \<and>
        (environment_error e \<or> e = S3BucketRequired \<and> bucket_missing c)
    | StartPanic \<Rightarrow> config_ok parse exists c \<and>
        (\<exists>raw k. cacheFile (st_path (sv_certStore s\<^sub>0)) = Some (JsonStore raw) \<and> raw k = Some None)
    | Started (ob, s) \<Rightarrow> config_ok parse exists c \<and> sv_Config s = fst (ServerConfig_Validate parse exists c) \<and>
        \<not> sv_stopped s \<and> cache_from lw now (cacheFile (st_path (sv_certStore s\<^sub>0))) (sv_cache s) \<and>
        (\<nexists>raw k. cacheFile (st_path (sv_certStore s\<^sub>0)) = Some (JsonStore raw) \<and> raw k = Some None) \<and>
        (\<forall>es. cacheFile (st_path (sv_certStore s\<^sub>0)) = Some (JsonStore (\<lambda>k. map_option Some (es k))) \<and> store_wf lw es \<longrightarrow>
          (\<forall>k. map_option e_cert (sv_cache s k) =
           (case es k of Some e \<Rightarrow> if IsValid now (se_Cert e) then Some (se_Cert e) else None | None \<Rightarrow> None)))
    | _ \<Rightarrow> False"
proof (cases "config_ok parse exists c")
  case False
  then have "snd (ServerConfig_Validate parse exists c) \<noteq> []" by (simp add: Validate_ok_iff)
  then show ?thesis
    using flags new load False by (simp add: server_init_def case_prod_beta)
next
  case True
  let ?v = "ServerConfig_Validate parse exists c"
  let ?made = "MakeACME_with_user ev errText (applyDataDir env (sf_dataDir f) os) st tag client sdk installF (fst ?v)"
  let ?file = "cacheFile (st_path (sv_certStore s\<^sub>0))"
  let ?s = "s\<^sub>0\<lparr>sv_Config := fst ?v\<rparr>"
  have ok: "snd ?v = []" using True by (simp add: Validate_ok_iff)
  have "IsMock (ac_Provider (sc_ACME (fst ?v))) \<or> challenge_ok (fst ?v)"
    using True by (simp add: config_ok_def Validate_keeps_challenge)
  then have made: "?made \<noteq> Panic \<and> (\<forall>e. ?made = Fail e \<longrightarrow> environment_error e \<or> e = S3BucketRequired \<and> bucket_missing c)"
    using MakeACME_ok [of "fst ?v"] Validate_keeps_challenge(3) [of parse exists c]
    by (simp add: MakeACME_with_user_def obtainer_error_def)
  have run: "server_init env load parse exists
        (MakeACME_with_user ev errText (applyDataDir env (sf_dataDir f) os) st tag client sdk installF)
        lw now order ks cacheFile f os zero w =
      (case Init ?made lw now order ks ?file ?s of
         Panic \<Rightarrow> StartPanic | Fail e \<Rightarrow> StartFatal (InitFailed e) | Return r \<Rightarrow> Started r)"
    using flags new load ok by (simp add: server_init_def case_prod_beta)
  show ?thesis
  proof (cases ?made)
    case (Return ob)
    have started: "((\<exists>raw k. ?file = Some (JsonStore raw) \<and> raw k = Some None) \<longrightarrow>
        Init (Return ob) lw now order ks ?file ?s = Panic) \<and>
      (\<not> (\<exists>raw k. ?file = Some (JsonStore raw) \<and> raw k = Some None) \<longrightarrow>
        (\<exists>s'. Init (Return ob) lw now order ks ?file ?s = Return (ob, s') \<and> sv_Config s' = sv_Config ?s \<and>
          sv_stopped s' = sv_stopped ?s \<and> cache_from lw now ?file (sv_cache s')))"
      by (rule Init_file) (use order ks MakeCertDXServer_new [OF new] in auto)
    show ?thesis
    proof (cases "\<exists>raw k. ?file = Some (JsonStore raw) \<and> raw k = Some None")
      case null: True
      then have "Init (Return ob) lw now order ks ?file ?s = Panic" using started by blast
      then show ?thesis using run Return True null by simp
    next
      case False
      then obtain s' where s': "Init (Return ob) lw now order ks ?file ?s = Return (ob, s')" "sv_Config s' = sv_Config ?s"
        "sv_stopped s' = sv_stopped ?s" "cache_from lw now ?file (sv_cache s')"
        using started by blast
      have "\<forall>es. ?file = Some (JsonStore (\<lambda>k. map_option Some (es k))) \<and> store_wf lw es \<longrightarrow>
          (\<forall>k. map_option e_cert (sv_cache s' k) =
           (case es k of Some e \<Rightarrow> if IsValid now (se_Cert e) then Some (se_Cert e) else None | None \<Rightarrow> None))"
        by (intro allI impI, elim conjE, rule cache_from_stored) (use s'(4) in simp_all)
      then show ?thesis
        using s' run Return True False MakeCertDXServer_new [OF new] by simp
    qed
  next
    case (Fail e)
    then show ?thesis using run made True by (simp add: Init_def)
  qed (use made in blast)
qed

text \<open>
  C28: What the end of the process means for renewals. When \<open>main\<close> returns the server has been
  stopped. If the writer of the cache has ended by then and its last write succeeded, the file holds
  every certificate that was handed to it. But \<open>main\<close> does not wait for the writer: for every
  certificate there is a run in which it was handed over, a signal stops the server and the process
  ends with the file as it was at the start.
\<close>

theorem exit_and_renewals:
  assumes "listener_init lw l" "length (st_update (li_store l)) < 10"
  shows "(\<forall>p. (process_step lw)\<^sup>*\<^sup>* (main_start c l) p \<and> pr_exit p = Some MainReturned \<longrightarrow> pr_stopped p \<and>
      (li_ended (pr_writer p) \<and> li_sent (pr_writer p) \<noteq> [] \<and> li_lastErr (pr_writer p) = None \<longrightarrow>
         li_file (pr_writer p) = Some (JsonStore (\<lambda>k. map_option Some
           (store_upds lw (st_entries (li_store l)) (li_sent (pr_writer p)) k))))) \<and>
    (\<exists>p. (process_step lw)\<^sup>*\<^sup>* (main_start c l) p \<and> pr_exit p = Some MainReturned \<and>
       fe \<in> set (li_sent (pr_writer p)) \<and> li_file (pr_writer p) = li_file l)"
proof (intro conjI allI impI; (elim conjE)?)
  fix p
  assume run: "(process_step lw)\<^sup>*\<^sup>* (main_start c l) p" and "pr_exit p = Some MainReturned"
  then show "pr_stopped p" using process.inv_reachable [OF _ run] by (simp add: main_start_def process_inv_def)
  assume "li_ended (pr_writer p)" "li_sent (pr_writer p) \<noteq> []" "li_lastErr (pr_writer p) = None"
  then show "li_file (pr_writer p) = Some (JsonStore (\<lambda>k. map_option Some
      (store_upds lw (st_entries (li_store l)) (li_sent (pr_writer p)) k)))"
    using listener.inv_reachable [of lw l l "pr_writer p"] assms(1) process_writer_run [OF run]
    by (simp add: listener_inv_def main_start_def)
next
  let ?l = "l\<lparr>li_store := (li_store l)\<lparr>st_update := st_update (li_store l) @ [fe]\<rparr>,
      li_sent := (if li_ended l then li_sent l else li_sent l @ [fe])\<rparr>"
  let ?p = "main_start c l"
  have "(process_step lw)\<^sup>*\<^sup>* ?p ?p" by simp
  also have "process_step lw ?p (?p\<lparr>pr_writer := ?l\<rparr>)"
    using writer [of ?p lw ?l] send [OF assms(2), of lw fe] by (simp add: main_start_def)
  also have "process_step lw (?p\<lparr>pr_writer := ?l\<rparr>) (?p\<lparr>pr_writer := ?l, pr_signals := 1\<rparr>)"
    using signal [of "?p\<lparr>pr_writer := ?l\<rparr>" lw] by (simp add: main_start_def)
  also have "process_step lw (?p\<lparr>pr_writer := ?l, pr_signals := 1\<rparr>) (?p\<lparr>pr_writer := ?l, pr_shutdown := SdStopping\<rparr>)"
    using first_signal [of "?p\<lparr>pr_writer := ?l, pr_signals := 1\<rparr>" lw] by (simp add: main_start_def)
  also have "process_step lw (?p\<lparr>pr_writer := ?l, pr_shutdown := SdStopping\<rparr>)
      (?p\<lparr>pr_writer := ?l, pr_shutdown := SdDone, pr_stopped := True\<rparr>)"
    using shutdown_stops [of "?p\<lparr>pr_writer := ?l, pr_shutdown := SdStopping\<rparr>" lw] by (simp add: main_start_def)
  also have "process_step lw (?p\<lparr>pr_writer := ?l, pr_shutdown := SdDone, pr_stopped := True\<rparr>)
      (?p\<lparr>pr_writer := ?l, pr_shutdown := SdDone, pr_stopped := True, pr_exit := Some MainReturned\<rparr>)"
    using main_returns [of "?p\<lparr>pr_writer := ?l, pr_shutdown := SdDone, pr_stopped := True\<rparr>" lw] by (simp add: main_start_def)
  finally have "(process_step lw)\<^sup>*\<^sup>* ?p
    (?p\<lparr>pr_writer := ?l, pr_shutdown := SdDone, pr_stopped := True, pr_exit := Some MainReturned\<rparr>)" .
  moreover have "fe \<in> set (li_sent ?l)" using assms(1) by (simp add: listener_init_def)
  ultimately show "\<exists>p. (process_step lw)\<^sup>*\<^sup>* (main_start c l) p \<and> pr_exit p = Some MainReturned \<and>
       fe \<in> set (li_sent (pr_writer p)) \<and> li_file (pr_writer p) = li_file l"
    by (intro exI conjI) (assumption, simp_all)
qed

definition ex_listener :: listener where
  "ex_listener = \<lparr>li_store = example_store, li_file = None, li_keys = [AsKey id [''a.b'']], li_done = False,
     li_ended = False, li_sent = [], li_taken = [], li_lastErr = None\<rparr>"

theorem exit_and_renewals_witness:
  "\<exists>p. (process_step id)\<^sup>*\<^sup>* (main_start example_config ex_listener) p \<and> pr_exit p = Some MainReturned \<and>
     \<lparr>se_Domains = [''c.d''], se_Cert = zero_CertT\<rparr> \<in> set (li_sent (pr_writer p)) \<and> li_file (pr_writer p) = None"
proof -
  have "listener_init id ex_listener" "length (st_update (li_store ex_listener)) < 10" "li_file ex_listener = None"
    by (auto simp: listener_init_def store_wf_def ex_listener_def example_store_def)
  with exit_and_renewals [OF this(1,2), of example_config "\<lparr>se_Domains = [''c.d''], se_Cert = zero_CertT\<rparr>"]
  show ?thesis by simp
qed

definition ex_server_flags :: server_flags where
  "ex_server_flags = \<lparr>sf_help = False, sf_version = False, sf_conf = ''c'', sf_dataDir = []\<rparr>"

lemma ex_cache_path: "ServerCachePath ex_os = Inr ''/d/cache.json''"
  by code_simp

text \<open>A first start, and a start from a file with one entry.\<close>

theorem server_start_witness:
  "\<forall>stored. case server_init ''/d'' (\<lambda>_ _. Inr example_config) example_parse (\<lambda>_. False)
       (MakeACME_with_user ex_user_env (\<lambda>_. ''user'') ex_os (Map.empty, []) [] (\<lambda>_. Inr (\<lambda>r w :: unit. (w, Inl ''down''))) (\<lambda>_. None) (\<lambda>_. None))
       id 100 [AsKey id [''a.b'']] [AsKey id [''a.b'']]
       (\<lambda>_. if stored then Some (JsonStore (\<lambda>k. map_option Some (st_entries example_store k))) else None)
       ex_server_flags ex_os example_config () of
     StartFatal (InitFailed e) \<Rightarrow> environment_error e \<or> e = S3BucketRequired \<and> bucket_missing example_config
   | Started (ob, s) \<Rightarrow> map_option e_cert (sv_cache s (AsKey id [''a.b''])) =
       (if stored then Some (zero_CertT\<lparr>c_ValidBefore := 200\<rparr>) else None)
   | _ \<Rightarrow> False"
proof
  fix stored
  let ?file = "\<lambda>_ :: string. if stored then Some (JsonStore (\<lambda>k. map_option Some (st_entries example_store k))) else None"
  obtain s\<^sub>0 where new: "MakeCertDXServer ex_os example_config () = Inr s\<^sub>0"
    by (simp add: MakeCertDXServer_def NewCertStore_def ex_cache_path)
  have dir: "applyDataDir ''/d'' (sf_dataDir ex_server_flags) ex_os = ex_os"
    by (simp add: ex_server_flags_def ex_dir)
  have es: "store_wf id (st_entries example_store)" "set [AsKey id [''a.b'']] = dom (st_entries example_store)"
    "st_entries example_store (AsKey id [''a.b'']) = Some \<lparr>se_Domains = [''a.b''], se_Cert = zero_CertT\<lparr>c_ValidBefore := 200\<rparr>\<rparr>"
    "IsValid 100 (zero_CertT\<lparr>c_ValidBefore := 200\<rparr>)"
    by (auto simp: store_wf_def example_store_def IsValid_def)
  have order: "set [AsKey id [''a.b'']] = dom raw" if "?file (st_path (sv_certStore s\<^sub>0)) = Some (JsonStore raw)" for raw
    using es(2) that by (auto simp: dom_def split: if_splits)
  have ks: "set [AsKey id [''a.b'']] = dom (st_entries st)"
    if "Load id 100 [AsKey id [''a.b'']] (?file (st_path (sv_certStore s\<^sub>0))) (sv_certStore s\<^sub>0) = Return st" for st
    using that Load_stored [OF es(1,2), of "sv_certStore s\<^sub>0" 100] MakeCertDXServer_new [OF new] es(3,4)
    by (auto simp: Load_def example_store_def split: if_splits)
  note start = server_start [where f = ex_server_flags and os = ex_os and env = "''/d''" and load = "\<lambda>_ _. Inr example_config" and c = example_config
      and parse = example_parse and exists = "\<lambda>_. False" and cacheFile = ?file and ev = ex_user_env and errText = "\<lambda>_. ''user''"
      and st = "(Map.empty, [])" and tag = "[]" and client = "\<lambda>_. Inr (\<lambda>r w :: unit. (w, Inl ''down''))" and sdk = "\<lambda>_. None" and installF = "\<lambda>_. None"
      and lw = id and now = 100 and order = "[AsKey id [''a.b'']]" and ks = "[AsKey id [''a.b'']]" and zero = example_config and w = "()"
      and s\<^sub>0 = s\<^sub>0, unfolded dir, OF _ _ _ new refl order ks]
  show "case server_init ''/d'' (\<lambda>_ _. Inr example_config) example_parse (\<lambda>_. False)
       (MakeACME_with_user ex_user_env (\<lambda>_. ''user'') ex_os (Map.empty, []) [] (\<lambda>_. Inr (\<lambda>r w :: unit. (w, Inl ''down''))) (\<lambda>_. None) (\<lambda>_. None))
       id 100 [AsKey id [''a.b'']] [AsKey id [''a.b'']] ?file ex_server_flags ex_os example_config () of
     StartFatal (InitFailed e) \<Rightarrow> environment_error e \<or> e = S3BucketRequired \<and> bucket_missing example_config
   | Started (ob, s) \<Rightarrow> map_option e_cert (sv_cache s (AsKey id [''a.b''])) =
       (if stored then Some (zero_CertT\<lparr>c_ValidBefore := 200\<rparr>) else None)
   | _ \<Rightarrow> False"
    using start es(1,3,4)
    by (cases stored)
      (auto simp: ex_server_flags_def example_config_ok cache_from_def split: start.splits start_fatal.splits
        dest!: spec [of _ "st_entries example_store"] spec [of _ "AsKey id [''a.b'']"])
qed

text \<open>
  The start of the client: when it starts, its mode is one that \<open>main\<close> supports and the main
  server of that mode is set, certificate checks are off exactly when the test flag was given, and
  there is a watched certificate for the bundle of every configured one.
\<close>

theorem client_start:
  assumes "client_init parse exists load lw readErr fs writer zero f = ClientStarted r insecure"
  shows "insecure = cf_test f \<and>
    (client_main r = RunHttp \<and> ch_Url (cl_HttpMain (dm_Config r)) \<noteq> [] \<or>
     client_main r = RunGrpc \<and> cg_Server (cl_GRPCMain (dm_Config r)) \<noteq> []) \<and>
    cl_Certifications (dm_Config r) \<noteq> [] \<and>
    (\<forall>c \<in> set (cl_Certifications (dm_Config r)). \<exists>wc. dm_certs r (AsKey lw (cf_Domains c)) = Some wc \<and>
       AsKey lw (cf_Domains (wc_Config wc)) = AsKey lw (cf_Domains c))"
proof -
  let ?d = "MakeCertDXClientDaemon zero :: 'a CertDXClientDaemon"
  obtain c where c: "load (cf_conf f) (dm_Config ?d) = Inr c" "snd (ClientConfig_Validate parse exists [] c) = []"
      "r = ClientInit lw readErr fs writer (?d\<lparr>dm_Config := fst (ClientConfig_Validate parse exists [] c)\<rparr>)" "insecure = cf_test f"
    using assms
    by (auto simp: client_init_def LoadConfigurationAndValidateOpt_def Let_def case_prod_beta split: if_splits sum.splits)
  have ok: "client_config_ok parse exists makeValidatingConfiguration c"
    using c(2) by (simp add: ClientConfig_Validate_iff)
  have same: "cl_HttpMain (fst (ClientConfig_Validate parse exists [] c)) = cl_HttpMain c"
    "cl_GRPCMain (fst (ClientConfig_Validate parse exists [] c)) = cl_GRPCMain c"
    "cl_Certifications (fst (ClientConfig_Validate parse exists [] c)) = cl_Certifications c"
    "cc_Mode (cl_Common (fst (ClientConfig_Validate parse exists [] c))) = cc_Mode (cl_Common c)"
    by (auto simp: ClientConfig_Validate_def ClientConfig_parseDuration_def Let_def split: option.splits)
  have watched: "\<exists>wc. dm_certs r (AsKey lw (cf_Domains x)) = Some wc \<and> AsKey lw (cf_Domains (wc_Config wc)) = AsKey lw (cf_Domains x)"
    if "x \<in> set (cl_Certifications c)" for x
  proof -
    let ?ys = "filter (\<lambda>y. AsKey lw (cf_Domains y) = AsKey lw (cf_Domains x)) (cl_Certifications c)"
    have ne: "?ys \<noteq> []" using that by (auto simp: filter_empty_conv)
    then have "dm_certs r (AsKey lw (cf_Domains x)) = Some (init_cert readErr fs writer (last ?ys))"
      using c(3) same(3) by (simp add: ClientInit_def foldl_upd_at split: list.splits)
    moreover have "AsKey lw (cf_Domains (last ?ys)) = AsKey lw (cf_Domains x)" using last_in_set [OF ne] by simp
    ultimately show ?thesis by (simp add: init_cert_def case_prod_beta)
  qed
  have conf: "dm_Config r = fst (ClientConfig_Validate parse exists [] c)" using c(3) by (simp add: ClientInit_def)
  have "client_main r = RunHttp \<and> ch_Url (cl_HttpMain c) \<noteq> [] \<or> client_main r = RunGrpc \<and> cg_Server (cl_GRPCMain c) \<noteq> []"
    using ok same(4) conf by (auto simp: client_main_def client_config_ok_def)
  moreover have "cl_Certifications c \<noteq> []"
    using ok by (simp add: client_config_ok_def makeValidatingConfiguration_def)
  ultimately show ?thesis
    using c(4) watched by (simp add: conf same)
qed

theorem client_start_witness:
  "\<exists>r wc. client_init (\<lambda>_. Some 1) (\<lambda>_. True) (\<lambda>_ _. Inr example_client_config) id (\<lambda>_. True) Map.empty () example_client_config
       \<lparr>cf_help = False, cf_version = False, cf_conf = ''c'', cf_test = False\<rparr> = ClientStarted r False \<and>
     client_main r = RunHttp \<and> dm_certs r (AsKey id [''a.b'']) = Some wc"
proof -
  let ?f = "\<lparr>cf_help = False, cf_version = False, cf_conf = ''c'', cf_test = False\<rparr>"
  have "snd (ClientConfig_Validate (\<lambda>_. Some 1) (\<lambda>_. True) [] example_client_config) = []"
    unfolding ClientConfig_Validate_iff
    by (simp add: client_config_ok_def example_client_config_def example_certification_def CLIENT_MODE_HTTP_def server_ok_def
        HTTP_AUTH_TOKEN_def)
  then obtain r where r: "client_init (\<lambda>_. Some 1) (\<lambda>_. True) (\<lambda>_ _. Inr example_client_config) id (\<lambda>_. True) Map.empty () example_client_config ?f
      = ClientStarted r False" "dm_Config r = fst (ClientConfig_Validate (\<lambda>_. Some 1) (\<lambda>_. True) [] example_client_config)"
    by (simp add: client_init_def LoadConfigurationAndValidateOpt_def case_prod_beta ClientInit_def)
  have "cl_Certifications (dm_Config r) = [example_certification]" "cc_Mode (cl_Common (dm_Config r)) = CLIENT_MODE_HTTP"
    by (simp_all add: r(2) ClientConfig_Validate_def ClientConfig_parseDuration_def Let_def example_client_config_def CLIENT_MODE_HTTP_def)
  then show ?thesis
    using client_start [OF r(1)] r(1) by (auto simp: example_certification_def client_main_def)
qed

end
