(* ===== verification/Whole_Server.thy ===== *)
theory Whole_Server
  imports Mains
begin

text \<open>
  The server as a whole between its calls: a step is one call of a handler, of the renewal goroutine
  or of the writer of the cache file, on the one state they share. The interleavings inside a call
  are in \<open>Entry_Concurrency\<close>. The subject is what the cached entries, the store and the queue between
  them have to do with each other over any run.
\<close>

section \<open>Steps\<close>

text \<open>\<open>rn_keys\<close> enumerates the keys of the store. \<open>rn_unsent\<close> is history: the bundles whose last
  renewal has not been handed to the writer, because the call waits for room in the queue or because
  its context was done. A call that waits for room sends later (\<open>late_send\<close>); it holds \<open>renewMu\<close>, so the
  entry still has the certificate it published. \<open>rn_synced\<close>: there was a write and the last one succeeded.\<close>

record 'w running =
  rn_srv :: "'w CertDXServer"
  rn_file :: "store_file option"
  rn_keys :: "Key list"
  rn_unsent :: "Key set"
  rn_synced :: bool

definition version_of :: "'w CertDXServer \<Rightarrow> Key \<Rightarrow> 64 word" where
  "version_of s k = (case sv_cache s k of None \<Rightarrow> 0 | Some e \<Rightarrow> e_version e)"

definition published :: "'w CertDXServer \<Rightarrow> 'w CertDXServer \<Rightarrow> Key set" where
  "published s s' = {k. version_of s' k \<noteq> version_of s k}"

definition after_call :: "'w running \<Rightarrow> 'w CertDXServer \<Rightarrow> 'w running" where
  "after_call p s =
     p\<lparr>rn_srv := s, rn_unsent :=
       (if st_update (sv_certStore s) = st_update (sv_certStore (rn_srv p))
        then rn_unsent p \<union> published (rn_srv p) s else rn_unsent p - published (rn_srv p) s)\<rparr>"

inductive running_step :: "(string \<Rightarrow> string) \<Rightarrow> 'w running \<Rightarrow> 'w running \<Rightarrow> bool" for lw where
  http_request: "ce_lw E = lw \<Longrightarrow> listener_handler l E r (rn_srv p) = (resp, s) \<Longrightarrow>
    running_step lw p (after_call p s)"
| sds_request: "sd_srv st = rn_srv p \<Longrightarrow> recv_request lw iter req st = (acks, err, st') \<Longrightarrow>
    running_step lw p (after_call p (sd_srv st'))"
| https_names: "get lw (sv_chans (rn_srv p)) names (sv_cache (rn_srv p)) = (k, m) \<Longrightarrow>
    running_step lw p (after_call p ((rn_srv p)\<lparr>sv_cache := m, sv_chans := sv_chans (rn_srv p) + 1\<rparr>))"
| renewal: "renew_iteration ctxErr now obtainF retryF pick fires sleep k (rn_srv p) = (goes_on, s) \<Longrightarrow>
    running_step lw p (after_call p s)"
| late_send: "k \<in> rn_unsent p \<Longrightarrow> sv_cache (rn_srv p) k = Some e \<Longrightarrow>
    length (st_update (sv_certStore (rn_srv p))) < 10 \<Longrightarrow>
    running_step lw p (p\<lparr>rn_srv := (rn_srv p)\<lparr>sv_certStore := (sv_certStore (rn_srv p))\<lparr>st_update :=
        st_update (sv_certStore (rn_srv p)) @ [\<lparr>se_Domains = e_domains e, se_Cert = e_cert e\<rparr>]\<rparr>\<rparr>,
      rn_unsent := rn_unsent p - {k}\<rparr>)"
| consumer: "server_subscribe k (rn_srv p) = (ctx, s) \<Longrightarrow> running_step lw p (after_call p s)"
| consumer_leaves: "server_release k (rn_srv p) = (ctx, s) \<Longrightarrow> running_step lw p (after_call p s)"
| writes: "st_update (sv_certStore (rn_srv p)) = fe # q \<Longrightarrow>
    saveEntry lw (rn_keys p) wr fe ((sv_certStore (rn_srv p))\<lparr>st_update := q\<rparr>) (rn_file p) = (st, f, err) \<Longrightarrow>
    running_step lw p (p\<lparr>rn_srv := (rn_srv p)\<lparr>sv_certStore := st\<rparr>, rn_file := f,
      rn_keys := AsKey lw (se_Domains fe) # rn_keys p, rn_synced := (err = None)\<rparr>)"
| time_passes: "running_step lw p (p\<lparr>rn_srv := (rn_srv p)\<lparr>sv_world := w\<rparr>\<rparr>)"
| stops: "running_step lw p (p\<lparr>rn_srv := Stop (rn_srv p)\<rparr>)"

text \<open>The state after \<open>MakeCertDXServer\<close> and \<open>Init\<close>; \<open>range\<close> visits every key of the loaded map.\<close>

definition running_init :: "(string \<Rightarrow> string) \<Rightarrow> 'w running \<Rightarrow> bool" where
  "running_init lw p \<longleftrightarrow> rn_unsent p = {} \<and> \<not> rn_synced p \<and>
     (\<exists>os zero w s\<^sub>0 cfg (ob :: unit) now order ks.
        MakeCertDXServer os zero w = Inr s\<^sub>0 \<and>
        Init (Return ob) lw now order ks (rn_file p) (s\<^sub>0\<lparr>sv_Config := cfg\<rparr>) = Return (ob, rn_srv p) \<and>
        dom (st_entries (sv_certStore (rn_srv p))) \<subseteq> set ks)"

section \<open>Well-formedness\<close>

definition cache_wf :: "(string \<Rightarrow> string) \<Rightarrow> nat \<Rightarrow> nat \<Rightarrow> certCache \<Rightarrow> bool" where
  "cache_wf lw chans ctxs m \<longleftrightarrow>
     (\<forall>k e. m k = Some e \<longrightarrow> k = AsKey lw (e_domains e) \<and> entry_wf e \<and> e_updated e < chans \<and>
        (\<forall>c. e_cancelRenew e = Some c \<longrightarrow> c < ctxs)) \<and>
     (\<forall>k e k' e'. m k = Some e \<longrightarrow> m k' = Some e' \<longrightarrow> e_updated e = e_updated e' \<longrightarrow> k = k') \<and>
     (\<forall>k e k' e' c. m k = Some e \<longrightarrow> m k' = Some e' \<longrightarrow> e_cancelRenew e = Some c \<longrightarrow> e_cancelRenew e' = Some c \<longrightarrow> k = k')"

definition server_wf :: "(string \<Rightarrow> string) \<Rightarrow> 'w CertDXServer \<Rightarrow> bool" where
  "server_wf lw s \<longleftrightarrow> cache_wf lw (sv_chans s) (sv_ctxs s) (sv_cache s) \<and>
     store_wf lw (st_entries (sv_certStore s)) \<and> length (st_update (sv_certStore s)) \<le> 10"

lemma cache_wf_get:
  "cache_wf lw chans ctxs m \<Longrightarrow> get lw chans ds m = (k, m') \<Longrightarrow> cache_wf lw (chans + 1) ctxs m'"
  unfolding cache_wf_def get_def getNoLock_def Let_def
  by (auto simp: newCertEntry_def entry_wf_def split: option.splits if_splits) (metis less_irrefl less_Suc_eq)+


lemma cache_wf_upd:
  assumes "cache_wf lw chans ctxs m" "m k = Some e" "e_domains e' = e_domains e" "entry_wf e'"
    and "e_updated e' = e_updated e \<or> e_updated e' = chans \<and> chans < chans'"
    and "e_cancelRenew e' = None \<or> e_cancelRenew e' = e_cancelRenew e \<or> e_cancelRenew e' = Some ctxs \<and> ctxs < ctxs'"
    and "chans \<le> chans'" "ctxs \<le> ctxs'"
  shows "cache_wf lw chans' ctxs' (m(k \<mapsto> e'))"
proof -
  have wf: "k' = AsKey lw (e_domains d)" "entry_wf d" "e_updated d < chans" "\<And>c. e_cancelRenew d = Some c \<Longrightarrow> c < ctxs"
    if "m k' = Some d" for k' d
    using assms(1) that unfolding cache_wf_def by blast+
  have chan: "k1 = k2" if "m k1 = Some d1" "m k2 = Some d2" "e_updated d1 = e_updated d2" for k1 k2 d1 d2
    using assms(1) that unfolding cache_wf_def by blast
  have ctx: "k1 = k2" if "m k1 = Some d1" "m k2 = Some d2" "e_cancelRenew d1 = Some c" "e_cancelRenew d2 = Some c"
    for k1 k2 d1 d2 c
    using assms(1) that unfolding cache_wf_def by blast
  show ?thesis
    unfolding cache_wf_def
  proof (intro conjI allI impI)
    fix k1 d1
    assume d: "(m(k \<mapsto> e')) k1 = Some d1"
    then show "k1 = AsKey lw (e_domains d1)" "entry_wf d1"
      using wf(1,2) assms(2,3,4) by (auto split: if_splits)
    show "e_updated d1 < chans'"
      using d wf(3) [OF assms(2)] wf(3) [of k1 d1] assms(5,7) by (auto split: if_splits)
    show "c < ctxs'" if "e_cancelRenew d1 = Some c" for c
      using d that wf(4) [OF assms(2), of c] wf(4) [of k1 d1 c] assms(6,8) by (auto split: if_splits)
  next
    fix k1 d1 k2 d2
    assume "(m(k \<mapsto> e')) k1 = Some d1" "(m(k \<mapsto> e')) k2 = Some d2" "e_updated d1 = e_updated d2"
    then show "k1 = k2"
      using chan wf(3) assms(2,5) by (metis fun_upd_apply less_irrefl option.inject)
  next
    fix k1 d1 k2 d2 c
    assume "(m(k \<mapsto> e')) k1 = Some d1" "(m(k \<mapsto> e')) k2 = Some d2" "e_cancelRenew d1 = Some c" "e_cancelRenew d2 = Some c"
    then show "k1 = k2"
      using ctx wf(4) assms(2,6) by (metis fun_upd_apply less_irrefl option.distinct(1) option.inject)
  qed
qed

section \<open>The cache and the store\<close>

text \<open>The certificates that the store has once the queue is written.\<close>

definition stored_cert :: "(string \<Rightarrow> string) \<Rightarrow> 'w CertDXServer \<Rightarrow> Key \<Rightarrow> CertT" where
  "stored_cert lw s k =
     (case store_upds lw (st_entries (sv_certStore s)) (st_update (sv_certStore s)) k of
        None \<Rightarrow> zero_CertT | Some fe \<Rightarrow> se_Cert fe)"

definition agree :: "(string \<Rightarrow> string) \<Rightarrow> Key set \<Rightarrow> 'w CertDXServer \<Rightarrow> bool" where
  "agree lw U s \<longleftrightarrow>
     (\<forall>k e. sv_cache s k = Some e \<longrightarrow> k \<notin> U \<longrightarrow> e_cert e = stored_cert lw s k) \<and>
     dom (store_upds lw (st_entries (sv_certStore s)) (st_update (sv_certStore s))) \<subseteq> dom (sv_cache s) \<and>
     U \<subseteq> dom (sv_cache s)"

definition running_inv :: "(string \<Rightarrow> string) \<Rightarrow> 'w running \<Rightarrow> bool" where
  "running_inv lw p \<longleftrightarrow> server_wf lw (rn_srv p) \<and> agree lw (rn_unsent p) (rn_srv p) \<and>
     (rn_synced p \<longrightarrow> rn_file p = Some (JsonStore (\<lambda>k. map_option Some (st_entries (sv_certStore (rn_srv p)) k))))"

lemma store_upds_Cons:
  "store_upds lw m (fe # fes) = store_upds lw (m(AsKey lw (se_Domains fe) \<mapsto> fe)) fes"
  by (simp add: store_upds_def)

text \<open>Looking a bundle up.\<close>

lemma lookup_inv:
  assumes "server_wf lw s" "agree lw U s" "get lw (sv_chans s) ds (sv_cache s) = (k, m)"
  shows "server_wf lw (s\<lparr>sv_cache := m, sv_chans := sv_chans s + 1\<rparr>)"
    and "agree lw U (s\<lparr>sv_cache := m, sv_chans := sv_chans s + 1\<rparr>)"
    and "version_of (s\<lparr>sv_cache := m, sv_chans := sv_chans s + 1\<rparr>) = version_of s"
proof -
  show "server_wf lw (s\<lparr>sv_cache := m, sv_chans := sv_chans s + 1\<rparr>)"
    using assms(1) cache_wf_get [OF _ assms(3)] by (simp add: server_wf_def)
  have m: "m = sv_cache s \<or> sv_cache s k = None \<and> m = (sv_cache s)(k \<mapsto> newCertEntry (sv_chans s) ds)"
    using assms(3) by (auto simp: get_def getNoLock_def Let_def split: option.splits)
  then show "version_of (s\<lparr>sv_cache := m, sv_chans := sv_chans s + 1\<rparr>) = version_of s"
    by (auto simp: version_of_def fun_eq_iff newCertEntry_def)
  have "stored_cert lw s k = zero_CertT" if "sv_cache s k = None"
    using assms(2) that by (auto simp: agree_def stored_cert_def split: option.splits)
  moreover have "stored_cert lw (s\<lparr>sv_cache := m, sv_chans := sv_chans s + 1\<rparr>) = stored_cert lw s"
    by (simp add: stored_cert_def fun_eq_iff)
  ultimately show "agree lw U (s\<lparr>sv_cache := m, sv_chans := sv_chans s + 1\<rparr>)"
    using m assms(2) by (auto simp: agree_def newCertEntry_def split: if_splits)
qed

text \<open>What \<open>renew\<close> may do to the state.\<close>

lemma renew_effect:
  assumes "renew ctxErr now obtainF retryF pick k retry s = (r, s')"
  obtains (nothing) w where "s' = s\<lparr>sv_world := w\<rparr>"
  | (unsent) c cert w where "sv_cache s k = Some c"
      "s' = s\<lparr>sv_cache := (sv_cache s)(k \<mapsto> snd (publish cert (sv_chans s) c)), sv_chans := sv_chans s + 1, sv_world := w\<rparr>"
  | (sent) c cert w where "sv_cache s k = Some c" "length (st_update (sv_certStore s)) < 10"
      "s' = s\<lparr>sv_cache := (sv_cache s)(k \<mapsto> snd (publish cert (sv_chans s) c)), sv_chans := sv_chans s + 1, sv_world := w,
        sv_certStore := (sv_certStore s)\<lparr>st_update := st_update (sv_certStore s) @ [\<lparr>se_Domains = e_domains c, se_Cert = cert\<rparr>]\<rparr>\<rparr>"
proof -
  show thesis
  proof (cases "sv_cache s k")
    case None
    then have "s' = s" using assms by (auto simp: renew_def split: if_splits)
    then have "s' = s\<lparr>sv_world := sv_world s\<rparr>" by simp
      then show thesis by (rule nothing)
  next
    case (Some c)
    let ?vb = "newValidBefore (ac_CertLifeTimeDuration (sc_ACME (sv_Config s))) (now (sv_world s))"
    let ?dl = "?vb + ac_RenewTimeLeftDuration (sc_ACME (sv_Config s))"
    obtain w res where res: "(if retry then retryF (e_domains c) ?dl (sv_world s) else obtainF (e_domains c) ?dl (sv_world s)) = (w, res)"
      by fastforce
    consider (same) "s' = s" | (err) e where "res = Inl e" "s' = s\<lparr>sv_world := w\<rparr>"
      | (new) fc key where "res = Inr (fc, key)" "\<not> ctxErr (sv_world s)" "\<not> IsValid (now (sv_world s)) (fst (Snapshot c))"
      using assms Some res by (cases res) (auto simp: renew_def Let_def split: if_splits)
    then show thesis
    proof cases
      case same
      then have "s' = s\<lparr>sv_world := sv_world s\<rparr>" by simp
      then show thesis by (rule nothing)
    next
      case err
      from err(2) show thesis by (rule nothing)
    next
      case new
      let ?cert = "\<lparr>c_FullChain = fc, c_Key = key, c_ValidBefore = ?vb, c_RenewAt = now w\<rparr>"
      show thesis
        using assms Some res new unsent [OF Some, where cert = ?cert and w = w] sent [OF Some, where cert = ?cert and w = w]
        by (auto simp: renew_def Let_def publish_def split: if_splits)
    qed
  qed
qed

text \<open>A call that looks a bundle up first counts from the state after that.\<close>

lemma after_call_lookup:
  assumes "version_of s = version_of (rn_srv p)" "sv_certStore s = sv_certStore (rn_srv p)"
  shows "after_call (p\<lparr>rn_srv := s\<rparr>) s' = after_call p s'"
  using assms by (simp add: after_call_def published_def)

lemma publish_fields [simp]:
  "e_cert (snd (publish cert ch e)) = cert" "e_version (snd (publish cert ch e)) = e_version e + 1"
  "e_updated (snd (publish cert ch e)) = ch" "e_domains (snd (publish cert ch e)) = e_domains e"
  "e_cancelRenew (snd (publish cert ch e)) = e_cancelRenew e"
  by (simp_all add: publish_def)

lemma publish_cache_wf:
  "cache_wf lw chans ctxs m \<Longrightarrow> m k = Some e \<Longrightarrow> cache_wf lw (chans + 1) ctxs (m(k \<mapsto> snd (publish cert chans e)))"
  using publish_wf [of e cert chans "fst (publish cert chans e)"] unfolding prod.collapse
  by (intro cache_wf_upd) (auto simp: cache_wf_def)

lemma published_one:
  "sv_cache s k = Some e \<Longrightarrow> sv_cache s' = (sv_cache s)(k \<mapsto> snd (publish cert ch e)) \<Longrightarrow> published s s' = {k}"
  by (auto simp: published_def version_of_def split: if_splits)

lemma renew_inv:
  assumes inv: "running_inv lw p" and r: "renew ctxErr now obtainF retryF pick k retry (rn_srv p) = (res, s')"
  shows "running_inv lw (after_call p s')"
  using r
proof (cases rule: renew_effect)
  case (nothing w)
  then show ?thesis
    using inv by (simp add: running_inv_def after_call_def published_def version_of_def server_wf_def agree_def stored_cert_def)
next
  case (unsent c cert w)
  have pub: "published (rn_srv p) s' = {k}"
    by (rule published_one [OF unsent(1)]) (simp add: unsent(2))
  have "cache_wf lw (sv_chans s') (sv_ctxs s') (sv_cache s')"
    using inv unsent publish_cache_wf [of lw _ _ _ k c cert] by (simp add: running_inv_def server_wf_def)
  moreover have "agree lw (rn_unsent p \<union> {k}) s'"
    using inv unsent by (auto simp: running_inv_def agree_def stored_cert_def split: if_splits)
  ultimately show ?thesis
    using inv unsent pub by (simp add: running_inv_def after_call_def server_wf_def)
next
  case (sent c cert w)
  have pub: "published (rn_srv p) s' = {k}"
    by (rule published_one [OF sent(1)]) (simp add: sent(3))
  have k: "AsKey lw (e_domains c) = k"
    using inv sent by (auto simp: running_inv_def server_wf_def cache_wf_def)
  have "cache_wf lw (sv_chans s') (sv_ctxs s') (sv_cache s')"
    using inv sent publish_cache_wf [of lw _ _ _ k c cert] by (simp add: running_inv_def server_wf_def)
  moreover have "agree lw (rn_unsent p - {k}) s'"
    using inv sent k by (auto simp: running_inv_def agree_def stored_cert_def split: if_splits)
  ultimately show ?thesis
    using inv sent pub by (simp add: running_inv_def after_call_def server_wf_def)
qed

lemma after_lookup_inv:
  assumes "running_inv lw p" "get lw (sv_chans (rn_srv p)) ds (sv_cache (rn_srv p)) = (k, m)"
  shows "running_inv lw (p\<lparr>rn_srv := (rn_srv p)\<lparr>sv_cache := m, sv_chans := sv_chans (rn_srv p) + 1\<rparr>\<rparr>)"
  using lookup_inv [of lw "rn_srv p" "rn_unsent p"] assms by (simp add: running_inv_def)

lemma after_call_same:
  assumes "version_of s = version_of (rn_srv p)" "sv_certStore s = sv_certStore (rn_srv p)"
  shows "after_call p s = p\<lparr>rn_srv := s\<rparr>"
  using assms by (simp add: after_call_def published_def)

lemma lookup_call:
  assumes "running_inv lw p" "get lw (sv_chans (rn_srv p)) ds (sv_cache (rn_srv p)) = (k, m)"
  shows "after_call p ((rn_srv p)\<lparr>sv_cache := m, sv_chans := sv_chans (rn_srv p) + 1\<rparr>) =
      p\<lparr>rn_srv := (rn_srv p)\<lparr>sv_cache := m, sv_chans := sv_chans (rn_srv p) + 1\<rparr>\<rparr>"
    and "after_call (p\<lparr>rn_srv := (rn_srv p)\<lparr>sv_cache := m, sv_chans := sv_chans (rn_srv p) + 1\<rparr>\<rparr>) = after_call p"
proof -
  let ?s = "(rn_srv p)\<lparr>sv_cache := m, sv_chans := sv_chans (rn_srv p) + 1\<rparr>"
  have v: "version_of ?s = version_of (rn_srv p)"
    using lookup_inv(3) [OF _ _ assms(2)] assms(1) unfolding running_inv_def by blast
  show "after_call p ?s = p\<lparr>rn_srv := ?s\<rparr>"
    by (rule after_call_same [OF v]) simp
  show "after_call (p\<lparr>rn_srv := ?s\<rparr>) = after_call p"
    using after_call_lookup [OF v] by (simp add: fun_eq_iff)
qed

section \<open>The invariant is kept\<close>

lemma handleCertReq_inv:
  assumes inv: "running_inv lw p" and lw: "ce_lw E = lw" and h: "handleCertReq E r (rn_srv p) = (resp, s')"
  shows "running_inv lw (after_call p s')"
proof -
  let ?lookup = "\<lambda>m. (rn_srv p)\<lparr>sv_cache := m, sv_chans := sv_chans (rn_srv p) + 1\<rparr>"
  have same: "running_inv lw (after_call p (rn_srv p))"
    using inv by (simp add: after_call_same)
  have looked: "running_inv lw (after_call p (?lookup m))" "after_call (p\<lparr>rn_srv := ?lookup m\<rparr>) = after_call p"
    "running_inv lw (p\<lparr>rn_srv := ?lookup m\<rparr>)"
    if "get lw (sv_chans (rn_srv p)) ds (sv_cache (rn_srv p)) = (k, m)" for ds k m
    using lookup_call [OF inv that] after_lookup_inv [OF inv that] by simp_all
  consider "s' = rn_srv p"
    | ds k m where "get lw (sv_chans (rn_srv p)) ds (sv_cache (rn_srv p)) = (k, m)" "s' = ?lookup m"
    | ds k m res where "get lw (sv_chans (rn_srv p)) ds (sv_cache (rn_srv p)) = (k, m)"
        "env_renew E k False (?lookup m) = (res, s')"
  proof -
    show thesis
    proof (cases "rq_Body r")
      case (JsonReq req)
      obtain k m where g: "get lw (sv_chans (rn_srv p)) (hq_Domains req) (sv_cache (rn_srv p)) = (k, m)" by fastforce
      obtain res s2 where e: "env_renew E k False (?lookup m) = (res, s2)" by fastforce
      show thesis
        using h JsonReq g e lw that(1) that(2) [OF g] that(3) [OF g]
        by (auto simp: handleCertReq_def Let_def split: if_splits option.splits renew_result.splits)
    qed (use h that(1) in \<open>auto simp: handleCertReq_def\<close>)
  qed
  then show ?thesis
    using same looked(1) renew_inv [OF looked(3)] looked(2) by cases auto
qed

lemma handler_inv:
  assumes "running_inv lw p" "ce_lw E = lw" "listener_handler l E r (rn_srv p) = (resp, s')"
  shows "running_inv lw (after_call p s')"
proof -
  have "running_inv lw (after_call p (rn_srv p))"
    using assms(1) by (simp add: after_call_same)
  moreover have "s' = rn_srv p \<or> handleCertReq E r (rn_srv p) = (resp, s')"
    using assms(3) by (auto simp: listener_handler_def apiWithTokenHandler_def apiHandler_def
        split: http_listener.splits if_splits)
  ultimately show ?thesis
    using handleCertReq_inv [OF assms(1,2)] by auto
qed

lemma start_handlers_inv:
  assumes "server_wf lw (sd_srv st)" "agree lw U (sd_srv st)"
  shows "server_wf lw (sd_srv (start_handlers lw packs st)) \<and> agree lw U (sd_srv (start_handlers lw packs st)) \<and>
    version_of (sd_srv (start_handlers lw packs st)) = version_of (sd_srv st) \<and>
    sv_certStore (sd_srv (start_handlers lw packs st)) = sv_certStore (sd_srv st)"
  using assms
proof (induction packs arbitrary: st)
  case (Cons pack packs)
  obtain name ds where pack: "pack = (name, ds)" by fastforce
  obtain k m where g: "get lw (sv_chans (sd_srv st)) ds (sv_cache (sd_srv st)) = (k, m)" by fastforce
  let ?st = "st\<lparr>sd_srv := (sd_srv st)\<lparr>sv_cache := m, sv_chans := sv_chans (sd_srv st) + 1\<rparr>,
      sd_dispatch := (sd_dispatch st)(name \<mapsto> length (sd_handlers st)), sd_handlers := sd_handlers st @ [(name, ds, k)]\<rparr>"
  have "start_handlers lw (pack # packs) st = start_handlers lw packs ?st"
    using g pack by simp
  moreover have "server_wf lw (sd_srv ?st)" "agree lw U (sd_srv ?st)" "version_of (sd_srv ?st) = version_of (sd_srv st)"
    using lookup_inv [OF Cons.prems g] by simp_all
  ultimately show ?case
    using Cons.IH [of ?st] by simp
qed simp

lemma recv_request_keeps:
  assumes "running_inv lw p" "sd_srv st = rn_srv p" "recv_request lw iter req st = (acks, err, st')"
  shows "running_inv lw (after_call p (sd_srv st'))"
proof -
  have wf: "server_wf lw (sd_srv st)" "agree lw (rn_unsent p) (sd_srv st)"
    using assms(1,2) by (simp_all add: running_inv_def)
  consider "sd_srv st' = sd_srv st" | packs sets where "st' = start_handlers lw packs (st\<lparr>sd_domainSets := sets\<rparr>)"
    using assms(3) by (fastforce simp: recv_request_def Let_def split: if_splits sum.splits prod.splits)
  then have "server_wf lw (sd_srv st') \<and> agree lw (rn_unsent p) (sd_srv st') \<and>
      version_of (sd_srv st') = version_of (rn_srv p) \<and> sv_certStore (sd_srv st') = sv_certStore (rn_srv p)"
  proof cases
    case (2 packs sets)
    then show ?thesis
      using start_handlers_inv [of lw "st\<lparr>sd_domainSets := sets\<rparr>" "rn_unsent p" packs] wf assms(2) by simp
  qed (use wf assms(2) in simp)
  then show ?thesis
    using assms(1) by (simp add: running_inv_def after_call_same)
qed

lemma entry_inv:
  assumes "running_inv lw p" "sv_cache (rn_srv p) k = Some e" "entry_wf e'"
    and "e_domains e' = e_domains e" "e_cert e' = e_cert e" "e_version e' = e_version e" "e_updated e' = e_updated e"
    and "e_cancelRenew e' = None \<or> e_cancelRenew e' = e_cancelRenew e \<or>
      e_cancelRenew e' = Some (sv_ctxs (rn_srv p)) \<and> sv_ctxs (rn_srv p) < n"
    and "sv_ctxs (rn_srv p) \<le> n"
  shows "running_inv lw (after_call p ((rn_srv p)\<lparr>sv_cache := (sv_cache (rn_srv p))(k \<mapsto> e'), sv_ctxs := n\<rparr>))"
proof -
  let ?s = "(rn_srv p)\<lparr>sv_cache := (sv_cache (rn_srv p))(k \<mapsto> e'), sv_ctxs := n\<rparr>"
  have "cache_wf lw (sv_chans (rn_srv p)) n ((sv_cache (rn_srv p))(k \<mapsto> e'))"
    using assms by (intro cache_wf_upd [of lw _ "sv_ctxs (rn_srv p)" _ k e]) (auto simp: running_inv_def server_wf_def)
  then have "server_wf lw ?s"
    using assms(1) by (simp add: running_inv_def server_wf_def)
  moreover have "agree lw (rn_unsent p) ?s"
    using assms(1,2,5) by (auto simp: running_inv_def agree_def stored_cert_def split: if_splits)
  moreover have "version_of ?s = version_of (rn_srv p)"
    using assms(2,6) by (auto simp: version_of_def fun_eq_iff)
  ultimately show ?thesis
    using assms(1) by (simp add: running_inv_def after_call_same)
qed

lemma server_subscribe_inv:
  assumes inv: "running_inv lw p" and s: "server_subscribe k (rn_srv p) = (ctx, s)"
  shows "running_inv lw (after_call p s)"
proof (cases "sv_cache (rn_srv p) k")
  case (Some e)
  obtain st e' where sub: "subscribe (sv_ctxs (rn_srv p)) e = (st, e')" by fastforce
  have "entry_wf e" using inv Some by (auto simp: running_inv_def server_wf_def cache_wf_def)
  then have "entry_wf e'" using subscribe_wf sub by blast
  then show ?thesis
    using entry_inv [OF inv Some, of e' "sv_ctxs (rn_srv p) + 1"] s sub Some
    by (auto simp: server_subscribe_def subscribe_def split: if_splits)
qed (use inv s in \<open>auto simp: server_subscribe_def after_call_same\<close>)

lemma server_release_inv:
  assumes inv: "running_inv lw p" and s: "server_release k (rn_srv p) = (ctx, s)"
  shows "running_inv lw (after_call p s)"
proof (cases "sv_cache (rn_srv p) k")
  case (Some e)
  obtain cn e' where rel: "release e = (cn, e')" by fastforce
  have "entry_wf e" using inv Some by (auto simp: running_inv_def server_wf_def cache_wf_def)
  then have "entry_wf e'" using release_wf rel by blast
  moreover have "s = (rn_srv p)\<lparr>sv_cache := (sv_cache (rn_srv p))(k \<mapsto> e'), sv_ctxs := sv_ctxs (rn_srv p)\<rparr>"
    using s rel Some by (auto simp: server_release_def)
  ultimately show ?thesis
    using entry_inv [OF inv Some, of e' "sv_ctxs (rn_srv p)"] rel
    by (auto simp: release_def Let_def split: if_splits)
qed (use inv s in \<open>auto simp: server_release_def after_call_same\<close>)

text \<open>Time does not matter to the invariant.\<close>

lemma after_call_world:
  "after_call p (s\<lparr>sv_world := w\<rparr>) = (after_call p s)\<lparr>rn_srv := s\<lparr>sv_world := w\<rparr>\<rparr>"
  by (simp add: after_call_def published_def version_of_def)

lemma running_inv_world [simp]:
  "running_inv lw (p\<lparr>rn_srv := (rn_srv p)\<lparr>sv_world := w\<rparr>\<rparr>) \<longleftrightarrow> running_inv lw p"
  "running_inv lw (p\<lparr>rn_srv := (rn_srv p)\<lparr>sv_stopped := b\<rparr>\<rparr>) \<longleftrightarrow> running_inv lw p"
  by (simp_all add: running_inv_def server_wf_def agree_def stored_cert_def)

lemma renew_iteration_inv:
  assumes "running_inv lw p" "renew_iteration ctxErr now obtainF retryF pick fires sleep k (rn_srv p) = (goes_on, s)"
  shows "running_inv lw (after_call p s)"
proof -
  obtain r s' where r: "renew ctxErr now obtainF retryF pick k True (rn_srv p) = (r, s')" by fastforce
  have "s = s' \<or> (\<exists>w. s = s'\<lparr>sv_world := w\<rparr>)"
    using assms(2) r by (auto simp: renew_iteration_def split: if_splits)
  moreover have "rn_srv (after_call p s') = s'" by (simp add: after_call_def)
  ultimately show ?thesis
    using renew_inv [OF assms(1) r] running_inv_world(1) after_call_world by metis
qed

lemma late_send_inv:
  assumes inv: "running_inv lw p" and e: "sv_cache (rn_srv p) k = Some e" "length (st_update (sv_certStore (rn_srv p))) < 10"
  shows "running_inv lw (p\<lparr>rn_srv := (rn_srv p)\<lparr>sv_certStore := (sv_certStore (rn_srv p))\<lparr>st_update :=
        st_update (sv_certStore (rn_srv p)) @ [\<lparr>se_Domains = e_domains e, se_Cert = e_cert e\<rparr>]\<rparr>\<rparr>,
      rn_unsent := rn_unsent p - {k}\<rparr>)"
proof -
  have "AsKey lw (e_domains e) = k"
    using inv e by (auto simp: running_inv_def server_wf_def cache_wf_def)
  then show ?thesis
    using inv e by (auto simp: running_inv_def server_wf_def agree_def stored_cert_def split: if_splits)
qed

lemma writes_inv:
  assumes inv: "running_inv lw p" and q: "st_update (sv_certStore (rn_srv p)) = fe # q"
    and sv: "saveEntry lw ks wr fe ((sv_certStore (rn_srv p))\<lparr>st_update := q\<rparr>) f = (st, f', err)"
  shows "running_inv lw (p\<lparr>rn_srv := (rn_srv p)\<lparr>sv_certStore := st\<rparr>, rn_file := f', rn_keys := ks', rn_synced := (err = None)\<rparr>)"
proof -
  have st: "st_update st = q" "st_entries st = (st_entries (sv_certStore (rn_srv p)))(AsKey lw (se_Domains fe) \<mapsto> fe)"
    using sv by (auto simp: saveEntry_def Let_def)
  have "err = None \<longrightarrow> f' = Some (JsonStore (\<lambda>k. map_option Some (st_entries st k)))"
    using sv by (auto simp: saveEntry_def Let_def dest: save_ok)
  moreover have "store_upds lw (st_entries st) (st_update st) =
      store_upds lw (st_entries (sv_certStore (rn_srv p))) (st_update (sv_certStore (rn_srv p)))"
    by (simp add: st q store_upds_Cons)
  moreover have "store_wf lw (st_entries st)"
    using inv st(2) by (simp add: running_inv_def server_wf_def store_wf_upd)
  ultimately show ?thesis
    using inv st(1) q by (simp add: running_inv_def server_wf_def agree_def stored_cert_def)
qed

section \<open>The start\<close>

lemma load_entry_wf:
  assumes "cache_wf lw (sv_chans s) (sv_ctxs s) (sv_cache s)"
  shows "cache_wf lw (sv_chans (load_entry lw c s)) (sv_ctxs (load_entry lw c s)) (sv_cache (load_entry lw c s))"
proof -
  obtain k m where g: "getNoLock lw (sv_chans s) (se_Domains c) (sv_cache s) = (k, m)" by fastforce
  then obtain e where e: "m k = Some e"
    using get_entry [of lw "sv_chans s" "se_Domains c" "sv_cache s" k m] by (auto simp: get_def)
  have m: "cache_wf lw (sv_chans s + 1) (sv_ctxs s) m"
    using cache_wf_get [OF assms, of "se_Domains c" k m] g by (simp add: get_def)
  then have "entry_wf (e\<lparr>e_cert := se_Cert c\<rparr>)"
    using e by (auto simp: cache_wf_def entry_wf_def)
  then have "cache_wf lw (sv_chans s + 1) (sv_ctxs s) (m(k \<mapsto> e\<lparr>e_cert := se_Cert c\<rparr>))"
    using cache_wf_upd [OF m e, of "e\<lparr>e_cert := se_Cert c\<rparr>"] by simp
  then show ?thesis
    using g e by (simp add: load_entry_def)
qed

lemma load_entries_wf:
  "cache_wf lw (sv_chans s) (sv_ctxs s) (sv_cache s) \<Longrightarrow>
     cache_wf lw (sv_chans (load_entries lw es ks s)) (sv_ctxs (load_entries lw es ks s)) (sv_cache (load_entries lw es ks s))"
  by (induction ks arbitrary: s) (auto simp: load_entry_wf split: option.splits)

lemma load_entries_store [simp]: "sv_certStore (load_entries lw es ks s) = sv_certStore s"
  by (induction ks arbitrary: s) (auto simp: load_entry_def Let_def case_prod_beta split: option.splits)

lemma empty_server_inv:
  assumes "sv_cache s = Map.empty" "st_entries (sv_certStore s) = Map.empty" "st_update (sv_certStore s) = []"
  shows "server_wf lw s \<and> agree lw {} s"
  using assms by (auto simp: server_wf_def cache_wf_def store_wf_def agree_def store_upds_def)

lemma init_inv:
  assumes "running_init lw p"
  shows "running_inv lw p"
proof -
  obtain os zero w s\<^sub>0 cfg and ob :: unit and now order ks where
    new: "MakeCertDXServer os zero w = Inr s\<^sub>0" and
    i: "Init (Return ob) lw now order ks (rn_file p) (s\<^sub>0\<lparr>sv_Config := cfg\<rparr>) = Return (ob, rn_srv p)" and
    ks: "dom (st_entries (sv_certStore (rn_srv p))) \<subseteq> set ks" and un: "rn_unsent p = {}" "\<not> rn_synced p"
    using assms unfolding running_init_def by blast
  let ?s = "s\<^sub>0\<lparr>sv_Config := cfg\<rparr>"
  have empty: "sv_cache ?s = Map.empty" "st_entries (sv_certStore ?s) = Map.empty" "st_update (sv_certStore ?s) = []"
    using new by (auto simp: MakeCertDXServer_def NewCertStore_def makeCertCache_def split: sum.splits)
  show ?thesis
  proof (cases "rn_srv p = ?s")
    case True
    then show ?thesis using empty_server_inv [OF empty] un by (simp add: running_inv_def)
  next
    case False
    then obtain st where ld: "Load lw now order (rn_file p) (sv_certStore ?s) = Return st"
      and s: "rn_srv p = load_entries lw (st_entries st) ks (?s\<lparr>sv_certStore := st\<rparr>)"
      using i by (auto simp: Init_def loadCertStore_def split: outcome.splits if_splits)
    obtain raw where l: "Load_loop lw now raw order Map.empty = Return (st_entries st)" and up: "st_update st = []"
      using ld empty by (auto simp: Load_def split: option.splits store_file.splits outcome.splits)
    have wf: "store_wf lw (st_entries st)"
      using Load_loop_from [OF l] by (fastforce simp: store_wf_def)
    have st: "sv_certStore (rn_srv p) = st" by (simp add: s)
    have cert: "map_option e_cert (sv_cache (rn_srv p) k) = map_option se_Cert (st_entries st k)" for k
      using load_entries_cert [OF wf, of ks "?s\<lparr>sv_certStore := st\<rparr>" k] empty(1) ks st
      by (auto simp: s split: option.splits)
    have "cache_wf lw (sv_chans (rn_srv p)) (sv_ctxs (rn_srv p)) (sv_cache (rn_srv p))"
      unfolding s by (rule load_entries_wf) (use empty(1) in \<open>simp add: cache_wf_def\<close>)
    then have "server_wf lw (rn_srv p)"
      using wf up by (simp add: server_wf_def st)
    moreover have "agree lw {} (rn_srv p)"
      unfolding agree_def stored_cert_def store_upds_def
    proof (intro conjI allI impI subsetI)
      fix k e
      assume "sv_cache (rn_srv p) k = Some e"
      then show "e_cert e = (case foldl (\<lambda>m fe. m(AsKey lw (se_Domains fe) \<mapsto> fe)) (st_entries (sv_certStore (rn_srv p)))
          (st_update (sv_certStore (rn_srv p))) k of None \<Rightarrow> zero_CertT | Some fe \<Rightarrow> se_Cert fe)"
        using cert [of k] by (auto simp: st up split: option.splits)
    next
      fix k
      assume "k \<in> dom (foldl (\<lambda>m fe. m(AsKey lw (se_Domains fe) \<mapsto> fe)) (st_entries (sv_certStore (rn_srv p)))
          (st_update (sv_certStore (rn_srv p))))"
      then show "k \<in> dom (sv_cache (rn_srv p))"
        using cert [of k] by (auto simp: st up)
    qed simp
    ultimately show ?thesis by (simp add: running_inv_def un)
  qed
qed

interpretation running: step_invariant "running_init lw" "running_step lw" "running_inv lw"
proof
  show "running_inv lw p'" if "running_inv lw p" "running_step lw p p'" for p p' :: "'a running"
    using that(2,1)
  proof induction
    case (https_names p names k m)
    then show ?case
      using after_lookup_inv lookup_call(1) by metis
  qed (auto intro: handler_inv recv_request_keeps renew_iteration_inv late_send_inv server_subscribe_inv
      server_release_inv writes_inv simp: Stop_def)
qed (rule init_inv)

section \<open>Properties\<close>

text \<open>
  C12: The state of a started server stays well-formed whatever calls are made: every cached entry is
  at the key of its own names, its consumer count is not negative and a renewal context is held
  exactly while there are consumers, no two entries share an update channel (so no waiter is woken
  by another bundle's renewal) or a renewal context (so no bundle's release cancels another's
  renewal), every stored entry is at the key of its names, and the queue has at most its ten places.
\<close>

theorem server_stays_well_formed:
  assumes "running_init lw p\<^sub>0" "(running_step lw)\<^sup>*\<^sup>* p\<^sub>0 p"
  shows "(\<forall>k e. sv_cache (rn_srv p) k = Some e \<longrightarrow> k = AsKey lw (e_domains e) \<and> 0 \<le> e_subscribing e \<and>
      (e_cancelRenew e = None \<longleftrightarrow> \<not> isSubscribing e)) \<and>
    (\<forall>k k' e e'. sv_cache (rn_srv p) k = Some e \<and> sv_cache (rn_srv p) k' = Some e' \<and> k \<noteq> k' \<longrightarrow>
      e_updated e \<noteq> e_updated e' \<and> (e_cancelRenew e = None \<or> e_cancelRenew e \<noteq> e_cancelRenew e')) \<and>
    (\<forall>k fe. st_entries (sv_certStore (rn_srv p)) k = Some fe \<longrightarrow> k = AsKey lw (se_Domains fe)) \<and>
    length (st_update (sv_certStore (rn_srv p))) \<le> 10"
proof -
  have wf: "server_wf lw (rn_srv p)"
    using running.inv_reachable [OF assms] by (simp add: running_inv_def)
  then have c: "cache_wf lw (sv_chans (rn_srv p)) (sv_ctxs (rn_srv p)) (sv_cache (rn_srv p))"
    by (simp add: server_wf_def)
  have "k = AsKey lw (e_domains e) \<and> 0 \<le> e_subscribing e \<and> (e_cancelRenew e = None \<longleftrightarrow> \<not> isSubscribing e)"
    if "sv_cache (rn_srv p) k = Some e" for k e
    using c that by (auto simp: cache_wf_def entry_wf_def isSubscribing_def)
  moreover have "e_updated e \<noteq> e_updated e' \<and> (e_cancelRenew e = None \<or> e_cancelRenew e \<noteq> e_cancelRenew e')"
    if "sv_cache (rn_srv p) k = Some e" "sv_cache (rn_srv p) k' = Some e'" "k \<noteq> k'" for k k' e e'
    using c that unfolding cache_wf_def by (metis not_Some_eq)
  moreover have "\<forall>k fe. st_entries (sv_certStore (rn_srv p)) k = Some fe \<longrightarrow> k = AsKey lw (se_Domains fe)"
    "length (st_update (sv_certStore (rn_srv p))) \<le> 10"
    using wf by (auto simp: server_wf_def store_wf_def)
  ultimately show ?thesis by blast
qed

text \<open>
  C11: The cached certificates and the persisted ones agree: in every run, the certificate of a cached
  entry is the one the store has for its bundle once the queued entries are written (none if it was
  never renewed), except for bundles whose last renewal was not handed to the writer. So when there
  is no such bundle, the queue is empty and the last write succeeded, a server that starts from the
  file has exactly the certificates of the running one that are still valid.
\<close>

theorem cache_and_store_agree:
  assumes "running_init lw p\<^sub>0" "(running_step lw)\<^sup>*\<^sup>* p\<^sub>0 p"
  shows "(\<forall>k e. sv_cache (rn_srv p) k = Some e \<longrightarrow> k \<notin> rn_unsent p \<longrightarrow> e_cert e = stored_cert lw (rn_srv p) k) \<and>
    (rn_unsent p = {} \<and> st_update (sv_certStore (rn_srv p)) = [] \<and> rn_synced p \<and> 0 \<le> t \<and>
      MakeCertDXServer os zero w = Inr s\<^sub>0 \<and> set order = dom (st_entries (sv_certStore (rn_srv p))) \<and>
      set ks = {k. \<exists>fe. st_entries (sv_certStore (rn_srv p)) k = Some fe \<and> IsValid t (se_Cert fe)} \<longrightarrow>
      (\<exists>s. Init (Return ob) lw t order ks (rn_file p) s\<^sub>0 = Return (ob, s) \<and>
        (\<forall>k. map_option e_cert (sv_cache s k) =
           (case sv_cache (rn_srv p) k of
              Some e \<Rightarrow> if IsValid t (e_cert e) then Some (e_cert e) else None | None \<Rightarrow> None))))"
proof (intro conjI impI; (elim conjE)?)
  have inv: "running_inv lw p" by (rule running.inv_reachable [OF assms])
  then show "\<forall>k e. sv_cache (rn_srv p) k = Some e \<longrightarrow> k \<notin> rn_unsent p \<longrightarrow> e_cert e = stored_cert lw (rn_srv p) k"
    by (simp add: running_inv_def agree_def)
  let ?es = "st_entries (sv_certStore (rn_srv p))"
  assume a: "rn_unsent p = {}" "st_update (sv_certStore (rn_srv p)) = []" "rn_synced p" "0 \<le> t"
    "MakeCertDXServer os zero w = Inr s\<^sub>0" "set order = dom ?es"
    "set ks = {k. \<exists>fe. ?es k = Some fe \<and> IsValid t (se_Cert fe)}"
  have wf: "store_wf lw ?es" and f: "rn_file p = Some (JsonStore (\<lambda>k. map_option Some (?es k)))"
    using inv a(3) by (auto simp: running_inv_def server_wf_def)
  have cert: "(case ?es k of Some e \<Rightarrow> if IsValid t (se_Cert e) then Some (se_Cert e) else None | None \<Rightarrow> None) =
      (case sv_cache (rn_srv p) k of Some e \<Rightarrow> if IsValid t (e_cert e) then Some (e_cert e) else None | None \<Rightarrow> None)" for k
    using inv a(1,2,4)
    by (cases "?es k"; cases "sv_cache (rn_srv p) k")
      (auto simp: running_inv_def agree_def stored_cert_def store_upds_def zero_CertT_def IsValid_def)
  show "\<exists>s. Init (Return ob) lw t order ks (rn_file p) s\<^sub>0 = Return (ob, s) \<and>
        (\<forall>k. map_option e_cert (sv_cache s k) =
           (case sv_cache (rn_srv p) k of
              Some e \<Rightarrow> if IsValid t (e_cert e) then Some (e_cert e) else None | None \<Rightarrow> None))"
    using Init_stored [OF wf a(6,7), of s\<^sub>0 "Return ob" ob] MakeCertDXServer_new [OF a(5)]
    unfolding f cert by auto
qed

text \<open>A first request on a server without a cache file, and the write of its certificate.\<close>

definition ex_new_server :: "nat CertDXServer" where
  "ex_new_server = \<lparr>sv_Config = example_http_config, sv_cache = Map.empty,
     sv_certStore = \<lparr>st_path = ''/d/cache.json'', st_entries = Map.empty, st_update = []\<rparr>,
     sv_chans = 0, sv_ctxs = 0, sv_stopped = False, sv_world = 7\<rparr>"

definition ex_running :: "nat running" where
  "ex_running = \<lparr>rn_srv = ex_new_server, rn_file = None, rn_keys = [], rn_unsent = {}, rn_synced = False\<rparr>"

definition ex_new_cert :: CertT where
  "ex_new_cert = \<lparr>c_FullChain = ''c'', c_Key = ''k'', c_ValidBefore = Hour, c_RenewAt = 8 * Second\<rparr>"

lemma ex_MakeCertDXServer: "\<exists>s\<^sub>0. MakeCertDXServer ex_os example_http_config 7 = Inr s\<^sub>0 \<and> s\<^sub>0\<lparr>sv_Config := example_http_config\<rparr> = ex_new_server"
  by (simp add: MakeCertDXServer_def NewCertStore_def ex_cache_path ex_new_server_def makeCertCache_def)

lemma ex_running_init: "running_init id ex_running"
proof -
  obtain s\<^sub>0 where "MakeCertDXServer ex_os example_http_config 7 = Inr s\<^sub>0" "s\<^sub>0\<lparr>sv_Config := example_http_config\<rparr> = ex_new_server"
    using ex_MakeCertDXServer by blast
  then show ?thesis
    unfolding running_init_def
    by (intro conjI exI [of _ ex_os] exI [of _ example_http_config] exI [of _ 7] exI [of _ s\<^sub>0] exI [of _ example_http_config]
        exI [of _ "()"] exI [of _ 0] exI [of _ "[]"])
      (simp_all add: ex_running_def Init_def loadCertStore_def Load_def ex_new_server_def)
qed

lemma ex_running_answer:
  "\<exists>resp s. listener_handler ServeHttp example_env example_request ex_new_server = (Some resp, s) \<and>
     sv_cache s = [AsKey id [''a.b''] \<mapsto> (newCertEntry 0 [''a.b''])\<lparr>e_cert := ex_new_cert, e_version := 1, e_updated := 1\<rparr>] \<and>
     sv_certStore s = \<lparr>st_path = ''/d/cache.json'', st_entries = Map.empty,
       st_update = [\<lparr>se_Domains = [''a.b''], se_Cert = ex_new_cert\<rparr>]\<rparr>"
  by (simp add: listener_handler_def apiWithTokenHandler_def checkAuthorizationToken_def apiHandler_def
        handleCertReq_def example_request_def example_http_config_def Let_def example_env_def HasPrefix_def
        TrimPrefix_def cert_response_def get_def getNoLock_def isSubscribing_def newCertEntry_def renew_def
        Snapshot_def zero_CertT_def IsValid_def example_lego_def ACME_Obtain_def publish_def ex_new_server_def
        newValidBefore_def Truncate_def ex_new_cert_def example_server_def Cert_def go_time_simps)

lemma ex_running_run:
  "\<exists>p. (running_step id)\<^sup>*\<^sup>* ex_running p \<and> rn_unsent p = {} \<and> rn_synced p \<and>
     sv_cache (rn_srv p) = [AsKey id [''a.b''] \<mapsto> (newCertEntry 0 [''a.b''])\<lparr>e_cert := ex_new_cert, e_version := 1, e_updated := 1\<rparr>] \<and>
     st_entries (sv_certStore (rn_srv p)) = [AsKey id [''a.b''] \<mapsto> \<lparr>se_Domains = [''a.b''], se_Cert = ex_new_cert\<rparr>] \<and>
     st_update (sv_certStore (rn_srv p)) = []"
proof -
  let ?fe = "\<lparr>se_Domains = [''a.b''], se_Cert = ex_new_cert\<rparr>"
  obtain resp s where h: "listener_handler ServeHttp example_env example_request ex_new_server = (Some resp, s)"
    "sv_cache s = [AsKey id [''a.b''] \<mapsto> (newCertEntry 0 [''a.b''])\<lparr>e_cert := ex_new_cert, e_version := 1, e_updated := 1\<rparr>]"
    "sv_certStore s = \<lparr>st_path = ''/d/cache.json'', st_entries = Map.empty, st_update = [?fe]\<rparr>"
    using ex_running_answer by blast
  let ?p = "after_call ex_running s"
  have p: "rn_srv ?p = s" "rn_unsent ?p = {}" "rn_keys ?p = []"
    using h(3) by (simp_all add: after_call_def ex_running_def ex_new_server_def)
  have 1: "running_step id ex_running ?p"
    by (rule http_request [of example_env _ ServeHttp example_request _ "Some resp"])
      (use h(1) in \<open>simp_all add: example_env_def ex_running_def\<close>)
  obtain st f err where sv: "saveEntry id (rn_keys ?p) write_result.WriteOk ?fe ((sv_certStore (rn_srv ?p))\<lparr>st_update := []\<rparr>) (rn_file ?p) = (st, f, err)"
    by (metis prod.exhaust)
  have js: "json_entry_ok ?fe"
    by (simp add: json_entry_ok_def json_time_ok_def ex_new_cert_def go_time_simps)
  have st: "st_update st = []" "st_entries st = [AsKey id [''a.b''] \<mapsto> ?fe]" "err = None"
    using sv js by (auto simp: h(3) p saveEntry_def save_def json_Marshal_def Let_def)
  let ?q = "?p\<lparr>rn_srv := (rn_srv ?p)\<lparr>sv_certStore := st\<rparr>, rn_file := f,
      rn_keys := AsKey id (se_Domains ?fe) # rn_keys ?p, rn_synced := (err = None)\<rparr>"
  have 2: "running_step id ?p ?q"
    by (rule writes [OF _ sv]) (simp add: p h(3))
  have "(running_step id)\<^sup>*\<^sup>* ex_running ?q"
    using 1 2 by (rule converse_rtranclp_into_rtranclp [OF _ r_into_rtranclp])
  moreover have "rn_unsent ?q = {}" "rn_synced ?q" "sv_cache (rn_srv ?q) = sv_cache s" "sv_certStore (rn_srv ?q) = st"
    using p st(3) by simp_all
  ultimately show ?thesis
    using h(2) st(1,2) by metis
qed

theorem server_stays_well_formed_witness:
  "\<exists>p. (running_step id)\<^sup>*\<^sup>* ex_running p \<and> rn_synced p \<and>
     (\<forall>k e. sv_cache (rn_srv p) k = Some e \<longrightarrow> k = AsKey id (e_domains e))"
  using ex_running_run server_stays_well_formed [OF ex_running_init] by blast

theorem cache_and_store_agree_witness:
  "\<exists>p (s :: nat CertDXServer) s\<^sub>0. (running_step id)\<^sup>*\<^sup>* ex_running p \<and>
     Init (Return ()) id 100 [AsKey id [''a.b'']] [AsKey id [''a.b'']] (rn_file p) s\<^sub>0 = Return ((), s) \<and>
     map_option e_cert (sv_cache (rn_srv p) (AsKey id [''a.b''])) = Some ex_new_cert \<and>
     map_option e_cert (sv_cache s (AsKey id [''a.b''])) = Some ex_new_cert"
proof -
  obtain p where p: "(running_step id)\<^sup>*\<^sup>* ex_running p" "rn_unsent p = {}" "rn_synced p"
    "sv_cache (rn_srv p) = [AsKey id [''a.b''] \<mapsto> (newCertEntry 0 [''a.b''])\<lparr>e_cert := ex_new_cert, e_version := 1, e_updated := 1\<rparr>]"
    "st_entries (sv_certStore (rn_srv p)) = [AsKey id [''a.b''] \<mapsto> \<lparr>se_Domains = [''a.b''], se_Cert = ex_new_cert\<rparr>]"
    "st_update (sv_certStore (rn_srv p)) = []"
    using ex_running_run by blast
  obtain s\<^sub>0 :: "nat CertDXServer" where s\<^sub>0: "MakeCertDXServer ex_os example_http_config 7 = Inr s\<^sub>0"
    using ex_MakeCertDXServer by blast
  have "IsValid 100 ex_new_cert" by (simp add: IsValid_def ex_new_cert_def go_time_simps)
  with cache_and_store_agree [OF ex_running_init p(1), of 100 ex_os example_http_config 7 s\<^sub>0
      "[AsKey id [''a.b'']]" "[AsKey id [''a.b'']]" "()"]
  obtain s where "Init (Return ()) id 100 [AsKey id [''a.b'']] [AsKey id [''a.b'']] (rn_file p) s\<^sub>0 = Return ((), s)"
    "map_option e_cert (sv_cache s (AsKey id [''a.b''])) = Some ex_new_cert"
    by (auto simp: p s\<^sub>0 dest!: spec [of _ "AsKey id [''a.b'']"] split: if_splits)
  then show ?thesis
    using p(1,4) by (intro exI [of _ p] exI [of _ s] exI [of _ s\<^sub>0]) simp
qed

end
