(* ===== verification/Logging.thy ===== *)
theory Logging
  imports Go_Prelude
begin

text \<open>
  Package \<open>pkg/logging\<close> and \<open>Bootstrap\<close> of \<open>pkg/cli\<close>. The functions take the message as
  \<open>fmt.Sprintf\<close> has formatted it. The standard library's logger is modelled by its documented
  behaviour: a line is the header for the flags of the logger, the message, and a newline unless the
  message ends in one; the writer gets it in one call and its error is dropped. \<open>io.MultiWriter\<close> stops
  at the first writer that fails. The lines that have reached a destination are kept in the state;
  \<open>stamp\<close> is the header with date and time and \<open>ok\<close> says whether a write to a destination succeeds.
\<close>

section \<open>Loggers\<close>

datatype destination = Stderr | LogFile string | Foreign string

record logger =
  lg_stdFlags :: bool
  lg_out :: "destination list"

record log_state =
  ls_debugEnabled :: bool
  ls_logger :: logger
  ls_written :: "(destination \<times> string) list"
  ls_exited :: bool

definition log_default :: log_state where
  "log_default = \<lparr>ls_debugEnabled = False, ls_logger = \<lparr>lg_stdFlags = True, lg_out = [Stderr]\<rparr>,
     ls_written = [], ls_exited = False\<rparr>"

fun multi_write :: "(destination \<Rightarrow> bool) \<Rightarrow> string \<Rightarrow> destination list \<Rightarrow> (destination \<times> string) list" where
  "multi_write ok line [] = []"
| "multi_write ok line (d # ds) = (if ok d then (d, line) # multi_write ok line ds else [])"

definition log_line :: "string \<Rightarrow> logger \<Rightarrow> string \<Rightarrow> string" where
  "log_line stamp l s =
     (if lg_stdFlags l then stamp else []) @ s @ (if s = [] \<or> last s \<noteq> CHR 0x0A then [CHR 0x0A] else [])"

definition log_Output :: "(destination \<Rightarrow> bool) \<Rightarrow> string \<Rightarrow> string \<Rightarrow> log_state \<Rightarrow> log_state" where
  "log_Output ok stamp s st =
     st\<lparr>ls_written := ls_written st @ multi_write ok (log_line stamp (ls_logger st) s) (lg_out (ls_logger st))\<rparr>"

section \<open>The package\<close>

type_synonym log_op = "(destination \<Rightarrow> bool) \<Rightarrow> string \<Rightarrow> log_state \<Rightarrow> log_state"

definition logf :: "string \<Rightarrow> string \<Rightarrow> log_op" where
  "logf pre msg ok stamp st = log_Output ok stamp (pre @ '' '' @ msg) st"

definition Debug :: "string \<Rightarrow> log_op" where
  "Debug msg ok stamp st = (if ls_debugEnabled st then logf ''[DEB]'' msg ok stamp st else st)"

definition Info :: "string \<Rightarrow> log_op" where "Info msg = logf ''[INF]'' msg"
definition Notice :: "string \<Rightarrow> log_op" where "Notice msg = logf ''[NOT]'' msg"
definition Warn :: "string \<Rightarrow> log_op" where "Warn msg = logf ''[WRN]'' msg"
definition Error :: "string \<Rightarrow> log_op" where "Error msg = logf ''[ERR]'' msg"

text \<open>\<open>log.Fatalf\<close> writes the line and exits.\<close>

definition Fatal :: "string \<Rightarrow> log_op" where
  "Fatal msg ok stamp st = (log_Output ok stamp (''[ERR] '' @ msg) st)\<lparr>ls_exited := True\<rparr>"

definition SetDebug :: "bool \<Rightarrow> log_state \<Rightarrow> log_state" where
  "SetDebug enabled st = st\<lparr>ls_debugEnabled := enabled\<rparr>"

definition SetLogger :: "logger \<Rightarrow> log_state \<Rightarrow> log_state" where
  "SetLogger l st = st\<lparr>ls_logger := l\<rparr>"

text \<open>\<open>openErr\<close> is the error of opening the file, if any.\<close>

definition SetLogFile :: "(string \<Rightarrow> string option) \<Rightarrow> string \<Rightarrow> log_op" where
  "SetLogFile openErr path ok stamp st =
     (if path = [] then st
      else (case openErr path of
          Some err \<Rightarrow> Error (''Failed to open log file path: '' @ path @ '', error: '' @ err) ok stamp st
        | None \<Rightarrow>
            let st' = Info (''Log to file path: '' @ path) ok stamp st in
            st'\<lparr>ls_logger := (ls_logger st')\<lparr>lg_out := [Stderr, LogFile path]\<rparr>\<rparr>))"

section \<open>Adapters\<close>

definition TrimRight_newlines :: "string \<Rightarrow> string" where
  "TrimRight_newlines s = rev (dropWhile (\<lambda>c. c = CHR 0x0A) (rev s))"

text \<open>The second component is the number of bytes it reports as written.\<close>

definition warnWriter_Write :: "string \<Rightarrow> (destination \<Rightarrow> bool) \<Rightarrow> string \<Rightarrow> log_state \<Rightarrow> log_state \<times> nat" where
  "warnWriter_Write p ok stamp st =
     (let s = TrimRight_newlines p in ((if s \<noteq> [] then Warn s ok stamp st else st), length p))"

text \<open>A message on the logger that \<open>ErrorLogger\<close> returns: no flags, the writer above.\<close>

definition ErrorLogger_Output :: "string \<Rightarrow> log_op" where
  "ErrorLogger_Output s ok stamp st =
     fst (warnWriter_Write (log_line [] \<lparr>lg_stdFlags = False, lg_out = []\<rparr> s) ok stamp st)"

definition LegoLogger_Printf :: "string \<Rightarrow> log_op" where
  "LegoLogger_Printf msg =
     (if HasPrefix msg ''[INFO] '' then Info (TrimPrefix msg ''[INFO] '')
      else if HasPrefix msg ''[WARN] '' then Warn (TrimPrefix msg ''[WARN] '')
      else Info msg)"

definition LegoLogger_Print :: "string \<Rightarrow> log_op" where "LegoLogger_Print msg = Info msg"
definition LegoLogger_Fatal :: "string \<Rightarrow> log_op" where "LegoLogger_Fatal msg = Fatal msg"

section \<open>Bootstrap\<close>

record LogConfig =
  lc_Path :: string
  lc_Debug :: bool

definition Bootstrap :: "(string \<Rightarrow> string option) \<Rightarrow> LogConfig \<Rightarrow> log_op" where
  "Bootstrap openErr c ok stamp st = SetDebug (lc_Debug c) (SetLogFile openErr (lc_Path c) ok stamp st)"

section \<open>Lemmas\<close>

text \<open>The messages of a program and what a destination has got of them.\<close>

datatype log_call =
    CDebug string | CInfo string | CNotice string | CWarn string | CError string
  | CHttpError string | CLego string

fun run_log :: "log_call \<Rightarrow> log_op" where
  "run_log (CDebug m) = Debug m"
| "run_log (CInfo m) = Info m"
| "run_log (CNotice m) = Notice m"
| "run_log (CWarn m) = Warn m"
| "run_log (CError m) = Error m"
| "run_log (CHttpError m) = ErrorLogger_Output m"
| "run_log (CLego m) = LegoLogger_Printf m"

text \<open>The text of a call on the level it is logged at.\<close>

fun call_text :: "bool \<Rightarrow> log_call \<Rightarrow> string option" where
  "call_text debug (CDebug m) = (if debug then Some (''[DEB] '' @ m) else None)"
| "call_text debug (CInfo m) = Some (''[INF] '' @ m)"
| "call_text debug (CNotice m) = Some (''[NOT] '' @ m)"
| "call_text debug (CWarn m) = Some (''[WRN] '' @ m)"
| "call_text debug (CError m) = Some (''[ERR] '' @ m)"
| "call_text debug (CHttpError m) =
     (if TrimRight_newlines m = [] then None else Some (''[WRN] '' @ TrimRight_newlines m))"
| "call_text debug (CLego m) =
     Some (if HasPrefix m ''[INFO] '' then ''[INF] '' @ TrimPrefix m ''[INFO] ''
           else if HasPrefix m ''[WARN] '' then ''[WRN] '' @ TrimPrefix m ''[WARN] '' else ''[INF] '' @ m)"

fun log_calls :: "(log_call \<times> string) list \<Rightarrow> (destination \<Rightarrow> bool) \<Rightarrow> log_state \<Rightarrow> log_state" where
  "log_calls [] ok st = st"
| "log_calls ((c, stamp) # cs) ok st = log_calls cs ok (run_log c ok stamp st)"

definition received :: "destination \<Rightarrow> log_state \<Rightarrow> string list" where
  "received d st = map snd (filter (\<lambda>w. fst w = d) (ls_written st))"

lemma TrimRight_newlines_newline [simp]: "TrimRight_newlines (s @ [CHR 0x0A]) = TrimRight_newlines s"
  by (simp add: TrimRight_newlines_def)

lemma TrimRight_newlines_id: "s \<noteq> [] \<Longrightarrow> last s \<noteq> CHR 0x0A \<Longrightarrow> TrimRight_newlines s = s"
  by (cases s rule: rev_cases) (auto simp: TrimRight_newlines_def)

lemma error_line_trimmed:
  "TrimRight_newlines (log_line [] \<lparr>lg_stdFlags = False, lg_out = []\<rparr> m) = TrimRight_newlines m"
  using TrimRight_newlines_newline [of m] TrimRight_newlines_newline [of "[]"] by (auto simp: log_line_def)

lemma run_log_text:
  "run_log c ok stamp st =
     (case call_text (ls_debugEnabled st) c of None \<Rightarrow> st | Some s \<Rightarrow> log_Output ok stamp s st)"
  by (cases c)
    (simp_all add: Debug_def Info_def Notice_def Warn_def Error_def logf_def ErrorLogger_Output_def
      warnWriter_Write_def Let_def error_line_trimmed LegoLogger_Printf_def fun_eq_iff)

lemma log_Output_frame [simp]:
  "ls_logger (log_Output ok stamp s st) = ls_logger st" "ls_debugEnabled (log_Output ok stamp s st) = ls_debugEnabled st"
  "ls_exited (log_Output ok stamp s st) = ls_exited st"
  by (simp_all add: log_Output_def)

lemma multi_write_at:
  "distinct ds \<Longrightarrow> map snd (filter (\<lambda>w. fst w = d) (multi_write ok line ds)) =
     (if d \<in> set ds \<and> list_all ok (takeWhile (\<lambda>x. x \<noteq> d) ds @ [d]) then [line] else [])"
  by (induction ds) auto

text \<open>The lines of a sequence of calls under a logger.\<close>

definition lines_of :: "bool \<Rightarrow> logger \<Rightarrow> (log_call \<times> string) list \<Rightarrow> string list" where
  "lines_of debug l cs = List.map_filter (\<lambda>(c, stamp). map_option (log_line stamp l) (call_text debug c)) cs"

lemma log_calls_received:
  assumes "distinct (lg_out (ls_logger st))"
  shows "received d (log_calls cs ok st) = received d st @
    (if d \<in> set (lg_out (ls_logger st)) \<and> list_all ok (takeWhile (\<lambda>x. x \<noteq> d) (lg_out (ls_logger st)) @ [d])
     then lines_of (ls_debugEnabled st) (ls_logger st) cs else [])"
  using assms
proof (induction cs arbitrary: st)
  case (Cons cs1 cs)
  obtain c stamp where c: "cs1 = (c, stamp)" by fastforce
  show ?case
    using Cons multi_write_at [OF Cons.prems, of d ok]
    by (cases "call_text (ls_debugEnabled st) c")
      (auto simp: c run_log_text lines_of_def received_def log_Output_def List.map_filter_def)
qed (simp add: lines_of_def List.map_filter_def)

section \<open>Properties\<close>

text \<open>
  What a started program logs: after \<open>Bootstrap\<close> with a log file that opens, every call is on
  standard error and in the file as the same line, in order, with the prefix of its level, and
  debug messages exactly when they are enabled; messages of net/http and lego are among them under
  their own prefixes. But the file depends on standard error: a write to it that fails keeps the
  line from the file too.
\<close>

theorem bootstrap_logs:
  assumes "lc_Path c \<noteq> []" "openErr (lc_Path c) = None"
  shows "let st = Bootstrap openErr c ok stamp log_default; st' = log_calls cs ok' st in
    received Stderr st' = received Stderr st @ (if ok' Stderr then lines_of (lc_Debug c) (ls_logger st) cs else []) \<and>
    received (LogFile (lc_Path c)) st' =
      (if ok' Stderr \<and> ok' (LogFile (lc_Path c)) then lines_of (lc_Debug c) (ls_logger st) cs else [])"
proof -
  let ?st = "Bootstrap openErr c ok stamp log_default"
  have l: "lg_out (ls_logger ?st) = [Stderr, LogFile (lc_Path c)]" "ls_debugEnabled ?st = lc_Debug c"
    using assms by (simp_all add: Bootstrap_def SetDebug_def SetLogFile_def Let_def)
  have "received (LogFile (lc_Path c)) ?st = []"
    using assms by (simp add: Bootstrap_def SetDebug_def SetLogFile_def Info_def logf_def log_Output_def Let_def
        received_def log_default_def)
  then show ?thesis
    using log_calls_received [of ?st _ cs ok'] by (simp add: l Let_def)
qed

text \<open>
  The prefix is one per write, not one per line: the part of a message of net/http after a newline
  (as in the trace of a panic) is logged without one.
\<close>

theorem error_logger_prefixes_once:
  assumes "a \<noteq> []" "b \<noteq> []" "last b \<noteq> CHR 0x0A" "ok Stderr"
  shows "ls_written (ErrorLogger_Output (a @ [CHR 0x0A] @ b) ok stamp log_default) =
    [(Stderr, stamp @ ''[WRN] '' @ a @ [CHR 0x0A] @ b @ [CHR 0x0A])]"
proof -
  have "TrimRight_newlines (a @ [CHR 0x0A] @ b) = a @ [CHR 0x0A] @ b"
    by (rule TrimRight_newlines_id) (use assms in auto)
  then show ?thesis
    using assms run_log_text [of "CHttpError (a @ [CHR 0x0A] @ b)" ok stamp log_default]
    by (simp add: log_Output_def log_default_def log_line_def)
qed

end
