(* ===== verification/S3_Challenge.thy ===== *)
theory S3_Challenge
  imports Acme
begin

text \<open>
  \<open>pkg/acme/challengeproviders/s3/s3.go\<close>: how the HTTP-01 challenge is put into a bucket and removed
  again. The S3 service is a parameter on a state of any type, and so is lego's
  \<open>http01.ChallengePath\<close>. What the properties use of the service is its contract, the locale
  \<open>object_store\<close>, which the theorem at the top level spells out as its hypotheses.
\<close>

section \<open>Operations\<close>

record HTTPProvider =
  hp_bucket :: string

record PutObjectInput =
  po_ACL :: string
  po_Bucket :: string
  po_Key :: string
  po_Body :: bytes

record DeleteObjectInput =
  do_Bucket :: string
  do_Key :: string

text \<open>The provider that \<open>NewHTTPProvider\<close> returns for a configuration.\<close>

definition provider_of :: "challenger \<Rightarrow> HTTPProvider option" where
  "provider_of c = (case c of S3Http cfg \<Rightarrow> Some \<lparr>hp_bucket = s3_Bucket cfg\<rparr> | _ \<Rightarrow> None)"

text \<open>\<open>strings.Trim(s, "/")\<close>.\<close>

definition trim_slashes :: "string \<Rightarrow> string" where
  "trim_slashes s = rev (dropWhile (\<lambda>c. c = CHR ''/'') (rev (dropWhile (\<lambda>c. c = CHR ''/'') s)))"

type_synonym ('i, 'w) s3_call = "'i \<Rightarrow> 'w \<Rightarrow> 'w \<times> string option"

definition Present ::
    "(string \<Rightarrow> string) \<Rightarrow> (PutObjectInput, 'w) s3_call \<Rightarrow> HTTPProvider \<Rightarrow> string \<Rightarrow> string \<Rightarrow> bytes \<Rightarrow> 'w \<Rightarrow>
     'w \<times> string option" where
  "Present challengePath putObject s domain token keyAuth w =
     (case putObject \<lparr>po_ACL = ''public-read'', po_Bucket = hp_bucket s,
                      po_Key = trim_slashes (challengePath token), po_Body = keyAuth\<rparr> w of
        (w', Some err) \<Rightarrow> (w', Some (''s3: failed to upload token to s3: '' @ err))
      | (w', None) \<Rightarrow> (w', None))"

definition CleanUp ::
    "(string \<Rightarrow> string) \<Rightarrow> (DeleteObjectInput, 'w) s3_call \<Rightarrow> HTTPProvider \<Rightarrow> string \<Rightarrow> string \<Rightarrow> bytes \<Rightarrow> 'w \<Rightarrow>
     'w \<times> string option" where
  "CleanUp challengePath deleteObject s domain token keyAuth w =
     (case deleteObject \<lparr>do_Bucket = hp_bucket s, do_Key = trim_slashes (challengePath token)\<rparr> w of
        (w', Some err) \<Rightarrow> (w', Some (''s3: could not remove file in s3 bucket after HTTP challenge: '' @ err))
      | (w', None) \<Rightarrow> (w', None))"

section \<open>Lemmas\<close>

lemma trim_slashes_plain:
  assumes "s = CHR ''/'' # t" "t \<noteq> []" "hd t \<noteq> CHR ''/''" "last t \<noteq> CHR ''/''"
  shows "trim_slashes s = t"
proof -
  have "dropWhile (\<lambda>c. c = CHR ''/'') s = t"
    using assms by (cases t) auto
  moreover have "dropWhile (\<lambda>c. c = CHR ''/'') (rev t) = rev t"
    using assms by (cases t rule: rev_cases) auto
  ultimately show ?thesis by (simp add: trim_slashes_def)
qed

text \<open>The keys of two tokens differ when their paths do and the paths have the form lego gives them.\<close>

definition challenge_path_ok :: "(string \<Rightarrow> string) \<Rightarrow> bool" where
  "challenge_path_ok challengePath \<longleftrightarrow>
     (\<forall>token. token \<noteq> [] \<longrightarrow> last token \<noteq> CHR ''/'' \<longrightarrow> challengePath token = ''/.well-known/acme-challenge/'' @ token)"

lemma challenge_key:
  assumes "challenge_path_ok challengePath" "token \<noteq> []" "last token \<noteq> CHR ''/''"
  shows "trim_slashes (challengePath token) = ''.well-known/acme-challenge/'' @ token"
proof -
  have "challengePath token = CHR ''/'' # (''.well-known/acme-challenge/'' @ token)"
    using assms by (simp add: challenge_path_ok_def)
  then show ?thesis
    by (rule trim_slashes_plain) (use assms in auto)
qed

section \<open>The round trip\<close>

text \<open>
  The contract of the object store: an accepted upload makes the object readable under its key with
  the access asked for, an accepted removal removes it, and neither touches other objects.
\<close>

locale object_store =
  fixes putObject :: "(PutObjectInput, 'w) s3_call"
    and deleteObject :: "(DeleteObjectInput, 'w) s3_call"
    and object :: "'w \<Rightarrow> string \<Rightarrow> string \<Rightarrow> (string \<times> bytes) option"
  assumes put: "putObject i w = (w', None) \<Longrightarrow> object w' b k =
      (if b = po_Bucket i \<and> k = po_Key i then Some (po_ACL i, po_Body i) else object w b k)"
    and delete: "deleteObject i' w = (w', None) \<Longrightarrow> object w' b k =
      (if b = do_Bucket i' \<and> k = do_Key i' then None else object w b k)"
begin

lemma present_publishes:
  assumes "Present challengePath putObject s domain token keyAuth w = (w', None)"
  shows "object w' b k = (if b = hp_bucket s \<and> k = trim_slashes (challengePath token)
    then Some (''public-read'', keyAuth) else object w b k)"
proof -
  have "putObject \<lparr>po_ACL = ''public-read'', po_Bucket = hp_bucket s,
      po_Key = trim_slashes (challengePath token), po_Body = keyAuth\<rparr> w = (w', None)"
    using assms by (auto simp: Present_def split: prod.splits option.splits)
  from put [OF this] show ?thesis by simp
qed

lemma cleanup_removes:
  assumes "CleanUp challengePath deleteObject s domain token keyAuth w = (w', None)"
  shows "object w' b k = (if b = hp_bucket s \<and> k = trim_slashes (challengePath token) then None else object w b k)"
proof -
  have "deleteObject \<lparr>do_Bucket = hp_bucket s, do_Key = trim_slashes (challengePath token)\<rparr> w = (w', None)"
    using assms by (auto simp: CleanUp_def split: prod.splits option.splits)
  from delete [OF this] show ?thesis by simp
qed

end

text \<open>The documented behaviour of a bucket, which may also refuse a call.\<close>

type_synonym buckets = "string \<times> string \<Rightarrow> (string \<times> bytes) option"

definition bucket_put :: "(string \<Rightarrow> string option) \<Rightarrow> (PutObjectInput, buckets) s3_call" where
  "bucket_put refuses i w =
     (case refuses (po_Bucket i) of
        Some e \<Rightarrow> (w, Some e)
      | None \<Rightarrow> (w((po_Bucket i, po_Key i) \<mapsto> (po_ACL i, po_Body i)), None))"

definition bucket_delete :: "(string \<Rightarrow> string option) \<Rightarrow> (DeleteObjectInput, buckets) s3_call" where
  "bucket_delete refuses i w =
     (case refuses (do_Bucket i) of
        Some e \<Rightarrow> (w, Some e)
      | None \<Rightarrow> (w((do_Bucket i, do_Key i) := None), None))"

interpretation bucket: object_store "bucket_put refuses" "bucket_delete refuses'" "\<lambda>w b k. w (b, k)"
  by unfold_locales (auto simp: bucket_put_def bucket_delete_def split: option.splits)

section \<open>Properties\<close>

text \<open>
  A challenge that was presented is readable by everyone at the path that the CA asks for, with the
  key authorization as its content, until it is cleaned up; after the clean-up the bucket is as it
  was before, if the token had not been there, and no other object was touched at any time.
\<close>

theorem challenge_round_trip:
  assumes "object_store putObject deleteObject object"
    and "challenge_path_ok challengePath" "token \<noteq> []" "last token \<noteq> CHR ''/''"
    and "Present challengePath putObject s domain token keyAuth w = (w\<^sub>1, None)"
    and "CleanUp challengePath deleteObject s domain token keyAuth w\<^sub>1 = (w\<^sub>2, None)"
  shows "object w\<^sub>1 (hp_bucket s) (''.well-known/acme-challenge/'' @ token) = Some (''public-read'', keyAuth)"
    and "object w (hp_bucket s) (''.well-known/acme-challenge/'' @ token) = None \<Longrightarrow> object w\<^sub>2 = object w"
proof -
  note key = challenge_key [OF assms(2-4)]
  show "object w\<^sub>1 (hp_bucket s) (''.well-known/acme-challenge/'' @ token) = Some (''public-read'', keyAuth)"
    using object_store.present_publishes [OF assms(1,5)] by (simp add: key)
  assume "object w (hp_bucket s) (''.well-known/acme-challenge/'' @ token) = None"
  then show "object w\<^sub>2 = object w"
    using object_store.present_publishes [OF assms(1,5)] object_store.cleanup_removes [OF assms(1,6)]
    by (auto simp: key fun_eq_iff)
qed

end
