(* ===== verification/Harness.thy ===== *)
theory Harness
  imports Tools_Cli Caddy
begin

text \<open>
  The harness of the end-to-end tests, \<open>test/e2e/harness\<close>: its waiting loops, the processes it starts
  and stops, the configuration files it renders, and the chain of certificates that it makes with
  the tools. The operating system, the network and the built programs are parameters. What makes it a
  harness is shown: a wait ends, it sees what happens early enough, a stopped process has ended, and
  the programs work in the directory of the test and find there what the harness has put there.
\<close>

section \<open>Waiting\<close>

text \<open>
  The loop that all waits share: while the deadline is not reached, probe, and after a failure sleep.
  A probe takes time and gives a result or an error; the last error is kept. The value \<open>None\<close> of the
  function is a loop that does not end.
\<close>

definition Millisecond :: duration where [go_time_simps]: "Millisecond = 1000000"

type_synonym ('e, 'a) probe = "time \<Rightarrow> duration \<times> ('e + 'a)"

partial_function (option) poll :: "('e, 'a) probe \<Rightarrow> duration \<Rightarrow> time \<Rightarrow> 'e \<Rightarrow> time \<Rightarrow> ('e + 'a) option" where
  "poll probe pause deadline lastErr now =
     (if now < deadline
      then case probe now of (d, r) \<Rightarrow>
        (case r of Inr a \<Rightarrow> Some (Inr a) | Inl e \<Rightarrow> poll probe pause deadline e (now + d + pause))
      else Some (Inl lastErr))"

text \<open>\<open>dial\<close> is \<open>net.DialTimeout\<close> of the address, with 200 milliseconds: how long it takes and whether
  there is a connection.\<close>

definition WaitListening :: "(time \<Rightarrow> duration \<times> bool) \<Rightarrow> duration \<Rightarrow> time \<Rightarrow> (unit + unit) option" where
  "WaitListening dial timeout now =
     poll (\<lambda>t. case dial t of (d, ok) \<Rightarrow> (d, if ok then Inr () else Inl ())) (50 * Millisecond) (now + timeout) () now"

definition WaitNotListening :: "(time \<Rightarrow> duration \<times> bool) \<Rightarrow> duration \<Rightarrow> time \<Rightarrow> (unit + unit) option" where
  "WaitNotListening dial timeout now =
     poll (\<lambda>t. case dial t of (d, ok) \<Rightarrow> (d, if ok then Inl () else Inr ())) (50 * Millisecond) (now + timeout) () now"

text \<open>\<open>stat\<close> gives the size of the file, if there is one.\<close>

definition WaitForFile :: "(time \<Rightarrow> duration \<times> nat option) \<Rightarrow> duration \<Rightarrow> time \<Rightarrow> (unit + unit) option" where
  "WaitForFile stat timeout now =
     poll (\<lambda>t. case stat t of (d, sz) \<Rightarrow> (d, case sz of Some n \<Rightarrow> if n > 0 then Inr () else Inl () | None \<Rightarrow> Inl ()))
       (100 * Millisecond) (now + timeout) () now"

datatype 'e load_error = ReadErr 'e | EmptyFile | NoPemBlock | ParseErr 'e

text \<open>\<open>pemDecode\<close> is \<open>pem.Decode\<close>, \<open>parse\<close> is \<open>x509.ParseCertificate\<close>.\<close>

definition tryLoadCert ::
    "(bytes \<Rightarrow> bytes option) \<Rightarrow> (bytes \<Rightarrow> 'e + 'c) \<Rightarrow> 'e + bytes \<Rightarrow> 'e load_error + 'c" where
  "tryLoadCert pemDecode parse readResult =
     (case readResult of
        Inl e \<Rightarrow> Inl (ReadErr e)
      | Inr data \<Rightarrow>
          if data = [] then Inl EmptyFile
          else (case pemDecode data of
                  None \<Rightarrow> Inl NoPemBlock
                | Some block \<Rightarrow> (case parse block of Inl e \<Rightarrow> Inl (ParseErr e) | Inr c \<Rightarrow> Inr c)))"

text \<open>\<open>load\<close> is \<open>tryLoadCert\<close> at a time. The errors of the waits are those of the last attempt: none when
  there was no attempt, or when it found the certificate unchanged.\<close>

definition WaitForCertFile ::
    "(time \<Rightarrow> duration \<times> ('e load_error + 'c)) \<Rightarrow> duration \<Rightarrow> time \<Rightarrow> ('e load_error option + 'c) option" where
  "WaitForCertFile load timeout now =
     poll (\<lambda>t. case load t of (d, r) \<Rightarrow> (d, case r of Inr c \<Rightarrow> Inr c | Inl e \<Rightarrow> Inl (Some e)))
       (100 * Millisecond) (now + timeout) None now"

definition WaitForCertChange ::
    "(time \<Rightarrow> duration \<times> ('e load_error + 'c)) \<Rightarrow> ('c \<Rightarrow> bytes) \<Rightarrow> 'c \<Rightarrow> duration \<Rightarrow> time \<Rightarrow> ('e load_error option + 'c) option" where
  "WaitForCertChange load raw prev timeout now =
     poll (\<lambda>t. case load t of (d, r) \<Rightarrow>
         (d, case r of Inr c \<Rightarrow> if raw c \<noteq> raw prev then Inr c else Inl None | Inl e \<Rightarrow> Inl (Some e)))
       (200 * Millisecond) (now + timeout) None now"

text \<open>\<open>dial\<close> is \<open>tls.DialWithDialer\<close>: the certificates of the peer, or an error.\<close>

datatype 'e tls_error = NoPeerCertificates | DialErr 'e

definition WaitForTLSCert ::
    "(time \<Rightarrow> duration \<times> ('e + 'c list)) \<Rightarrow> duration \<Rightarrow> time \<Rightarrow> ('e tls_error option + 'c) option" where
  "WaitForTLSCert dial timeout now =
     poll (\<lambda>t. case dial t of (d, r) \<Rightarrow>
         (d, case r of Inl e \<Rightarrow> Inl (Some (DialErr e)) | Inr [] \<Rightarrow> Inl (Some NoPeerCertificates) | Inr (c # _) \<Rightarrow> Inr c))
       (200 * Millisecond) (now + timeout) None now"

text \<open>The loop of \<open>StartTarpit\<close> that binds the listener.\<close>

definition tarpit_listen :: "(time \<Rightarrow> duration \<times> ('e + 'l)) \<Rightarrow> time \<Rightarrow> ('e option + 'l) option" where
  "tarpit_listen listen now =
     poll (\<lambda>t. case listen t of (d, r) \<Rightarrow> (d, case r of Inr l \<Rightarrow> Inr l | Inl e \<Rightarrow> Inl (Some e)))
       (50 * Millisecond) (now + 3 * Second) None now"

section \<open>Lemmas on waiting\<close>

text \<open>A wait ends, and a result is that of a probe before the deadline.\<close>

lemma poll_returns:
  assumes "0 < pause" "\<And>t. 0 \<le> fst (probe t)"
  shows "\<exists>r. poll probe pause deadline e now = Some r"
proof (induction "nat (deadline - now)" arbitrary: now e rule: less_induct)
  case less
  obtain d r where p: "probe now = (d, r)" by fastforce
  show ?case
  proof (cases "now < deadline")
    case True
    have "nat (deadline - (now + d + pause)) < nat (deadline - now)"
      using True assms(1) assms(2) [of now] p by simp
    then show ?thesis using less True p by (subst poll.simps) (auto split: sum.splits)
  qed (subst poll.simps, simp)
qed

lemma poll_sound:
  assumes "poll probe pause deadline e now = Some (Inr a)" "0 < pause" "\<And>t. 0 \<le> fst (probe t)"
  shows "\<exists>t. now \<le> t \<and> t < deadline \<and> snd (probe t) = Inr a"
  using assms(1)
proof (induction "nat (deadline - now)" arbitrary: now e rule: less_induct)
  case less
  obtain d r where p: "probe now = (d, r)" by fastforce
  have now: "now < deadline" using less.prems by (subst (asm) poll.simps) (simp split: if_splits)
  then have "nat (deadline - (now + d + pause)) < nat (deadline - now)" and d: "0 \<le> d"
    using assms(2) assms(3) [of now] p by simp_all
  note rec = less.hyps [OF this(1)]
  show ?case
  proof (cases r)
    case (Inl e')
    then have "poll probe pause deadline e' (now + d + pause) = Some (Inr a)"
      using less.prems now p by (subst (asm) poll.simps) simp
    from rec [OF this] obtain t where "now + d + pause \<le> t" "t < deadline" "snd (probe t) = Inr a" by blast
    then show ?thesis using assms(2) d by (intro exI [of _ t]) simp
  next
    case (Inr a')
    then show ?thesis using less.prems now p by (subst (asm) poll.simps) (intro exI [of _ now], simp)
  qed
qed

text \<open>What holds from some time on is seen, when a probe and a pause fit between it and the deadline.\<close>

lemma poll_sees:
  assumes "0 < pause" "\<And>t. 0 \<le> fst (probe t) \<and> fst (probe t) \<le> D"
    and "\<And>t. T \<le> t \<Longrightarrow> \<exists>a. snd (probe t) = Inr a" "T + D + pause \<le> deadline" "now < T + D + pause"
  shows "\<exists>a. poll probe pause deadline e now = Some (Inr a)"
  using assms(5)
proof (induction "nat (deadline - now)" arbitrary: now e rule: less_induct)
  case less
  obtain d r where p: "probe now = (d, r)" by fastforce
  have now: "now < deadline" using less.prems assms(4) by simp
  show ?case
  proof (cases r)
    case (Inr a)
    then show ?thesis using now p by (subst poll.simps) simp
  next
    case (Inl e')
    then have "now < T" using assms(3) [of now] p by force
    moreover have "0 \<le> d" "d \<le> D" using assms(2) [of now] p by simp_all
    ultimately have "nat (deadline - (now + d + pause)) < nat (deadline - now)" "now + d + pause < T + D + pause"
      using now assms(1) by simp_all
    then show ?thesis using less.hyps now p Inl by (subst poll.simps) simp
  qed
qed

section \<open>Processes\<close>

text \<open>\<open>pr_done\<close>: the goroutine that waits for the command has closed \<open>done\<close>.\<close>

record Process =
  pr_started :: bool
  pr_done :: bool

datatype start_error = MkdirLogs string | CreateStdout string | CreateStderr string | StartFailed string

definition StartEnv :: "string option \<Rightarrow> string option \<Rightarrow> string option \<Rightarrow> string option \<Rightarrow> start_error + Process" where
  "StartEnv mkdirErr outErr errErr startErr =
     (case mkdirErr of Some e \<Rightarrow> Inl (MkdirLogs e)
      | None \<Rightarrow> (case outErr of Some e \<Rightarrow> Inl (CreateStdout e)
      | None \<Rightarrow> (case errErr of Some e \<Rightarrow> Inl (CreateStderr e)
      | None \<Rightarrow> (case startErr of Some e \<Rightarrow> Inl (StartFailed e)
      | None \<Rightarrow> Inr \<lparr>pr_started = True, pr_done = False\<rparr>))))"

text \<open>The environment of the process, and what \<open>os.Getenv\<close> finds in it: of several values of a variable
  the last one.\<close>

definition child_env :: "string list \<Rightarrow> string \<Rightarrow> string list \<Rightarrow> string list" where
  "child_env environ cwd extraEnv = environ @ [''CERTDX_DATA_DIR='' @ cwd] @ extraEnv"

definition Getenv :: "string list \<Rightarrow> string \<Rightarrow> string" where
  "Getenv env name =
     (case filter (\<lambda>kv. HasPrefix kv (name @ ''='')) env of [] \<Rightarrow> [] | kvs \<Rightarrow> drop (length name + 1) (last kvs))"

text \<open>\<open>exits\<close>: how long after the signal the process ends by itself, if it does. When that is just at the
  timeout, \<open>select\<close> takes either case.\<close>

definition exits_within :: "bool \<Rightarrow> duration option \<Rightarrow> duration \<Rightarrow> bool" where
  "exits_within tie exits timeout \<longleftrightarrow>
     (case exits of None \<Rightarrow> False | Some d \<Rightarrow> d < timeout \<or> d = timeout \<and> tie)"

datatype signal = SIGTERM | SIGKILL

definition process_Stop :: "bool \<Rightarrow> duration option \<Rightarrow> duration \<Rightarrow> Process \<Rightarrow> signal list \<times> Process" where
  "process_Stop tie exits timeout p =
     (if \<not> pr_started p then ([], p)
      else if pr_done p then ([], p)
      else if exits_within tie exits timeout then ([SIGTERM], p\<lparr>pr_done := True\<rparr>)
      else ([SIGTERM, SIGKILL], p\<lparr>pr_done := True\<rparr>))"

definition GracefulStop :: "bool \<Rightarrow> duration option \<Rightarrow> duration \<Rightarrow> Process \<Rightarrow> signal list \<times> bool \<times> Process" where
  "GracefulStop tie exits timeout p =
     (if \<not> pr_started p then ([], True, p)
      else if pr_done p then ([], True, p)
      else if exits_within tie exits timeout then ([SIGTERM], True, p\<lparr>pr_done := True\<rparr>)
      else ([SIGTERM], False, p))"

definition WaitForExit :: "bool \<Rightarrow> duration option \<Rightarrow> duration \<Rightarrow> Process \<Rightarrow> bool \<times> Process" where
  "WaitForExit tie exits timeout p =
     (if exits_within tie (if pr_done p then Some 0 else exits) timeout then (True, p\<lparr>pr_done := True\<rparr>) else (False, p))"

section \<open>Configuration files\<close>

type_synonym test_fs = "string \<rightharpoonup> bytes \<times> nat"

record ServerOpts =
  so_AllowedDomains :: "string list"
  so_CertLifetime :: duration
  so_RenewTimeLeft :: duration
  so_HTTPEnabled :: bool
  so_HTTPListen :: string
  so_HTTPApiPath :: string
  so_HTTPAuth :: string
  so_HTTPSecure :: bool
  so_HTTPNames :: "string list"
  so_HTTPToken :: string
  so_GRPCEnabled :: bool
  so_GRPCListen :: string
  so_MTLSPEM :: string

definition server_opts_defaults :: "ServerOpts \<Rightarrow> ServerOpts" where
  "server_opts_defaults o1 =
     (let o2 = (if so_CertLifetime o1 = 0 then o1\<lparr>so_CertLifetime := 168 * Hour\<rparr> else o1);
          o3 = (if so_RenewTimeLeft o2 = 0 then o2\<lparr>so_RenewTimeLeft := 24 * Hour\<rparr> else o2);
          o4 = (if so_HTTPApiPath o3 = [] then o3\<lparr>so_HTTPApiPath := ''/e2e''\<rparr> else o3)
      in if so_HTTPAuth o4 = [] then o4\<lparr>so_HTTPAuth := ''token''\<rparr> else o4)"

text \<open>The templates, line by line. \<open>str\<close> is \<open>Duration.String\<close>.\<close>

definition quoted :: "string \<Rightarrow> string" where
  "quoted s = ''\"'' @ s @ ''\"''"

definition str_line :: "string \<Rightarrow> string \<Rightarrow> string" where
  "str_line k v = k @ '' = '' @ quoted v"

definition bool_line :: "string \<Rightarrow> bool \<Rightarrow> string" where
  "bool_line k b = k @ '' = '' @ (if b then ''true'' else ''false'')"

definition list_line :: "string \<Rightarrow> string list \<Rightarrow> string" where
  "list_line k vs = k @ '' = ['' @ Join (map quoted vs) '', '' @ '']''"

definition text_of :: "string list \<Rightarrow> string" where
  "text_of ls = concat (map (\<lambda>l. l @ newline) ls)"

definition serverTOML :: "(duration \<Rightarrow> string) \<Rightarrow> ServerOpts \<Rightarrow> string" where
  "serverTOML str o1 = text_of
     ([''[ACME]'', str_line ''provider'' ''mock'', str_line ''email'' ''e2e@certdx.test'', str_line ''challengeType'' ''dns'',
       str_line ''certLifeTime'' (str (so_CertLifetime o1)), str_line ''renewTimeLeft'' (str (so_RenewTimeLeft o1)),
       ''retryCount = 1'', list_line ''allowedDomains'' (so_AllowedDomains o1), [],
       ''[HttpServer]'', bool_line ''enabled'' (so_HTTPEnabled o1), str_line ''listen'' (so_HTTPListen o1),
       str_line ''apiPath'' (so_HTTPApiPath o1), str_line ''authMethod'' (so_HTTPAuth o1), bool_line ''secure'' (so_HTTPSecure o1),
       list_line ''names'' (so_HTTPNames o1), str_line ''token'' (so_HTTPToken o1), [],
       ''[gRPCSDSServer]'', bool_line ''enabled'' (so_GRPCEnabled o1), str_line ''listen'' (so_GRPCListen o1)] @
      (if so_MTLSPEM o1 = [] then [] else [[], ''[MTLS]'', str_line ''pem'' (so_MTLSPEM o1)]) @ [[]])"

text \<open>\<open>writeErr p\<close>: \<open>os.WriteFile\<close> of \<open>p\<close> fails; \<open>0o600\<close> is \<open>384\<close>.\<close>

definition renderTo :: "(string \<Rightarrow> string option) \<Rightarrow> string \<Rightarrow> string \<Rightarrow> string \<Rightarrow> test_fs \<Rightarrow> string + string \<times> test_fs" where
  "renderTo writeErr dir name txt fs =
     (let path = filepath_Join [dir, name] in
      (case writeErr path of Some e \<Rightarrow> Inl e | None \<Rightarrow> Inr (path, fs(path \<mapsto> (txt, 384)))))"

definition PrepareServerCwd :: "string option \<Rightarrow> (string \<Rightarrow> string option) \<Rightarrow> string \<Rightarrow> test_fs \<Rightarrow> string + test_fs" where
  "PrepareServerCwd mkdirErr writeErr dir fs =
     (case mkdirErr of
        Some e \<Rightarrow> Inl e
      | None \<Rightarrow>
          let cachePath = filepath_Join [dir, ''cache.json''] in
          if fs cachePath \<noteq> None then Inr fs
          else (case writeErr cachePath of Some e \<Rightarrow> Inl e | None \<Rightarrow> Inr (fs(cachePath \<mapsto> (''{}'', 384)))))"

definition WriteServerConfig ::
    "(duration \<Rightarrow> string) \<Rightarrow> string option \<Rightarrow> (string \<Rightarrow> string option) \<Rightarrow> string \<Rightarrow> ServerOpts \<Rightarrow> test_fs \<Rightarrow> string + string \<times> test_fs" where
  "WriteServerConfig str mkdirErr writeErr dir opts fs =
     (case PrepareServerCwd mkdirErr writeErr dir fs of
        Inl e \<Rightarrow> Inl e
      | Inr fs' \<Rightarrow> renderTo writeErr dir ''server.toml'' (serverTOML str (server_opts_defaults opts)) fs')"

text \<open>The configurations of clients. The servers of the two modes are records of their own in the
  source with the fields of the configuration.\<close>

record ClientCert =
  tc_Name :: string
  tc_SavePath :: string
  tc_Domains :: "string list"
  tc_ReloadCommand :: string

record 's ClientOpts =
  co_Main :: 's
  co_Standby :: "'s option"
  co_RetryCount :: int
  co_ReconnectInt :: string
  co_Certs :: "ClientCert list"

definition client_opts_defaults :: "'s ClientOpts \<Rightarrow> 's ClientOpts" where
  "client_opts_defaults o1 =
     (let o2 = (if co_RetryCount o1 = 0 then o1\<lparr>co_RetryCount := 2\<rparr> else o1)
      in if co_ReconnectInt o2 = [] then o2\<lparr>co_ReconnectInt := ''10s''\<rparr> else o2)"

definition http_server_lines :: "ClientHttpServer \<Rightarrow> string list" where
  "http_server_lines s =
     [str_line ''url'' (ch_Url s), str_line ''authMethod'' (ch_AuthMethod s), str_line ''token'' (ch_Token s), str_line ''pem'' (ch_PEM s)]"

definition grpc_server_lines :: "ClientGRPCServer \<Rightarrow> string list" where
  "grpc_server_lines s = [str_line ''server'' (cg_Server s), str_line ''pem'' (cg_PEM s)]"

definition cert_lines :: "ClientCert \<Rightarrow> string list" where
  "cert_lines c = [[], ''[[Certifications]]'', str_line ''name'' (tc_Name c), str_line ''savePath'' (tc_SavePath c),
     list_line ''domains'' (tc_Domains c), str_line ''reloadCommand'' (tc_ReloadCommand c)]"

definition clientTOML :: "string \<Rightarrow> string \<Rightarrow> ('s \<Rightarrow> string list) \<Rightarrow> 's ClientOpts \<Rightarrow> string" where
  "clientTOML mode section lines_of o1 = text_of
     ([''[Common]'', str_line ''mode'' mode, ''retryCount = '' @ Itoa (co_RetryCount o1),
       str_line ''reconnectInterval'' (co_ReconnectInt o1), [],
       ''['' @ section @ ''.MainServer]''] @ lines_of (co_Main o1) @ [[]] @
      (case co_Standby o1 of None \<Rightarrow> [] | Some s \<Rightarrow> [[], ''['' @ section @ ''.StandbyServer]''] @ lines_of s) @ [[], []] @
      concat (map cert_lines (co_Certs o1)) @ [[]])"

definition httpClientTOML :: "ClientHttpServer ClientOpts \<Rightarrow> string" where
  "httpClientTOML = clientTOML ''http'' ''Http'' http_server_lines"

definition grpcClientTOML :: "ClientGRPCServer ClientOpts \<Rightarrow> string" where
  "grpcClientTOML = clientTOML ''grpc'' ''GRPC'' grpc_server_lines"

definition WriteHTTPClientConfig ::
    "(string \<Rightarrow> string option) \<Rightarrow> string \<Rightarrow> ClientHttpServer ClientOpts \<Rightarrow> test_fs \<Rightarrow> string + string \<times> test_fs" where
  "WriteHTTPClientConfig writeErr dir opts fs =
     renderTo writeErr dir ''client.toml'' (httpClientTOML (client_opts_defaults opts)) fs"

definition WriteGRPCClientConfig ::
    "(string \<Rightarrow> string option) \<Rightarrow> string \<Rightarrow> ClientGRPCServer ClientOpts \<Rightarrow> test_fs \<Rightarrow> string + string \<times> test_fs" where
  "WriteGRPCClientConfig writeErr dir opts fs =
     renderTo writeErr dir ''client.toml'' (grpcClientTOML (client_opts_defaults opts)) fs"

text \<open>The \<open>certdx\<close> block of the Caddyfile, as Caddy dispenses it (\<open>Caddy\<close>).\<close>

record CaddyfileOpts =
  cy_Mode :: string
  cy_RetryCount :: int
  cy_ReconnectInterval :: string
  cy_HTTP :: "ClientHttpServer option"
  cy_GRPC :: "ClientGRPCServer option"
  cy_Certificates :: "(string \<times> string list) list"

definition caddyfile_defaults :: "CaddyfileOpts \<Rightarrow> CaddyfileOpts" where
  "caddyfile_defaults o1 = (if cy_RetryCount o1 = 0 then o1\<lparr>cy_RetryCount := 3\<rparr> else o1)"

definition unless_empty :: "string \<Rightarrow> string \<Rightarrow> segment list" where
  "unless_empty directive v = (if v = [] then [] else [setting directive v])"

definition caddyfile_block :: "CaddyfileOpts \<Rightarrow> segment" where
  "caddyfile_block o1 = Seg ''certdx'' []
     ([setting ''retry_count'' (Itoa (cy_RetryCount o1)), setting ''mode'' (cy_Mode o1)] @
      unless_empty ''reconnect_interval'' (cy_ReconnectInterval o1) @
      (case cy_HTTP o1 of None \<Rightarrow> []
       | Some s \<Rightarrow> [Seg ''http'' [] [Seg ''main_server'' []
           ([setting ''url'' (ch_Url s), setting ''authMethod'' (ch_AuthMethod s)] @
            unless_empty ''token'' (ch_Token s) @ unless_empty ''pem'' (ch_PEM s))]]) @
      (case cy_GRPC o1 of None \<Rightarrow> []
       | Some s \<Rightarrow> [Seg ''GRPC'' [] [Seg ''main_server'' [] [setting ''server'' (cg_Server s), setting ''pem'' (cg_PEM s)]]]) @
      map print_certificate (cy_Certificates o1))"

section \<open>The chain of certificates\<close>

record MTLSChain =
  mc_Dir :: string
  mc_CABundle :: string
  mc_SrvBundle :: string
  mc_ClientBundle :: "string \<rightharpoonup> string"

fun joinDNS_loop :: "string \<Rightarrow> bool \<Rightarrow> string list \<Rightarrow> string" where
  "joinDNS_loop s later [] = s"
| "joinDNS_loop s later (n # names) = joinDNS_loop (s @ (if later then '','' else []) @ n) True names"

definition joinDNS :: "string list \<Rightarrow> string" where
  "joinDNS names = joinDNS_loop [] False names"

text \<open>\<open>tool\<close> is \<open>RunTool\<close> in the directory: a run of \<open>certdx_tools\<close> with these arguments, and its error.\<close>

datatype chain_error = MakeCAFailed string | MakeServerFailed string | MakeClientFailed string string

fun make_clients ::
    "(string list \<Rightarrow> 'w \<Rightarrow> 'w \<times> string option) \<Rightarrow> string \<Rightarrow> string list \<Rightarrow> 'w \<Rightarrow> MTLSChain \<Rightarrow> 'w \<times> (chain_error + MTLSChain)" where
  "make_clients tool cwd [] w chain = (w, Inr chain)"
| "make_clients tool cwd (name # names) w chain =
     (case tool [''make-client'', ''--data-dir'', cwd, ''-n'', name, ''-o'', ''CertDX E2E''] w of
        (w', Some e) \<Rightarrow> (w', Inl (MakeClientFailed name e))
      | (w', None) \<Rightarrow> make_clients tool cwd names w'
          (chain\<lparr>mc_ClientBundle := (mc_ClientBundle chain)(name \<mapsto> filepath_Join [cwd, ''mtls'', name @ ''.pem''])\<rparr>))"

definition GenerateChain ::
    "(string list \<Rightarrow> 'w \<Rightarrow> 'w \<times> string option) \<Rightarrow> string \<Rightarrow> string list \<Rightarrow> string list \<Rightarrow> 'w \<Rightarrow> 'w \<times> (chain_error + MTLSChain)" where
  "GenerateChain tool cwd serverDNS clientNames w =
     (let dns = (if serverDNS = [] then [''localhost'', ''127.0.0.1''] else serverDNS) in
      (case tool [''make-ca'', ''--data-dir'', cwd, ''-o'', ''CertDX E2E'', ''-c'', ''CertDX E2E CA''] w of
         (w1, Some e) \<Rightarrow> (w1, Inl (MakeCAFailed e))
       | (w1, None) \<Rightarrow>
           (case tool [''make-server'', ''--data-dir'', cwd, ''-n'', ''server'', ''-d'', joinDNS dns, ''-o'', ''CertDX E2E''] w1 of
              (w2, Some e) \<Rightarrow> (w2, Inl (MakeServerFailed e))
            | (w2, None) \<Rightarrow> make_clients tool cwd clientNames w2
                \<lparr>mc_Dir = cwd, mc_CABundle = filepath_Join [cwd, ''mtls'', ''ca.pem''],
                 mc_SrvBundle = filepath_Join [cwd, ''mtls'', ''server.pem''], mc_ClientBundle = Map.empty\<rparr>)))"

section \<open>Finding xcaddy\<close>

text \<open>\<open>goEnv\<close> without the run of the command: the newlines at the end of its output go.\<close>

definition strip_newlines :: "string \<Rightarrow> string" where
  "strip_newlines s = rev (dropWhile (\<lambda>c. c = CHR 0x0A \<or> c = CHR 0x0D) (rev s))"

definition goEnv :: "(string \<Rightarrow> string option) \<Rightarrow> string \<Rightarrow> string" where
  "goEnv goOutput name = (case goOutput name of None \<Rightarrow> [] | Some out \<Rightarrow> strip_newlines out)"

definition findXCaddy ::
    "string option \<Rightarrow> (string \<Rightarrow> string option) \<Rightarrow> string option \<Rightarrow> (string \<Rightarrow> bool) \<Rightarrow> string option" where
  "findXCaddy lookPath goOutput home isFile =
     (case lookPath of
        Some p \<Rightarrow> Some p
      | None \<Rightarrow>
          let gobin = goEnv goOutput ''GOBIN''; gopath = goEnv goOutput ''GOPATH'';
              candidates = (if gobin = [] then [] else [filepath_Join [gobin, ''xcaddy'']]) @
                (if gopath = [] then [] else [filepath_Join [gopath, ''bin'', ''xcaddy'']]) @
                (case home of None \<Rightarrow> [] | Some h \<Rightarrow> [filepath_Join [h, ''go'', ''bin'', ''xcaddy'']])
          in List.find isFile candidates)"

section \<open>Lemmas\<close>

lemma joinDNS_Join: "joinDNS names = Join names '',''"
proof -
  have "joinDNS_loop s True ns = (if ns = [] then s else s @ '','' @ Join ns '','')" for s ns
    by (induction ns arbitrary: s) (simp_all add: Join_Cons)
  then show ?thesis by (cases names) (simp_all add: joinDNS_def Join_Cons)
qed

text \<open>The elements of a cleaned absolute path are plain.\<close>

lemma clean_elems_rooted:
  assumes "list_all plain_elem acc" "\<forall>e \<in> set es. CHR ''/'' \<notin> set e"
  shows "list_all plain_elem (clean_elems True acc es)"
  using assms
proof (induction "True" acc es rule: clean_elems.induct)
  case (2 acc e es)
  then show ?case by (cases acc) (auto simp: plain_elem_def)
qed simp

lemma Split1_no_sep: "e \<in> set (Split1 s sep) \<Longrightarrow> sep \<notin> set e"
  by (induction s sep arbitrary: e rule: Split1.induct) (auto split: list.splits if_splits)

lemma filepath_Join_plain3:
  assumes "dir \<noteq> []" "hd dir = CHR ''/''" "plain_elem m" "plain_elem e"
  shows "filepath_Join [filepath_Join [dir, m], e] = filepath_Join [dir, m, e]"
proof -
  let ?c = "clean_elems True [] (Split1 dir (CHR ''/''))"
  have plain: "list_all plain_elem (?c @ [m])"
    using clean_elems_rooted [of "[]" "Split1 dir (CHR ''/'')"] Split1_no_sep [of _ dir "CHR ''/''"] assms(3) by (simp add: list_all_append)
  then have "Split1 (Join (?c @ [m]) ''/'') (CHR ''/'') = ?c @ [m]"
  proof (intro Split1_Join)
    fix x assume "x \<in> set (?c @ [m])"
    then have "plain_elem x" using plain unfolding list_all_iff by blast
    then show "CHR ''/'' \<notin> set x" by (simp add: plain_elem_def)
  qed simp
  then have split: "Split1 (CHR ''/'' # Join (?c @ [m]) ''/'') (CHR ''/'') = [] # ?c @ [m]" by simp
  have clean: "clean_elems True [] ([] # ?c @ [m]) = ?c @ [m]"
    using clean_elems_plain [OF plain, of True "[]"] by simp
  have "filepath_Join [CHR ''/'' # Join (?c @ [m]) ''/'', e] = CHR ''/'' # Join ((?c @ [m]) @ [e]) ''/''"
    using filepath_Join_plain [of "CHR ''/'' # Join (?c @ [m]) ''/''" e] assms(4) unfolding split clean by simp
  then have "filepath_Join [filepath_Join [dir, m], e] = CHR ''/'' # Join ((?c @ [m]) @ [e]) ''/''"
    unfolding filepath_Join_plain [OF assms(1-3)] .
  moreover have "filepath_Join [dir, m, e] = CHR ''/'' # Join ((?c @ [m]) @ [e]) ''/''"
  proof -
    have "Split1 (dir @ ''/'' @ m @ ''/'' @ e) (CHR ''/'') = (Split1 dir (CHR ''/'') @ [m]) @ [e]"
      using assms(3,4) Split1_append [of dir "CHR ''/''" "m @ ''/'' @ e"] Split1_append [of m "CHR ''/''" e]
      by (simp add: Split1_id plain_elem_def)
    moreover have "clean_elems True [] ((Split1 dir (CHR ''/'') @ [m]) @ [e]) = (?c @ [m]) @ [e]"
      by (simp only: clean_elems_append_plain assms(3,4))
    ultimately show ?thesis
      using assms by (simp add: filepath_Join_def Clean_def Let_def)
  qed
  ultimately show ?thesis by simp
qed

section \<open>Properties\<close>

text \<open>
  \<open>WaitListening\<close> returns. When it reports a listener, a connection was made before the deadline, and
  a listener that is there from some time on is found when a quarter of a second is left.
\<close>

theorem WaitListening_correct:
  assumes "\<And>t. 0 \<le> fst (dial t) \<and> fst (dial t) \<le> 200 * Millisecond"
  shows "(\<exists>r. WaitListening dial timeout now = Some r) \<and>
    (WaitListening dial timeout now = Some (Inr ()) \<longrightarrow> (\<exists>t. now \<le> t \<and> t < now + timeout \<and> snd (dial t))) \<and>
    ((\<forall>t \<ge> T. snd (dial t)) \<longrightarrow> now \<le> T \<longrightarrow> T + 250 * Millisecond \<le> now + timeout \<longrightarrow>
       WaitListening dial timeout now = Some (Inr ()))"
proof (intro conjI impI)
  let ?probe = "\<lambda>t. case dial t of (d, ok) \<Rightarrow> (d, if ok then Inr () else Inl ())"
  have ms: "0 < 50 * Millisecond" by (simp add: Millisecond_def)
  have d: "fst (?probe t) = fst (dial t)" "snd (?probe t) = (if snd (dial t) then Inr () else Inl ())" for t
    by (simp_all add: case_prod_beta)
  have pos: "0 \<le> fst (?probe t)" "fst (?probe t) \<le> 200 * Millisecond" for t using assms [of t] d(1) by simp_all
  show "\<exists>r. WaitListening dial timeout now = Some r"
    unfolding WaitListening_def by (rule poll_returns [OF ms pos(1)])
  show "\<exists>t. now \<le> t \<and> t < now + timeout \<and> snd (dial t)" if "WaitListening dial timeout now = Some (Inr ())"
    using poll_sound [OF that [unfolded WaitListening_def] ms pos(1)] d(2) by (metis sum.distinct(1))
  show "WaitListening dial timeout now = Some (Inr ())"
    if "\<forall>t \<ge> T. snd (dial t)" "now \<le> T" "T + 250 * Millisecond \<le> now + timeout"
    using poll_sees [of "50 * Millisecond" ?probe "200 * Millisecond" T "now + timeout" now "()"] ms pos d(2) that
    by (simp add: WaitListening_def)
qed

text \<open>After \<open>Stop\<close> a process has ended, and it is killed only when it did not end in time.
  \<open>GracefulStop\<close> never kills, and its result says whether the process has ended.\<close>

theorem process_stops:
  assumes "pr_started p" "process_Stop tie exits timeout p = (sigs, p')" "GracefulStop tie exits timeout p = (sigs', ok, p'')"
  shows "pr_done p' \<and> (SIGKILL \<in> set sigs \<longleftrightarrow> \<not> pr_done p \<and> \<not> exits_within tie exits timeout) \<and>
    SIGKILL \<notin> set sigs' \<and> (ok \<longleftrightarrow> pr_done p'')"
  using assms by (auto simp: process_Stop_def GracefulStop_def split: if_splits)

lemma Getenv_last:
  "filter (\<lambda>kv. HasPrefix kv (name @ ''='')) env = kvs @ [kv] \<Longrightarrow> Getenv env name = drop (length name + 1) kv"
  unfolding Getenv_def by (cases kvs) simp_all

lemma Getenv_child_env:
  assumes "\<And>kv. kv \<in> set extraEnv \<Longrightarrow> \<not> HasPrefix kv ''CERTDX_DATA_DIR=''"
  shows "Getenv (child_env environ cwd extraEnv) ''CERTDX_DATA_DIR'' = cwd"
proof -
  let ?p = "\<lambda>kv. HasPrefix kv (''CERTDX_DATA_DIR'' @ ''='')"
  have "filter ?p extraEnv = []" using assms by (simp add: filter_empty_conv)
  moreover have "?p (''CERTDX_DATA_DIR='' @ cwd)" by (simp add: HasPrefix_def)
  ultimately have f: "filter ?p (child_env environ cwd extraEnv) = filter ?p environ @ [''CERTDX_DATA_DIR='' @ cwd]"
    unfolding child_env_def filter_append by simp
  show ?thesis unfolding Getenv_last [OF f] by simp
qed

text \<open>
  A server that the harness starts in a directory for which it wrote the configuration keeps its
  cache in that directory: the path at which the server looks is the one that the harness has
  seeded, unless a cache was there before, which is left as it is. Nothing else is written but the
  configuration.
\<close>

theorem harness_isolates_server:
  assumes "cwd \<noteq> []" "hd cwd = CHR ''/''" "\<And>kv. kv \<in> set extraEnv \<Longrightarrow> \<not> HasPrefix kv ''CERTDX_DATA_DIR=''"
    and "WriteServerConfig str mkdirErr writeErr cwd opts fs = Inr (path, fs')"
    and "os' = applyDataDir (Getenv (child_env environ cwd extraEnv) ''CERTDX_DATA_DIR'') [] os" "os_MkdirAll os cwd 493 = None"
  shows "\<exists>cache. ServerCachePath os' = Inr cache \<and> cache \<noteq> path \<and>
    fs' cache = (if fs cache = None then Some (''{}'', 384) else fs cache) \<and>
    fs' path = Some (serverTOML str (server_opts_defaults opts), 384) \<and>
    (\<forall>p. p \<noteq> cache \<longrightarrow> p \<noteq> path \<longrightarrow> fs' p = fs p)"
proof -
  let ?cache = "filepath_Join [cwd, ''cache.json'']"
  have "plain_elem ''cache.json''" "plain_elem ''server.toml''" by (simp_all add: plain_elem_def)
  then have "?cache \<noteq> filepath_Join [cwd, ''server.toml'']"
    using filepath_Join_plain_inj [OF assms(1,2), of "''cache.json''" "''server.toml''"] by auto
  moreover have "ServerCachePath os' = Inr ?cache"
    using assms(1,5,6) Getenv_child_env [OF assms(3)]
    by (simp add: ServerCachePath_def stateRoot_def applyDataDir_def SetDataDir_def Let_def)
  moreover have "path = filepath_Join [cwd, ''server.toml'']"
    using assms(4) by (auto simp: WriteServerConfig_def renderTo_def Let_def split: sum.splits option.splits)
  ultimately show ?thesis
    using assms(4)
    by (intro exI [of _ ?cache]) (auto simp: WriteServerConfig_def PrepareServerCwd_def renderTo_def Let_def
        split: sum.splits option.splits if_splits)
qed

text \<open>The bundles of a chain are where a program with this data directory looks for them.\<close>

lemma make_clients_chain:
  assumes "make_clients tool cwd names w chain = (w', Inr chain')"
  shows "mc_CABundle chain' = mc_CABundle chain \<and> mc_SrvBundle chain' = mc_SrvBundle chain \<and>
    mc_ClientBundle chain' = mc_ClientBundle chain ++ (\<lambda>n. if n \<in> set names then Some (filepath_Join [cwd, ''mtls'', n @ ''.pem'']) else None)"
  using assms
proof (induction names arbitrary: w chain)
  case (Cons name names)
  let ?c = "chain\<lparr>mc_ClientBundle := (mc_ClientBundle chain)(name \<mapsto> filepath_Join [cwd, ''mtls'', name @ ''.pem''])\<rparr>"
  obtain w1 where "make_clients tool cwd names w1 ?c = (w', Inr chain')"
    using Cons.prems by (auto split: prod.splits option.splits)
  from Cons.IH [OF this] show ?case by (auto simp: fun_eq_iff map_add_def)
qed (simp add: map_add_def)

lemma MtlsBundle_in:
  assumes "cwd \<noteq> []" "hd cwd = CHR ''/''" "plain_elem e"
    and "os_MkdirAll os (filepath_Join [cwd, ''mtls'']) 448 = None" "os_Chmod os (filepath_Join [cwd, ''mtls'']) 448 = None"
  shows "in_MtlsDir e (SetDataDir cwd os) = Inr (filepath_Join [cwd, ''mtls'', e])"
  using assms filepath_Join_plain3 [OF assms(1,2) _ assms(3), of "''mtls''"]
  by (simp add: in_MtlsDir_def MtlsDir_def configRoot_def SetDataDir_def plain_elem_def)

theorem GenerateChain_bundles:
  assumes "cwd \<noteq> []" "hd cwd = CHR ''/''"
    and "os_MkdirAll os (filepath_Join [cwd, ''mtls'']) 448 = None" "os_Chmod os (filepath_Join [cwd, ''mtls'']) 448 = None"
    and "GenerateChain tool cwd serverDNS names w = (w', Inr chain)" "os' = applyDataDir env cwd os"
  shows "MtlsCAPath os' = Inr (mc_CABundle chain) \<and> MtlsBundlePath ''server'' os' = Inr (mc_SrvBundle chain) \<and>
    (\<forall>n \<in> set names. plain_elem (n @ ''.pem'') \<longrightarrow> (\<exists>p. mc_ClientBundle chain n = Some p \<and> MtlsBundlePath n os' = Inr p))"
proof -
  have os': "os' = SetDataDir cwd os" using assms(1,6) by (simp add: applyDataDir_def)
  note at = MtlsBundle_in [OF assms(1,2) _ assms(3,4)]
  have "mc_CABundle chain = filepath_Join [cwd, ''mtls'', ''ca.pem'']" "mc_SrvBundle chain = filepath_Join [cwd, ''mtls'', ''server.pem'']"
    "mc_ClientBundle chain = (\<lambda>n. if n \<in> set names then Some (filepath_Join [cwd, ''mtls'', n @ ''.pem'']) else None)"
    using assms(5) by (auto simp: GenerateChain_def Let_def dest!: make_clients_chain split: prod.splits option.splits)
  then show ?thesis
    using at [of "''ca.pem''"] at [of "''server.pem''"] at
    by (auto simp: os' MtlsCAPath_def MtlsBundlePath_def plain_elem_def)
qed

text \<open>The names for the server's certificate arrive at the tool as they are.\<close>

theorem joinDNS_roundtrip:
  assumes "names \<noteq> []" "\<And>n. n \<in> set names \<Longrightarrow> CHR '','' \<notin> set n"
  shows "Split1 (joinDNS names) (CHR '','') = names"
  unfolding joinDNS_Join by (rule Split1_Join [OF assms])

text \<open>
  The plugin accepts the \<open>certdx\<close> block of the harness and reads from it the options of the test, with
  the plugin's defaults for what the test leaves out.
\<close>

theorem caddyfile_accepted:
  assumes "- (2 ^ 63) \<le> cy_RetryCount o1" "cy_RetryCount o1 < 2 ^ 63"
    and "distinct (map fst (cy_Certificates o1))" "\<forall>(i, ds) \<in> set (cy_Certificates o1). i \<noteq> [] \<and> ds \<noteq> []"
  shows "parseCertDXGlobalOptions (caddyfile_block o1) = Inr (MakeCertDXCaddyDaemon
    \<lparr>ca_Common := \<lparr>cc_RetryCount = cy_RetryCount o1, cc_Mode = cy_Mode o1,
       cc_ReconnectInterval = (if cy_ReconnectInterval o1 = [] then ''10m'' else cy_ReconnectInterval o1), cc_ReconnectDuration = 0\<rparr>,
     ca_HttpMain := (case cy_HTTP o1 of None \<Rightarrow> ca_HttpMain MakeCertDXCaddyDaemon | Some s \<Rightarrow> s),
     ca_GRPCMain := (case cy_GRPC o1 of None \<Rightarrow> ca_GRPCMain MakeCertDXCaddyDaemon | Some s \<Rightarrow> s),
     ca_CertificateDefs := map_of (cy_Certificates o1)\<rparr>)" (is "_ = Inr ?c")
proof -
  note S = parseCertDXGlobalOptions_def caddyfile_block_def setting_def MakeCertDXCaddyDaemon_def
    SetDefaultConfig_def zero_caddy_config_def expectArg1_def Atoi_Itoa [OF assms(1,2)]
  have http: "unmarshalHttpServerBlock \<lparr>ch_Url = ch_Url s, ch_AuthMethod = ch_AuthMethod s, ch_Token = [], ch_PEM = []\<rparr>
      (unless_empty ''token'' (ch_Token s) @ unless_empty ''pem'' (ch_PEM s)) = Inr s"
    for s by (cases s) (simp add: unless_empty_def setting_def expectArg1_def)
  have grpc: "\<lparr>cg_Server = cg_Server a, cg_PEM = cg_PEM a\<rparr> = a" for a by (cases a) simp
  have interval: "parse_options c (unless_empty ''reconnect_interval'' v @ rest) =
      parse_options (c\<lparr>ca_Common := (ca_Common c)\<lparr>cc_ReconnectInterval := if v = [] then cc_ReconnectInterval (ca_Common c) else v\<rparr>\<rparr>) rest"
    for c v rest by (simp add: unless_empty_def setting_def expectArg1_def)
  have "parseCertDXGlobalOptions (caddyfile_block o1) =
      parse_options (?c\<lparr>ca_CertificateDefs := Map.empty\<rparr>) (map print_certificate (cy_Certificates o1))"
    by (cases "cy_HTTP o1"; cases "cy_GRPC o1") (simp_all add: S http grpc interval)
  also have "\<dots> = Inr ?c"
    using parse_certificates [OF assms(3,4), of "?c\<lparr>ca_CertificateDefs := Map.empty\<rparr>"] by simp
  finally show ?thesis .
qed

end
