(* ===== verification/Spec2Isabelle.thy ===== *)
theory Spec2Isabelle
  imports Entry_Concurrency Http_Main Grpc_Main K8s_Updater Txc_Updater Acme_User Caddy Sds_Live Whole_Server
    Logging S3_Challenge Harness
begin

text \<open>
  \<^bold>\<open>Verification of certdx\<close>

  certdx is a certificate service. A server (\<open>exec/server\<close>) obtains certificates by ACME for bundles of
  names under an allow-list, keeps them in a cache, renews them while somebody uses them, and hands
  them out over HTTP (\<open>pkg/server/http.go\<close>) and over Envoy's secret discovery service
  (\<open>pkg/server/sds.go\<close>). Clients fetch them by polling or on a stream (\<open>pkg/client\<close>) and write them to
  disk, serve them inside Caddy (\<open>exec/caddytls\<close>), or push them once into Kubernetes or Tencent Cloud
  (\<open>exec/tools\<close>). The tools also make the private CA of the mutual TLS between the two sides.

  \<^bold>\<open>How the parts interact.\<close> A request names a list of domains; \<open>domain.AsKey\<close> maps it to the key of its
  bundle, under which the server has one cache entry. \<open>renew\<close> fills the entry through an \<open>Obtainer\<close>,
  broadcasts the new version by closing the entry's channel, and queues it for the writer of
  \<open>cache.json\<close>. Streams and the HTTPS listener subscribe to an entry, which starts its renewal
  goroutine. A client's poller or stream puts updates into the channel of a watcher, which calls the
  handlers of the certificate when the material changed; the first handler writes the files.

  \<^bold>\<open>Theories and sources.\<close>

    \<^item> \<open>Go_Prelude\<close>: the functions of Go's \<open>strings\<close> and \<open>time\<close> that the packages share, results that may
      panic, and the locales \<open>step_invariant\<close> (an invariant of a step relation) and \<open>teardown\<close> (a group of
      goroutines that ends in every schedule). Each concurrent component interprets them.
    \<^item> \<open>Domain\<close> (\<open>pkg/domain\<close>), \<open>Retry\<close> (\<open>pkg/retry\<close>), \<open>Paths\<close> (\<open>pkg/paths\<close>), \<open>Logging\<close> (\<open>pkg/logging\<close> and
      \<open>Bootstrap\<close> of \<open>pkg/cli\<close>), \<open>Acme_Providers\<close>, \<open>Config_Server\<close>, \<open>Config_Client\<close> (\<open>pkg/config\<close>): one function
      per function of the package. The key is a 64-bit word, computed by FNV-1a.
    \<^item> \<open>Acme\<close>, \<open>S3_Challenge\<close>, \<open>Acme_User\<close> (\<open>pkg/acme\<close>): the two obtainers, the challenge backends, the
      account. The locale \<open>obtainer\<close> is the contract of the interface \<open>Obtainer\<close>; it is interpreted on
      the lego-backed obtainer and on the mock.
    \<^item> \<open>Cert_Entry\<close> (the critical sections of \<open>cert_entry.go\<close> and \<open>server.go\<close>), \<open>Entry_Concurrency\<close> (all their
      interleavings), \<open>Cert_Store\<close> (\<open>cert_store.go\<close> with its writer), \<open>Server\<close> (\<open>server.go\<close> as calls),
      \<open>Http_Server\<close>, \<open>Https\<close> (\<open>http.go\<close>, the listeners), \<open>Sds_Server\<close> (\<open>sds.go\<close>), \<open>Whole_Server\<close> (runs of all
      handlers, the renewal goroutine and the writer on the one state).
    \<^item> \<open>Handler\<close>, \<open>Client_Daemon\<close>, \<open>Http_Client\<close>, \<open>Http_Main\<close>, \<open>Grpc_Streamer\<close>, \<open>Grpc_Main\<close>, \<open>Sds_Client\<close> (\<open>pkg/client\<close>):
      writing the files call by call, the watchers, the poller, all goroutines of \<open>HttpMain\<close>, the failover
      between two gRPC servers and its end, the client's end of a stream.
    \<^item> \<open>Sds_Stream\<close>, \<open>Sds_Duplex\<close>, \<open>Sds_Order\<close>, \<open>Sds_Live\<close>: all goroutines of both ends of a stream, the two ends
      connected, the order of the messages on it, and the handlers of the server run on their entries.
    \<^item> \<open>Mtls_Tools\<close> (\<open>pkg/tools/cert.go\<close>, \<open>pkg/mtls\<close>), \<open>Tools_Cli\<close>, \<open>K8s_Updater\<close>, \<open>Txc_Updater\<close> (\<open>exec/tools\<close>),
      \<open>Caddy\<close> (\<open>exec/caddytls\<close>), \<open>Mains\<close> (\<open>exec/server\<close>, \<open>exec/client\<close>, \<open>pkg/cli\<close>).
    \<^item> \<open>Harness\<close> (\<open>test/e2e/harness\<close>): the waiting loops, processes, configuration files and certificate chain
      of the end-to-end tests.

  \<^bold>\<open>How code becomes definitions.\<close> A struct is a record whose fields have a prefix of the struct; a
  pointer that may be nil is an \<open>option\<close>; an error is a value of a datatype with one constructor per
  way of failing, and a panic is a value too (\<open>Panic\<close>, \<open>TxcPanic\<close>, \<open>StartPanic\<close>, \<open>se_crashed\<close>). A call
  that changes state takes the state and returns it. A goroutine is a program counter, and the
  goroutines of a component are an inductive step relation whose steps are critical sections and
  channel operations; Go's \<open>select\<close> is one step per ready case, an unbuffered channel a step of two
  goroutines, a buffered one a queue with its bound. The order in which Go visits a map is an
  argument. Times are nanoseconds as \<open>int\<close>, counters that can wrap are words. What is outside the
  sources is a parameter: lego and the ACME servers, the SDKs of AWS, Kubernetes, Tencent Cloud and
  Google, cryptography and X.509, the operating system's answers, TOML and JSON texts, \<open>time.ParseDuration\<close>,
  the parser of the command line, the lexer of Caddy.

  \<^bold>\<open>Loops and bounds.\<close> Loops over data are structural recursion. The loop of \<open>Retry.Do\<close> has a
  termination proof by the attempts that are left. The paged listing of \<open>Txc_Updater\<close> ends only when the
  service does: it is a \<open>partial_function\<close> whose value \<open>None\<close> stands for not returning, and
  \<open>fetch_terminates\<close> shows that it returns for a service that lists a finite set of certificates. The
  waits of the harness are one too, and \<open>poll_returns\<close> shows that they return. No definition uses fuel.
  Goroutines that run until they are stopped are step relations, and that they end after the stop is
  a theorem on all schedules (\<open>streams_end\<close>, \<open>http_main_returns\<close>, \<open>grpc_main_returns\<close>), by a lexicographic order on the program
  counters and channels; that the HTTPS listener binds again is one more instance of it. The queue of the cache writer has ten places, the channels of the watchers
  one, as in the code.

  \<^bold>\<open>What is shown.\<close>

    \<^item> Disclosure: keys leave the server only for authorised requests for allowed names, over HTTP
      (\<open>http_discloses_only_to_authorised\<close>) and on streams (\<open>sds_handlers_allowed\<close>); the allow-list test on
      strings is the relation on labels (\<open>IsSubdomain_labels\<close>), and the key of a bundle depends on the set
      of its canonical names only, not on their case or a root dot (\<open>AsKey_canonical\<close>). The HTTPS
      listener serves published pairs only and is bound again after a renewal (\<open>https_serves_current\<close>).
    \<^item> The cache entry under concurrency: no renewal is missed by a waiter, at most one ACME call is
      under way, one renewal goroutine runs exactly while there are consumers.
    \<^item> Persistence: \<open>cache_and_store_agree\<close> and \<open>server_stays_well_formed\<close> on runs of the whole server,
      \<open>restart_recovers\<close> and \<open>Load_migrates\<close> on the file, \<open>exit_and_renewals\<close> on what the end of the process
      may lose.
    \<^item> Delivery: a pack handler offers every certificate at most once and the latest one
      (\<open>sds_offers_latest\<close>), the two ends of a stream agree and never get stuck on each other
      (\<open>sds_ends_agree\<close>, \<open>sds_stream_safe\<close>), a watcher gets what was published in its entry, in this order
      (\<open>sds_delivers_in_order\<close>), the HTTP client gets the entry (\<open>http_client_gets_entry\<close>), the
      client's goroutines deliver in order (\<open>http_main_delivers\<close>), handlers are called for changes only
      (\<open>handlers_called_on_change\<close>), files are replaced atomically whichever system call fails, and only a
      failing removal leaves a temporary file (\<open>writeCertKeyPairAtomic_atomic\<close>), and the
      two theorems below follow a certificate from the server's cache to the client's disk.
    \<^item> Failover, retries and one-shot tools: when the gRPC client keeps its main server and when it can
      lose both, what \<open>Do\<close> returns and how often it calls, when the updaters' waits end and what they
      replace, that the tools' bundles load at both ends.
    \<^item> Configuration: \<open>Validate\<close> accepts exactly the configurations of a declarative specification, and the
      outcome of the server's start is determined by it, by the obtainer and by what is at the path of
      the certificate cache (\<open>server_start\<close>).

  Each property that has hypotheses is followed by a witness that applies it to concrete data.

  \<^bold>\<open>Not modelled.\<close> The transports (net/http, gRPC, TLS handshakes) beyond the calls the code makes of
  them; that an authenticated peer of mutual TLS is who it claims to be is the business of TLS. The
  text of messages that are only logged. The registration of the Caddy modules and the interface
  \<open>pkg/tools/updater.go\<close>, which have no behaviour of their own. Of the harness under \<open>test/e2e\<close>: the builds
  of the programs and the capture of their output.

  \<^bold>\<open>Limits.\<close> Fairness of \<open>select\<close> is not assumed, so where a timer competes with a context the theorems
  state which ends are possible. Two packs of a stream with the same domains share an entry in the
  code; in \<open>Sds_Live\<close> each handler has its own view of it, and a renewal reaches the views one after the
  other, which allows more schedules than there are. In \<open>Grpc_Main\<close> a stream is a step that may end at
  any time, and the goroutines inside it are those of \<open>Sds_Stream\<close>. The two reads of the clock that
  open \<open>renew\<close> give one time. The waits of the one-shot tools are decided in a state, after the changes
  that were reported until then.
\<close>

section \<open>From an update to the disk\<close>

text \<open>
  What the watcher of a certificate makes of an update, and the handler \<open>writeCertAndDoCommand\<close> that
  \<open>ClientInit\<close> registers. The result holds the error of the handler and the command run.
\<close>

fun run_handlers ::
    "(string \<Rightarrow> string list) \<Rightarrow> handler_io \<Rightarrow> unit handler_call list \<Rightarrow> fs \<Rightarrow> fs \<times> handler_error option \<times> string list option" where
  "run_handlers fw io [] fs = (fs, None, None)"
| "run_handlers fw io (call # calls) fs =
     (case writeCertAndDoCommand fw io (hc_fullchain call) (hc_key call) (hc_cert call) fs of
        (tr, fs', err, cmd) \<Rightarrow> if calls = [] then (fs', err, cmd) else run_handlers fw io calls fs')"

definition take_update ::
    "(string \<Rightarrow> string list) \<Rightarrow> handler_io \<Rightarrow> certData \<Rightarrow> unit watchingCert \<times> fs \<Rightarrow>
     (unit watchingCert \<times> fs) \<times> handler_error option \<times> string list option" where
  "take_update fw io d st =
     (let (wc', calls) = watch_one d (fst st); (fs', err, cmd) = run_handlers fw io calls (snd st) in ((wc', fs'), err, cmd))"

text \<open>The updates that a watcher takes from its channel, and whether all of them were written. An error
  of a handler is logged, and the watcher goes on.\<close>

fun take_updates ::
    "(string \<Rightarrow> string list) \<Rightarrow> (handler_io \<times> certData) list \<Rightarrow> unit watchingCert \<times> fs \<Rightarrow> (unit watchingCert \<times> fs) \<times> bool" where
  "take_updates fw [] st = (st, True)"
| "take_updates fw ((io, d) # us) st =
     (case take_update fw io d st of (st', err, cmd) \<Rightarrow>
        (case take_updates fw us st' of (st'', ok) \<Rightarrow> (st'', err = None \<and> ok)))"

text \<open>The material of a watched certificate is what its files hold, or there is none yet.\<close>

definition on_disk :: "string \<Rightarrow> string \<Rightarrow> unit watchingCert \<Rightarrow> fs \<Rightarrow> bool" where
  "on_disk certPath keyPath wc fs \<longleftrightarrow>
     map_option fst (fs certPath) = Some (cd_Fullchain (wc_Data wc)) \<and> map_option fst (fs keyPath) = Some (cd_Key (wc_Data wc))"

abbreviation disk_ok :: "string \<Rightarrow> string \<Rightarrow> unit watchingCert \<Rightarrow> fs \<Rightarrow> bool" where
  "disk_ok certPath keyPath wc fs \<equiv> material (wc_Data wc) = ([], []) \<or> on_disk certPath keyPath wc fs"

lemma write_success:
  assumes "writeCertAndDoCommand fw io fullchain key c fs = (tr, fs', None, cmd)"
    and "GetFullChainAndKeyPath c = Inr (certPath, keyPath)" "temps_ok (hi_certTmp io) (hi_keyTmp io) certPath keyPath fs"
  shows "fs' = fs(certPath \<mapsto> (fullchain, 420), keyPath \<mapsto> (key, 384))"
proof -
  have "writeCertKeyPairAtomic (hi_certTmp io) (hi_keyTmp io) (hi_renameCertErr io) (hi_renameKeyErr io)
      certPath fullchain keyPath key fs = (tr, fs', None)"
    using assms(1,2) by (auto simp: writeCertAndDoCommand_def split: sum.splits prod.splits option.splits)
  then show ?thesis by (rule atomic_success [OF _ assms(3)])
qed

lemma take_update_frame:
  assumes "take_update fw io d (wc, fs) = ((wc', fs'), err, cmd)"
  shows "wc_Config wc' = wc_Config wc" "wc_UpdateHandlers wc' = wc_UpdateHandlers wc" "material (wc_Data wc') = material d"
  using assms watch_one_frame [of d wc] by (auto simp: take_update_def split: prod.splits)

text \<open>An update that was written without an error is on the disk, and no other file is touched.\<close>

lemma take_update_disk:
  assumes wc: "wc_UpdateHandlers wc = [()]" "GetFullChainAndKeyPath (wc_Config wc) = Inr (certPath, keyPath)"
      "temps_ok (hi_certTmp io) (hi_keyTmp io) certPath keyPath fs"
    and disk: "disk_ok certPath keyPath wc fs" and take: "take_update fw io d (wc, fs) = ((wc', fs'), None, cmd)"
  shows "disk_ok certPath keyPath wc' fs' \<and> (material (wc_Data wc) = material d \<longrightarrow> fs' = fs \<and> cmd = None) \<and>
    (\<forall>p. p \<noteq> certPath \<longrightarrow> p \<noteq> keyPath \<longrightarrow> fs' p = fs p)"
proof -
  have w: "wc' = fst (watch_one d wc)" "run_handlers fw io (snd (watch_one d wc)) fs = (fs', None, cmd)"
    using take by (auto simp: take_update_def split: prod.splits)
  have m': "material (wc_Data wc') = material d" using watch_one_frame(3) [of d wc] w(1) by simp
  show ?thesis
  proof (cases "material (wc_Data wc) = material d")
    case True
    then have "wc' = wc" "fs' = fs" "cmd = None"
      using w by (auto simp: watch_one_def material_def Let_def)
    then show ?thesis using disk by simp
  next
    case False
    then have calls: "snd (watch_one d wc) = [\<lparr>hc_handler = (), hc_fullchain = cd_Fullchain d, hc_key = cd_Key d, hc_cert = wc_Config wc\<rparr>]"
      using wc(1) by (auto simp: watch_one_def material_def Let_def)
    then obtain tr where "writeCertAndDoCommand fw io (cd_Fullchain d) (cd_Key d) (wc_Config wc) fs = (tr, fs', None, cmd)"
      using w(2) by (auto split: prod.splits)
    from write_success [OF this wc(2,3)] have "fs' = fs(certPath \<mapsto> (cd_Fullchain d, 420), keyPath \<mapsto> (cd_Key d, 384))" .
    moreover have "certPath \<noteq> keyPath" using wc(3) by (simp add: temps_ok_def)
    ultimately show ?thesis using False m' by (auto simp: on_disk_def material_def)
  qed
qed

section \<open>From the server's cache to the client's disk\<close>

text \<open>One round of a client in HTTP mode for one certificate: the poller's request and what the watcher
  makes of the answer. The result says whether there was an update.\<close>

definition client_round ::
    "'w network \<Rightarrow> (string \<Rightarrow> string option) \<Rightarrow> (string \<Rightarrow> string list) \<Rightarrow> handler_io \<Rightarrow> CertDXHttpClient \<Rightarrow> duration \<Rightarrow>
     'w \<times> unit watchingCert \<times> fs \<Rightarrow> ('w \<times> unit watchingCert \<times> fs) \<times> (handler_error option \<times> string list option) option" where
  "client_round net urlPath fw io client sleepTime st =
     (case st of (w, wc, fs) \<Rightarrow>
        (case GetCertCtx net urlPath client (cf_Domains (wc_Config wc)) w of
           (w', Inl e) \<Rightarrow> ((w', wc, fs), None)
         | (w', Inr r) \<Rightarrow>
             (case poll_round (wc_Config wc) (Some r) sleepTime of
                (None, _) \<Rightarrow> ((w', wc, fs), None)
              | (Some d, _) \<Rightarrow>
                  let ((wc', fs'), r) = take_update fw io d (wc, fs) in ((w', wc', fs'), Some r))))"

text \<open>
  C3: A certificate gets from the server's cache to the client's disk. Take a client whose URL and
  token are the server's, and a watched certificate whose files hold what the daemon serves (or that
  has nothing yet). After a round that ended without an error of the handler, the names are under
  the server's allow-list, the daemon serves exactly the chain and key of the server's entry for the
  bundle of these names, the two files hold them (unless the server had nothing to give yet), and no
  other file is touched; when the server's certificate is the one the daemon had, no file is written
  and no command is run.
\<close>

theorem certificate_reaches_disk:
  assumes srv: "hl_Server client = Some srv" "urlPath (ch_Url srv) = Some (hs_APIPath (sc_HttpServer (sv_Config s)))"
      "ch_AuthMethod srv = HTTP_AUTH_TOKEN" "ch_Token srv = hs_Token (sc_HttpServer (sv_Config s))"
    and wc: "wc_UpdateHandlers wc = [()]" "GetFullChainAndKeyPath (wc_Config wc) = Inr (certPath, keyPath)"
      "temps_ok (hi_certTmp io) (hi_keyTmp io) certPath keyPath fs"
    and disk: "material (wc_Data wc) = ([], []) \<or> on_disk certPath keyPath wc fs"
    and round: "client_round (server_network E) urlPath fw io client sleepTime (s, wc, fs) = ((s', wc', fs'), Some (None, cmd))"
  shows "AllAllowed (ce_lw E) (ac_AllowedDomains (sc_ACME (sv_Config s))) (cf_Domains (wc_Config wc)) \<and>
    (\<exists>e. sv_cache s' (AsKey (ce_lw E) (cf_Domains (wc_Config wc))) = Some e \<and>
       material (wc_Data wc') = (c_FullChain (e_cert e), c_Key (e_cert e)) \<and>
       (material (wc_Data wc') = ([], []) \<or> on_disk certPath keyPath wc' fs') \<and>
       (material (wc_Data wc) = (c_FullChain (e_cert e), c_Key (e_cert e)) \<longrightarrow> fs' = fs \<and> cmd = None)) \<and>
    (\<forall>p. p \<noteq> certPath \<longrightarrow> p \<noteq> keyPath \<longrightarrow> fs' p = fs p)"
proof -
  obtain r d where get: "GetCertCtx (server_network E) urlPath client (cf_Domains (wc_Config wc)) s = (s', Inr r)"
    and err: "hr_Err r = []"
    and d: "d = \<lparr>cd_Domains = cf_Domains (wc_Config wc), cd_Fullchain = hr_FullChain r, cd_Key = hr_Key r\<rparr>"
    and take: "take_update fw io d (wc, fs) = ((wc', fs'), None, cmd)"
    using round by (auto simp: client_round_def poll_round_def Let_def split: prod.splits sum.splits if_splits option.splits)
  from http_client_gets_entry [OF srv get] err obtain e where
    allowed: "AllAllowed (ce_lw E) (ac_AllowedDomains (sc_ACME (sv_Config s))) (cf_Domains (wc_Config wc))" and
    e: "sv_cache s' (AsKey (ce_lw E) (cf_Domains (wc_Config wc))) = Some e"
      "hr_FullChain r = c_FullChain (e_cert e)" "hr_Key r = c_Key (e_cert e)"
    by (auto split: if_splits)
  have "material d = (c_FullChain (e_cert e), c_Key (e_cert e))" by (simp add: d material_def e)
  then show ?thesis
    using allowed e(1) take_update_disk [OF wc disk take] take_update_frame(3) [OF take] by auto
qed

text \<open>The first round of a client that has nothing: the server obtains the certificate for it.\<close>

definition ex_first :: "unit watchingCert" where
  "ex_first = \<lparr>wc_Data = \<lparr>cd_Domains = [''a.b''], cd_Fullchain = [], cd_Key = []\<rparr>,
     wc_Config = example_certification, wc_UpdateHandlers = [()]\<rparr>"

lemma ex_first_round:
  "\<exists>s' wc' fs' cmd. client_round (server_network example_env) (\<lambda>_. Some ''/'') (\<lambda>_. []) example_handler_io example_http_client Hour
      (example_server\<lparr>sv_Config := example_http_config\<rparr>, ex_first, Map.empty) = ((s', wc', fs'), Some (None, cmd)) \<and>
     material (wc_Data wc') \<noteq> ([], [])"
proof -
  let ?s = "example_server\<lparr>sv_Config := example_http_config\<rparr>"
  obtain resp s' where r: "apiWithTokenHandler example_env example_request ?s = (Some resp, s')"
    "discloses resp ''k''" "rs_Status resp = 200"
    using example_response by (auto simp: listener_handler_def)
  then obtain b where b: "rs_Body resp = JsonResp b" "hr_Key b = ''k''"
    by (auto simp: discloses_def)
  have req: "makeGetCertRequest (\<lambda>_. Some ''/'') example_http_client [''a.b''] = Inr example_request"
    by (simp add: makeGetCertRequest_def example_http_client_def example_client_config_def example_request_def
        HTTP_AUTH_TOKEN_def)
  have g: "GetCertCtx (server_network example_env) (\<lambda>_. Some ''/'') example_http_client [''a.b''] ?s = (s', Inr b)"
    using r b by (simp add: GetCertCtx_def req server_network_def)
  have "hr_Err b = []"
    using r b by (auto simp: apiWithTokenHandler_def apiHandler_def example_request_def handleCertReq_def example_env_def
        example_http_config_def http_json_def http_Error_def Let_def dest!: cert_response_fields
        split: if_splits prod.splits option.splits renew_result.splits)
  moreover have "\<exists>tr fs' cmd. writeCertAndDoCommand (\<lambda>_. []) example_handler_io fc key example_certification Map.empty = (tr, fs', None, cmd)"
    for fc key
    by (simp add: writeCertAndDoCommand_def example_paths example_handler_io_def ensureParentDir_def
        writeCertKeyPairAtomic_def prepareTempFile_def example_temp_def Let_def)
  then obtain tr fs' cmd where
    "writeCertAndDoCommand (\<lambda>_. []) example_handler_io (hr_FullChain b) ''k'' example_certification Map.empty = (tr, fs', None, cmd)"
    by blast
  moreover have "cf_Domains example_certification = [''a.b'']" by (simp add: example_certification_def)
  ultimately show ?thesis
    using g b(2) by (simp add: client_round_def take_update_def ex_first_def poll_round_def watch_one_def material_def)
qed

theorem certificate_reaches_disk_witness:
  "\<exists>s' wc' fs' e cmd. client_round (server_network example_env) (\<lambda>_. Some ''/'') (\<lambda>_. []) example_handler_io example_http_client Hour
      (example_server\<lparr>sv_Config := example_http_config\<rparr>, ex_first, Map.empty) = ((s', wc', fs'), Some (None, cmd)) \<and>
     sv_cache s' (AsKey id [''a.b'']) = Some e \<and> map_option fst (fs' ''/s/n.key'') = Some (c_Key (e_cert e))"
proof -
  let ?s = "example_server\<lparr>sv_Config := example_http_config\<rparr>"
  obtain s' wc' fs' cmd where r: "client_round (server_network example_env) (\<lambda>_. Some ''/'') (\<lambda>_. []) example_handler_io
      example_http_client Hour (?s, ex_first, Map.empty) = ((s', wc', fs'), Some (None, cmd))" "material (wc_Data wc') \<noteq> ([], [])"
    using ex_first_round by blast
  have t: "temps_ok (hi_certTmp example_handler_io) (hi_keyTmp example_handler_io) ''/s/n.pem'' ''/s/n.key'' Map.empty"
    by (simp add: temps_ok_def fresh_name_def example_handler_io_def example_temp_def)
  have c: "wc_UpdateHandlers ex_first = [()]" "GetFullChainAndKeyPath (wc_Config ex_first) = Inr (''/s/n.pem'', ''/s/n.key'')"
    "material (wc_Data ex_first) = ([], []) \<or> on_disk ''/s/n.pem'' ''/s/n.key'' ex_first Map.empty"
    by (simp_all add: ex_first_def example_paths material_def)
  have srv: "hl_Server example_http_client = Some (cl_HttpMain example_client_config)"
    "Some ''/'' = Some (hs_APIPath (sc_HttpServer (sv_Config ?s)))" "ch_AuthMethod (cl_HttpMain example_client_config) = HTTP_AUTH_TOKEN"
    "ch_Token (cl_HttpMain example_client_config) = hs_Token (sc_HttpServer (sv_Config ?s))"
    by (simp_all add: example_http_client_def example_client_config_def example_http_config_def HTTP_AUTH_TOKEN_def)
  have "ce_lw example_env = id" "cf_Domains (wc_Config ex_first) = [''a.b'']"
    by (simp_all add: example_env_def ex_first_def example_certification_def)
  with certificate_reaches_disk [OF srv c(1,2) t c(3) r(1)] r(2)
  obtain e where "sv_cache s' (AsKey id [''a.b'']) = Some e" "material (wc_Data wc') = (c_FullChain (e_cert e), c_Key (e_cert e))"
    "on_disk ''/s/n.pem'' ''/s/n.key'' wc' fs'"
    by auto
  then show ?thesis
    using r(1) by (auto simp: on_disk_def material_def)
qed

section \<open>From the server's cache to the client's disk, over a stream\<close>

lemma temps_ok_frame:
  assumes "temps_ok cio kio certPath keyPath fs" "\<forall>p. p \<noteq> certPath \<longrightarrow> p \<noteq> keyPath \<longrightarrow> fs' p = fs p"
  shows "temps_ok cio kio certPath keyPath fs'"
  using assms by (auto simp: temps_ok_def fresh_name_def)

lemma take_updates_disk:
  assumes "wc_UpdateHandlers wc = [()]" "GetFullChainAndKeyPath (wc_Config wc) = Inr (certPath, keyPath)"
    and "\<And>io. io \<in> fst ` set us \<Longrightarrow> temps_ok (hi_certTmp io) (hi_keyTmp io) certPath keyPath fs"
    and "disk_ok certPath keyPath wc fs" "take_updates fw us (wc, fs) = ((wc', fs'), True)"
  shows "disk_ok certPath keyPath wc' fs' \<and> (us \<noteq> [] \<longrightarrow> material (wc_Data wc') = material (snd (last us))) \<and>
    (\<forall>p. p \<noteq> certPath \<longrightarrow> p \<noteq> keyPath \<longrightarrow> fs' p = fs p)"
  using assms
proof (induction us arbitrary: wc fs)
  case (Cons u us)
  obtain io d where u: "u = (io, d)" by fastforce
  obtain wc1 fs1 cmd where take: "take_update fw io d (wc, fs) = ((wc1, fs1), None, cmd)"
    and rest: "take_updates fw us (wc1, fs1) = ((wc', fs'), True)"
    using Cons.prems(5) by (auto simp: u split: prod.splits)
  note frame = take_update_frame [OF take]
  have one: "disk_ok certPath keyPath wc1 fs1" "\<forall>p. p \<noteq> certPath \<longrightarrow> p \<noteq> keyPath \<longrightarrow> fs1 p = fs p"
    using take_update_disk [OF Cons.prems(1,2) _ Cons.prems(4) take] Cons.prems(3) u by auto
  have "disk_ok certPath keyPath wc' fs' \<and> (us \<noteq> [] \<longrightarrow> material (wc_Data wc') = material (snd (last us))) \<and>
      (\<forall>p. p \<noteq> certPath \<longrightarrow> p \<noteq> keyPath \<longrightarrow> fs' p = fs1 p)"
  proof (rule Cons.IH [OF _ _ _ one(1) rest])
    show "temps_ok (hi_certTmp io') (hi_keyTmp io') certPath keyPath fs1" if "io' \<in> fst ` set us" for io'
      by (rule temps_ok_frame [OF Cons.prems(3) one(2)]) (use that in auto)
  qed (use Cons.prems(1,2) frame in simp_all)
  moreover have "us = [] \<Longrightarrow> wc' = wc1" using rest by simp
  ultimately show ?case
    using one(2) frame(3) u by (cases "us = []") auto
qed auto

text \<open>
  C4: A certificate gets from the server's cache to the client's disk over a stream. Take a client
  whose certificates have names of their own, one of them, and the pack of its name on the server,
  whose handler waits for the next renewal of the entry and has seen the current version. When the
  watcher has written the updates it was given without an error, the daemon serves exactly the
  chain and key that the entry holds, the two files hold them, and no other file is touched.
\<close>

theorem stream_reaches_disk:
  assumes "live_init certs l\<^sub>0" "(live_step fmt lw metaOk certs)\<^sup>*\<^sup>* l\<^sub>0 l" "distinct (map cert_name certs)"
    and i: "i < length certs" "j < length (lv_packs l)" "handler_name (lv_srv l) j = cert_name (certs ! i)"
    and p: "p = lv_packs l ! j" "pk_pc p = PUpdate cert seen k" "seen = e_version (pk_entry p)" "length (pk_pubs p) < 2 ^ 64"
    and wc: "wc_UpdateHandlers (certs ! i) = [()]" "GetFullChainAndKeyPath (wc_Config (certs ! i)) = Inr (certPath, keyPath)"
      "\<And>io. io \<in> fst ` set us \<Longrightarrow> temps_ok (hi_certTmp io) (hi_keyTmp io) certPath keyPath fs"
      "disk_ok certPath keyPath (certs ! i) fs"
    and take: "map snd us = given_updates i (du_cli (lv_duplex l))" "take_updates fw us (certs ! i, fs) = ((wc', fs'), True)"
  shows "material (wc_Data wc') = (c_FullChain (e_cert (pk_entry p)), c_Key (e_cert (pk_entry p))) \<and>
    disk_ok certPath keyPath wc' fs' \<and> (\<forall>p. p \<noteq> certPath \<longrightarrow> p \<noteq> keyPath \<longrightarrow> fs' p = fs p)"
proof -
  have inv: "live_inv fmt certs l" using live.inv_reachable [OF assms(1,2)] .
  have "given_as certs (du_cli (lv_duplex l)) (handler_name (lv_srv l) j) = map material (map snd us)"
    unfolding i(3) take(1) by (rule given_as_updates [OF delivered.inv_reachable [OF assms(1,2)] assms(3) i(1)])
  moreover have "view_ok fmt (lv_srv l) j (lv_entries l ! j) p" using inv i(2) p(1) by (simp add: live_inv_def)
  ultimately have "us \<noteq> []" "material (snd (last us)) = cert_material (e_cert (pk_entry p))"
    using live_inv_current [OF inv i(2) _ refl p(2-4)] last_map [of us "material \<circ> snd"] by auto
  then show ?thesis
    using take_updates_disk [OF wc take(2)] by auto
qed

theorem stream_reaches_disk_witness:
  "\<exists>l wc fs. ex_reach ex_live l \<and> take_updates (\<lambda>_. []) [(example_handler_io, ex_update)] (ex_watch, Map.empty) = ((wc, fs), True) \<and>
     map_option fst (fs ''/s/n.key'') = Some (c_Key (e_cert (pk_entry (lv_packs l ! 0))))"
proof -
  obtain s e e2 v where run: "ex_reach ex_live (at_live s [] [] ex_given [e] [(ex_offering e2 v)\<lparr>pk_pc := PUpdate example_cert v 1\<rparr>])"
    and s: "handler_name s 0 = ''n''" "Snapshot e2 = (example_cert, v)" using ex_live_run by blast
  let ?p = "(ex_offering e2 v)\<lparr>pk_pc := PUpdate example_cert v 1\<rparr>" and ?us = "[(example_handler_io, ex_update)]"
  have v: "v = e_version e2" "e_cert e2 = example_cert" using s(2) by (simp_all add: Snapshot_def)
  have names: "handler_name s 0 = cert_name ([ex_watch] ! 0)" using s(1) by (simp add: ex_watch_def example_certification_def)
  have w: "wc_UpdateHandlers ex_watch = [()]" "GetFullChainAndKeyPath (wc_Config ex_watch) = Inr (''/s/n.pem'', ''/s/n.key'')"
    "disk_ok ''/s/n.pem'' ''/s/n.key'' ex_watch Map.empty"
    by (simp_all add: ex_watch_def example_paths material_def)
  have t: "temps_ok (hi_certTmp example_handler_io) (hi_keyTmp example_handler_io) ''/s/n.pem'' ''/s/n.key'' Map.empty"
    by (simp add: temps_ok_def fresh_name_def example_handler_io_def example_temp_def)
  obtain wc fs where take: "take_updates (\<lambda>_. []) ?us (ex_watch, Map.empty) = ((wc, fs), True)"
    by (simp add: take_update_def ex_watch_def watch_one_def writeCertAndDoCommand_def example_paths example_handler_io_def
        ensureParentDir_def writeCertKeyPairAtomic_def prepareTempFile_def example_temp_def Let_def)
  have "material (wc_Data wc) = cert_material (e_cert (pk_entry ?p)) \<and> disk_ok ''/s/n.pem'' ''/s/n.key'' wc fs \<and>
      (\<forall>p. p \<noteq> ''/s/n.pem'' \<longrightarrow> p \<noteq> ''/s/n.key'' \<longrightarrow> fs p = Map.empty p)"
    by (rule stream_reaches_disk [OF ex_live_init run, where i = 0 and j = 0 and us = ?us])
      (use v names w t take in \<open>simp_all add: at_live_def given_updates_def\<close>)
  moreover have "cert_material (e_cert (pk_entry ?p)) = (''c'', ''k'')" using v(2) by (simp add: example_cert_def)
  ultimately have "material (wc_Data wc) = (''c'', ''k'')" "on_disk ''/s/n.pem'' ''/s/n.key'' wc fs" by (elim conjE, simp)+
  then have "map_option fst (fs ''/s/n.key'') = Some ''k''"
    by (auto simp: on_disk_def material_def)
  then show ?thesis
    using run take v by (intro exI [of _ "at_live s [] [] ex_given [e] [?p]"] exI [of _ wc] exI [of _ fs])
      (simp add: at_live_def example_cert_def)
qed

end
